(* ===== verification/Codec.thy ===== *)
theory Codec
  imports Prelude
begin

text \<open>
  The wire format. The integer and length codecs are those of the \<open>commonware_codec\<close> crate,
  which is not part of the repository: they are the fields of the record \<open>codec\<close>, and
  \<open>codec_ok\<close> states what that crate documents of them (fixed-width big-endian integers,
  a self-delimiting length). A reader takes the unread bytes of the buffer and returns the
  value and what is left. \<open>be_codec\<close> is an instance that satisfies the hypotheses.
\<close>

datatype codec_error =
    EndOfBuffer
  | Invalid string string
  | InvalidLength nat
  | InvalidVarint
  | ExtraData nat

type_synonym 'a reader = "bytes \<Rightarrow> (codec_error, 'a \<times> bytes) result"

record codec =
  write_u16 :: "u16 \<Rightarrow> bytes"
  read_u16 :: "u16 reader"
  write_u64 :: "u64 \<Rightarrow> bytes"
  read_u64 :: "u64 reader"
  write_len :: "nat \<Rightarrow> bytes"
  read_len :: "nat \<Rightarrow> nat \<Rightarrow> nat reader"

text \<open>Integers are fixed-width and big-endian, and reading them fails only on a short buffer.\<close>

definition u16_law :: "'x codec_scheme \<Rightarrow> bool" where
  "u16_law c \<longleftrightarrow>
    (\<forall>x. write_u16 c x = u16_to_be x) \<and>
    (\<forall>bs. read_u16 c bs =
       (if length bs < 2 then Err EndOfBuffer else Ok (u16_from_be (take 2 bs), drop 2 bs)))"

definition u64_law :: "'x codec_scheme \<Rightarrow> bool" where
  "u64_law c \<longleftrightarrow>
    (\<forall>x. write_u64 c x = u64_to_be x) \<and>
    (\<forall>bs. read_u64 c bs =
       (if length bs < 8 then Err EndOfBuffer else Ok (u64_from_be (take 8 bs), drop 8 bs)))"

text \<open>A length below \<open>2 ^ 32\<close> takes one to five bytes, is read back from in front of any
  continuation when it lies in the configured range, and is never read outside of it.\<close>

definition len_law :: "'x codec_scheme \<Rightarrow> bool" where
  "len_law c \<longleftrightarrow>
    (\<forall>n lo hi rest. n < 2 ^ 32 \<longrightarrow> lo \<le> n \<longrightarrow> n \<le> hi \<longrightarrow>
       read_len c lo hi (write_len c n @ rest) = Ok (n, rest)) \<and>
    (\<forall>n. n < 2 ^ 32 \<longrightarrow> 1 \<le> length (write_len c n) \<and> length (write_len c n) \<le> 5) \<and>
    (\<forall>lo hi bs n rest. read_len c lo hi bs = Ok (n, rest) \<longrightarrow> lo \<le> n \<and> n \<le> hi)"

definition codec_ok :: "'x codec_scheme \<Rightarrow> bool" where
  "codec_ok c \<longleftrightarrow> u16_law c \<and> u64_law c \<and> len_law c"

section \<open>Consequences of the laws\<close>

lemma write_u64_eq: "codec_ok c \<Longrightarrow> write_u64 c x = u64_to_be x"
  by (simp add: codec_ok_def u64_law_def)

lemma write_u16_eq: "codec_ok c \<Longrightarrow> write_u16 c x = u16_to_be x"
  by (simp add: codec_ok_def u16_law_def)

lemma length_write_u64 [simp]: "codec_ok c \<Longrightarrow> length (write_u64 c x) = 8"
  by (simp add: write_u64_eq)

lemma length_write_u16 [simp]: "codec_ok c \<Longrightarrow> length (write_u16 c x) = 2"
  by (simp add: write_u16_eq)

lemma read_u64_short: "codec_ok c \<Longrightarrow> length bs < 8 \<Longrightarrow> read_u64 c bs = Err EndOfBuffer"
  by (simp add: codec_ok_def u64_law_def)

lemma read_u64_long:
  "codec_ok c \<Longrightarrow> 8 \<le> length bs \<Longrightarrow> read_u64 c bs = Ok (u64_from_be (take 8 bs), drop 8 bs)"
  by (simp add: codec_ok_def u64_law_def)

lemma read_u16_long:
  "codec_ok c \<Longrightarrow> 2 \<le> length bs \<Longrightarrow> read_u16 c bs = Ok (u16_from_be (take 2 bs), drop 2 bs)"
  by (simp add: codec_ok_def u16_law_def)

lemma read_u64_write [simp]: "codec_ok c \<Longrightarrow> read_u64 c (write_u64 c x @ rest) = Ok (x, rest)"
  by (simp add: read_u64_long write_u64_eq)

lemma read_u16_write [simp]: "codec_ok c \<Longrightarrow> read_u16 c (write_u16 c x @ rest) = Ok (x, rest)"
  by (simp add: read_u16_long write_u16_eq)

lemma read_u64_Ok:
  "codec_ok c \<Longrightarrow> read_u64 c bs = Ok (x, rest) \<Longrightarrow> bs = write_u64 c x @ rest"
  by (auto simp: codec_ok_def u64_law_def u64_to_from_be split: if_splits)

lemma read_u64_Ok_iff:
  "codec_ok c \<Longrightarrow> read_u64 c bs = Ok (x, rest) \<longleftrightarrow> bs = write_u64 c x @ rest"
  by (metis read_u64_Ok read_u64_write)

lemma read_len_write [simp]:
  "codec_ok c \<Longrightarrow> n < 2 ^ 32 \<Longrightarrow> lo \<le> n \<Longrightarrow> n \<le> hi \<Longrightarrow>
    read_len c lo hi (write_len c n @ rest) = Ok (n, rest)"
  by (simp add: codec_ok_def len_law_def)

lemma read_len_range:
  "codec_ok c \<Longrightarrow> read_len c lo hi bs = Ok (n, rest) \<Longrightarrow> lo \<le> n \<and> n \<le> hi"
  unfolding codec_ok_def len_law_def by blast

lemma length_write_len:
  "codec_ok c \<Longrightarrow> n < 2 ^ 32 \<Longrightarrow> 1 \<le> length (write_len c n) \<and> length (write_len c n) \<le> 5"
  unfolding codec_ok_def len_law_def by blast

text \<open>\<open>Buf::copy_to_bytes\<close> after a check of \<open>remaining\<close>, as the source writes it.\<close>

definition take_bytes :: "nat \<Rightarrow> bytes reader" where
  "take_bytes n bs = (if length bs < n then Err EndOfBuffer else Ok (take n bs, drop n bs))"

lemma take_bytes_append [simp]: "length x = n \<Longrightarrow> take_bytes n (x @ rest) = Ok (x, rest)"
  by (simp add: take_bytes_def)

lemma take_bytes_Ok:
  "take_bytes n bs = Ok (x, rest) \<longleftrightarrow> bs = x @ rest \<and> length x = n"
  by (auto simp: take_bytes_def)

section \<open>Round trips as an interface\<close>

text \<open>
  A wire codec: an encoder and a reader such that the reader undoes the encoder in front of
  any continuation. \<open>law\<close> is what the environment \<open>c\<close> has to satisfy, \<open>wf\<close> the values that
  are representable. Every such codec is injective and prefix-free, and sequences of its
  encodings parse back. \<open>fixed_codec\<close> adds a fixed size, \<open>canonical_codec\<close> that the reader
  accepts nothing but encodings.
\<close>

fun read_many :: "'a reader \<Rightarrow> nat \<Rightarrow> 'a list reader" where
  "read_many rd 0 bs = Ok ([], bs)"
| "read_many rd (Suc n) bs =
    bind_res (rd bs) (\<lambda>(x, bs').
      bind_res (read_many rd n bs') (\<lambda>(xs, bs''). Ok (x # xs, bs'')))"

locale wire_codec =
  fixes law :: "'c \<Rightarrow> bool"
    and wf :: "'c \<Rightarrow> 'a \<Rightarrow> bool"
    and enc :: "'c \<Rightarrow> 'a \<Rightarrow> bytes"
    and dec :: "'c \<Rightarrow> 'a reader"
  assumes round_trip: "law c \<Longrightarrow> wf c x \<Longrightarrow> dec c (enc c x @ rest) = Ok (x, rest)"
begin

lemma round_trip_exact: "law c \<Longrightarrow> wf c x \<Longrightarrow> dec c (enc c x) = Ok (x, [])"
  using round_trip [of c x "[]"] by simp

lemma prefix_free:
  assumes "law c" "wf c x" "wf c y" "enc c x @ r = enc c y @ r'"
  shows "x = y \<and> r = r'"
  using round_trip [of c x r] round_trip [of c y r'] assms by (metis prod.inject result.inject(2))

lemma enc_inj: "law c \<Longrightarrow> wf c x \<Longrightarrow> wf c y \<Longrightarrow> enc c x = enc c y \<longleftrightarrow> x = y"
  using prefix_free [of c x y "[]" "[]"] by metis

lemma read_many_enc:
  "law c \<Longrightarrow> list_all (wf c) xs \<Longrightarrow>
    read_many (dec c) (length xs) (concat (map (enc c) xs) @ rest) = Ok (xs, rest)"
  by (induction xs) (auto simp: round_trip)

lemma concat_enc_inj:
  assumes "law c" "list_all (wf c) xs" "list_all (wf c) ys" "length xs = length ys"
    and "concat (map (enc c) xs) = concat (map (enc c) ys)"
  shows "xs = ys"
  using read_many_enc [of c xs "[]"] read_many_enc [of c ys "[]"] assms
  by (metis prod.inject result.inject(2))

end

locale fixed_codec = wire_codec law wf enc dec
  for law :: "'c \<Rightarrow> bool" and wf :: "'c \<Rightarrow> 'a \<Rightarrow> bool" and enc :: "'c \<Rightarrow> 'a \<Rightarrow> bytes"
    and dec :: "'c \<Rightarrow> 'a reader" +
  fixes size :: nat
  assumes enc_size: "law c \<Longrightarrow> wf c x \<Longrightarrow> length (enc c x) = size"
    and dec_short: "law c \<Longrightarrow> length bs < size \<Longrightarrow> \<not> is_ok (dec c bs)"
begin

lemma length_concat_enc:
  "law c \<Longrightarrow> list_all (wf c) xs \<Longrightarrow> length (concat (map (enc c) xs)) = length xs * size"
  by (induction xs) (auto simp: enc_size)

lemma truncated_rejected:
  "law c \<Longrightarrow> wf c x \<Longrightarrow> n < size \<Longrightarrow> \<not> is_ok (dec c (take n (enc c x)))"
  by (simp add: dec_short enc_size)

end

locale canonical_codec = wire_codec law wf enc dec
  for law :: "'c \<Rightarrow> bool" and wf :: "'c \<Rightarrow> 'a \<Rightarrow> bool" and enc :: "'c \<Rightarrow> 'a \<Rightarrow> bytes"
    and dec :: "'c \<Rightarrow> 'a reader" +
  assumes dec_canonical: "law c \<Longrightarrow> dec c bs = Ok (x, rest) \<Longrightarrow> wf c x \<and> bs = enc c x @ rest"
begin

lemma dec_inj:
  "law c \<Longrightarrow> dec c bs = Ok (x, []) \<Longrightarrow> dec c bs' = Ok (x, []) \<Longrightarrow> bs = bs'"
  using dec_canonical [of c bs x "[]"] dec_canonical [of c bs' x "[]"] by simp

end

section \<open>An environment that satisfies the laws\<close>

text \<open>The integers as the standard library encodes them; a length as a little-endian base-128
  number of at most five digits, the high bit of a digit saying that another follows.\<close>

fun varint_digits :: "nat \<Rightarrow> nat \<Rightarrow> bytes" where
  "varint_digits 0 n = [word_of_nat n]"
| "varint_digits (Suc k) n =
    (if n < 128 then [word_of_nat n]
     else word_of_nat (128 + n mod 128) # varint_digits k (n div 128))"

fun varint_value :: "nat \<Rightarrow> nat reader" where
  "varint_value k [] = Err EndOfBuffer"
| "varint_value k (b # bs) =
    (if unat b < 128 then Ok (unat b, bs)
     else case k of
       0 \<Rightarrow> Err InvalidVarint
     | Suc k' \<Rightarrow> bind_res (varint_value k' bs) (\<lambda>(n, bs'). Ok (unat b - 128 + 128 * n, bs')))"

definition be_codec :: codec where
  "be_codec =
    \<lparr>write_u16 = u16_to_be,
     read_u16 = (\<lambda>bs. if length bs < 2 then Err EndOfBuffer
                       else Ok (u16_from_be (take 2 bs), drop 2 bs)),
     write_u64 = u64_to_be,
     read_u64 = (\<lambda>bs. if length bs < 8 then Err EndOfBuffer
                       else Ok (u64_from_be (take 8 bs), drop 8 bs)),
     write_len = varint_digits 4,
     read_len = (\<lambda>lo hi bs. bind_res (varint_value 4 bs) (\<lambda>(n, bs').
                   if lo \<le> n \<and> n \<le> hi then Ok (n, bs') else Err (InvalidLength n)))\<rparr>"

lemma unat_of_nat_less: "n < 256 \<Longrightarrow> unat (word_of_nat n :: u8) = n"
  by (simp add: unat_of_nat)

lemma varint_value_digits:
  "n < 128 * 128 ^ k \<Longrightarrow> varint_value k (varint_digits k n @ rest) = Ok (n, rest)"
proof (induction k arbitrary: n)
  case 0
  then show ?case by (simp add: unat_of_nat)
next
  case (Suc k)
  show ?case
  proof (cases "n < 128")
    case True
    then show ?thesis by (simp add: unat_of_nat)
  next
    case False
    define b :: u8 where "b = word_of_nat (128 + n mod 128)"
    have b: "unat b = 128 + n mod 128"
      unfolding b_def by (rule unat_of_nat_less) (use mod_less_divisor [of 128 n] in linarith)
    have "n div 128 < 128 * 128 ^ k"
      using Suc.prems by (intro less_mult_imp_div_less) (simp only: power_Suc ac_simps)
    note IH = Suc.IH [OF this]
    have "varint_digits (Suc k) n = b # varint_digits k (n div 128)"
      using False by (simp add: b_def del: of_nat_add)
    with IH b show ?thesis by simp
  qed
qed

lemma length_varint_digits: "1 \<le> length (varint_digits k n) \<and> length (varint_digits k n) \<le> Suc k"
  by (induction k arbitrary: n) auto

lemma codec_ok_be_codec [simp]: "codec_ok be_codec"
proof -
  have "u16_law be_codec" "u64_law be_codec"
    by (simp_all add: u16_law_def u64_law_def be_codec_def)
  moreover have "len_law be_codec"
    unfolding len_law_def
  proof (intro conjI allI impI)
    fix n lo hi rest
    assume "n < (2 :: nat) ^ 32" "lo \<le> n" "n \<le> hi"
    then show "read_len be_codec lo hi (write_len be_codec n @ rest) = Ok (n, rest)"
      using varint_value_digits [of n 4 rest] by (simp add: be_codec_def del: varint_value.simps varint_digits.simps)
  next
    fix n
    show "1 \<le> length (write_len be_codec n)" "length (write_len be_codec n) \<le> 5"
      using length_varint_digits [of 4 n]
      by (simp_all add: be_codec_def del: varint_digits.simps)
  next
    fix lo hi bs n rest
    assume "read_len be_codec lo hi bs = Ok (n, rest)"
    then show "lo \<le> n" "n \<le> hi"
      by (auto simp: be_codec_def bind_res_Ok_iff simp del: varint_value.simps split: if_splits)
  qed
  ultimately show ?thesis by (simp add: codec_ok_def)
qed

end
