(* ===== verification/Machines.thy ===== *)
theory Machines
  imports Prelude "HOL-Library.Sublist"
begin

text \<open>
  Interfaces of the state machines of the program. A machine is a step function that takes
  one input and the state; a run is a fold of it over the inputs. \<open>machine\<close> is a step that
  keeps an invariant, \<open>simulation\<close> a step that implements an abstract one through an abstraction function, and
  \<open>filtering_run\<close> a step that may reject its input and then leaves the state alone. The
  nonce bitmap, the executor's overlay and the mempool actor are instances.
\<close>

section \<open>Invariants\<close>

locale machine =
  fixes inv :: "'s \<Rightarrow> bool"
    and ok :: "'i \<Rightarrow> bool"
    and step :: "'i \<Rightarrow> 's \<Rightarrow> 's"
  assumes step_inv: "inv s \<Longrightarrow> ok i \<Longrightarrow> inv (step i s)"
begin

lemma run_inv: "inv s \<Longrightarrow> list_all ok is \<Longrightarrow> inv (fold step is s)"
  by (induction "is" arbitrary: s) (auto simp: step_inv)

end

section \<open>Simulation\<close>

locale simulation = machine inv ok step
  for inv :: "'s \<Rightarrow> bool" and ok :: "'i \<Rightarrow> bool" and step :: "'i \<Rightarrow> 's \<Rightarrow> 's" +
  fixes abs :: "'s \<Rightarrow> 'a"
    and astep :: "'i \<Rightarrow> 'a \<Rightarrow> 'a"
  assumes step_abs: "inv s \<Longrightarrow> ok i \<Longrightarrow> abs (step i s) = astep i (abs s)"
begin

lemma run_abs: "inv s \<Longrightarrow> list_all ok is \<Longrightarrow> abs (fold step is s) = fold astep is (abs s)"
  by (induction "is" arbitrary: s) (auto simp: step_inv step_abs)

end

section \<open>Steps that reject\<close>

text \<open>A step that answers \<open>None\<close> when it rejects. \<open>sift\<close> keeps going after a rejection and
  collects what was accepted and rejected; \<open>strict\<close> stops at the first one.\<close>

fun sift :: "('i \<Rightarrow> 's \<Rightarrow> 's option) \<Rightarrow> 'i list \<Rightarrow> 's \<Rightarrow> 'i list \<times> 'i list \<times> 's" where
  "sift attempt [] s = ([], [], s)"
| "sift attempt (i # is) s =
    (case attempt i s of
       Some s' \<Rightarrow> (let (v, w, t) = sift attempt is s' in (i # v, w, t))
     | None \<Rightarrow> (let (v, w, t) = sift attempt is s in (v, i # w, t)))"

fun strict :: "('i \<Rightarrow> 's \<Rightarrow> 's option) \<Rightarrow> 'i list \<Rightarrow> 's \<Rightarrow> 's option" where
  "strict attempt [] s = Some s"
| "strict attempt (i # is) s = (case attempt i s of Some s' \<Rightarrow> strict attempt is s' | None \<Rightarrow> None)"

lemma sift_strict: "sift attempt is s = (v, w, t) \<Longrightarrow> strict attempt v s = Some t"
  by (induction "is" arbitrary: s v w t) (auto split: option.splits prod.splits)

lemma strict_sift: "strict attempt is s = Some t \<Longrightarrow> sift attempt is s = (is, [], t)"
  by (induction "is" arbitrary: s) (auto split: option.splits)

lemma sift_mset: "sift attempt is s = (v, w, t) \<Longrightarrow> mset v + mset w = mset is"
  by (induction "is" arbitrary: s v w t) (auto split: option.splits prod.splits)

lemma sift_set: "sift attempt is s = (v, w, t) \<Longrightarrow> set v \<union> set w = set is"
  using sift_mset [of attempt "is" s v w t] by (metis set_mset_mset set_mset_union)

lemma sift_subseq: "sift attempt is s = (v, w, t) \<Longrightarrow> subseq v is \<and> subseq w is"
  by (induction "is" arbitrary: s v w t) (auto split: option.splits prod.splits)

lemma strict_append:
  "strict attempt (xs @ ys) s = (case strict attempt xs s of Some t \<Rightarrow> strict attempt ys t | None \<Rightarrow> None)"
  by (induction xs arbitrary: s) (auto split: option.splits)

locale filtering_run =
  fixes inv :: "'s \<Rightarrow> bool"
    and ok :: "'i \<Rightarrow> bool"
    and attempt :: "'i \<Rightarrow> 's \<Rightarrow> 's option"
  assumes try_inv: "inv s \<Longrightarrow> ok i \<Longrightarrow> attempt i s = Some s' \<Longrightarrow> inv s'"
begin

lemma strict_inv: "inv s \<Longrightarrow> list_all ok is \<Longrightarrow> strict attempt is s = Some t \<Longrightarrow> inv t"
  by (induction "is" arbitrary: s) (auto split: option.splits intro: try_inv)

lemma sift_inv: "inv s \<Longrightarrow> list_all ok is \<Longrightarrow> sift attempt is s = (v, w, t) \<Longrightarrow> inv t"
  using strict_inv [of s v t] sift_strict [of attempt "is" s v w t] sift_set [of attempt "is" s v w t]
  by (auto simp: list_all_iff)

end

locale conserving_run = filtering_run inv ok attempt
  for inv :: "'s \<Rightarrow> bool" and ok :: "'i \<Rightarrow> bool" and attempt :: "'i \<Rightarrow> 's \<Rightarrow> 's option" +
  fixes quantity :: "'s \<Rightarrow> 'q"
  assumes try_conserves: "inv s \<Longrightarrow> ok i \<Longrightarrow> attempt i s = Some s' \<Longrightarrow> quantity s' = quantity s"
begin

lemma strict_conserves:
  "inv s \<Longrightarrow> list_all ok is \<Longrightarrow> strict attempt is s = Some t \<Longrightarrow> quantity t = quantity s"
proof (induction "is" arbitrary: s)
  case (Cons i "is")
  then obtain s' where s': "attempt i s = Some s'" "strict attempt is s' = Some t"
    by (auto split: option.splits)
  with Cons have "quantity t = quantity s'" by (auto intro: try_inv)
  also have "\<dots> = quantity s" using s' Cons.prems by (auto intro: try_conserves)
  finally show ?case .
qed simp

lemma sift_conserves:
  "inv s \<Longrightarrow> list_all ok is \<Longrightarrow> sift attempt is s = (v, w, t) \<Longrightarrow> quantity t = quantity s"
  using strict_conserves [of s v t] sift_strict [of attempt "is" s v w t]
    sift_set [of attempt "is" s v w t]
  by (auto simp: list_all_iff)

end

end
