(* ===== verification/Account.thy ===== *)
theory Account
  imports Codec Machines
begin

text \<open>
  Accounts (\<open>crates/primitives/src/account.rs\<close>): the account key derived from a transaction
  public key, the nonce window, the account record and their fixed-size codecs. The nonce
  window is proved to implement the set of consumed nonces.
\<close>

section \<open>Account keys\<close>

text \<open>An \<open>AccountKey\<close> is its bytes; a value built by the code has \<open>account_key_size\<close> of them.\<close>

type_synonym account_key = bytes

definition ed25519_scheme :: u8 where
  "ed25519_scheme = 0"

definition secp256r1_scheme :: u8 where
  "secp256r1_scheme = 1"

definition public_key_size :: nat where
  "public_key_size = 1 + 33"

definition account_key_size :: nat where
  "account_key_size = 32"

definition account_key_from_public_key_bytes :: "(bytes \<Rightarrow> digest) \<Rightarrow> bytes \<Rightarrow> account_key option"
  where
  "account_key_from_public_key_bytes sha256 bs =
    (if length bs \<noteq> public_key_size then None
     else if hd bs = ed25519_scheme then Some (take account_key_size (drop 1 bs))
     else if hd bs = secp256r1_scheme then Some (sha256 bs)
     else None)"

definition account_key_from_bytes :: "bytes \<Rightarrow> account_key option" where
  "account_key_from_bytes bs = (if length bs \<noteq> account_key_size then None else Some bs)"

definition account_key_write :: "account_key \<Rightarrow> bytes" where
  "account_key_write k = k"

definition account_key_read :: "account_key reader" where
  "account_key_read bs =
    (if length bs < account_key_size then Err EndOfBuffer
     else Ok (take account_key_size bs, drop account_key_size bs))"

section \<open>Nonces\<close>

definition nonce_bitmap_capacity :: u64 where
  "nonce_bitmap_capacity = 64"

record nonce =
  base :: u64
  bitmap :: u64

definition nonce_new :: "u64 \<Rightarrow> u64 \<Rightarrow> nonce" where
  "nonce_new b m = \<lparr>base = b, bitmap = m\<rparr>"

definition nonce_default :: nonce where
  "nonce_default = \<lparr>base = 0, bitmap = 0\<rparr>"

text \<open>The loop of \<open>consume_current_nonce\<close>: \<open>advance\<close> grows while the bit below it is set.\<close>

function advance_loop :: "u64 \<Rightarrow> nat \<Rightarrow> nat" where
  "advance_loop m advance =
    (if advance \<le> 64 then
       (if m AND push_bit (advance - 1) 1 = 0 then advance else advance_loop m (advance + 1))
     else advance)"
  by pat_completeness auto

termination advance_loop
  by (relation "measure (\<lambda>(m, a). 65 - a)") auto

declare advance_loop.simps [simp del]

definition consume_current_nonce :: "u64 \<Rightarrow> u64 \<Rightarrow> nonce option" where
  "consume_current_nonce b m =
    (let advance = word_of_nat (advance_loop m 1) in
     case checked_add b advance of
       None \<Rightarrow> None
     | Some n \<Rightarrow>
         Some (nonce_new n
           (if nonce_bitmap_capacity \<le> advance then 0 else drop_bit (unat advance) m)))"

definition next_nonce_state :: "u64 \<Rightarrow> u64 \<Rightarrow> u64 \<Rightarrow> nonce option" where
  "next_nonce_state b m n =
    (case checked_add n 1 of
       None \<Rightarrow> None
     | Some next_used_nonce \<Rightarrow>
         if n < b then None
         else
           let delta = n - b in
           if delta = 0 then consume_current_nonce b m
           else if nonce_bitmap_capacity < delta then Some (nonce_new next_used_nonce 0)
           else
             let bit_mask = push_bit (unat (delta - 1)) 1 in
             if m AND bit_mask \<noteq> 0 then None
             else Some (nonce_new b (m OR bit_mask)))"

definition nonce_consume :: "u64 \<Rightarrow> nonce \<Rightarrow> bool \<times> nonce" where
  "nonce_consume n s =
    (case next_nonce_state (base s) (bitmap s) n of
       None \<Rightarrow> (False, s)
     | Some s' \<Rightarrow> (True, s'))"

definition nonce_size :: nat where
  "nonce_size = 8 + 8"

definition nonce_write :: "'x codec_scheme \<Rightarrow> nonce \<Rightarrow> bytes" where
  "nonce_write c s = write_u64 c (base s) @ write_u64 c (bitmap s)"

definition nonce_read :: "'x codec_scheme \<Rightarrow> nonce reader" where
  "nonce_read c bs =
    bind_res (read_u64 c bs) (\<lambda>(b, bs).
    bind_res (read_u64 c bs) (\<lambda>(m, bs). Ok (\<lparr>base = b, bitmap = m\<rparr>, bs)))"

section \<open>The account record\<close>

definition default_account_balance :: u64 where
  "default_account_balance = 100"

record account =
  balance :: u64
  acct_nonce :: nonce

definition account_default :: account where
  "account_default = \<lparr>balance = default_account_balance, acct_nonce = nonce_default\<rparr>"

definition account_size :: nat where
  "account_size = 8 + nonce_size"

definition account_write :: "'x codec_scheme \<Rightarrow> account \<Rightarrow> bytes" where
  "account_write c a = write_u64 c (balance a) @ nonce_write c (acct_nonce a)"

definition account_read :: "'x codec_scheme \<Rightarrow> account reader" where
  "account_read c bs =
    bind_res (read_u64 c bs) (\<lambda>(b, bs).
    bind_res (nonce_read c bs) (\<lambda>(n, bs). Ok (\<lparr>balance = b, acct_nonce = n\<rparr>, bs)))"

section \<open>The nonce window implements a set of consumed nonces\<close>

text \<open>
  \<open>nonce_consumed s\<close> holds of the nonces that are below the base or marked in the window.
  \<open>nonce_inv\<close> says that no bit stands for a nonce the code would refuse (\<open>u64::MAX\<close> and
  beyond); it is what keeps \<open>base + advance\<close> from overflowing.
\<close>

definition nonce_consumed :: "nonce \<Rightarrow> nat \<Rightarrow> bool" where
  "nonce_consumed s n \<longleftrightarrow>
    n < unat (base s) \<or>
    (unat (base s) < n \<and> n \<le> unat (base s) + 64 \<and> bit (bitmap s) (n - unat (base s) - 1))"

definition nonce_inv :: "nonce \<Rightarrow> bool" where
  "nonce_inv s \<longleftrightarrow>
    (\<forall>i < 64. bit (bitmap s) i \<longrightarrow> unat (base s) + 1 + i < 18446744073709551615)"

definition consumed_set :: "nonce \<Rightarrow> nat set" where
  "consumed_set s = {n. nonce_consumed s n}"

text \<open>The specification: a nonce is accepted once and never again, the largest value is
  refused, and one more than 64 above the first free nonce consumes everything up to it.\<close>

definition first_free :: "nat set \<Rightarrow> nat" where
  "first_free C = (LEAST n. n \<notin> C)"

definition spec_accepts :: "nat \<Rightarrow> nat set \<Rightarrow> bool" where
  "spec_accepts n C \<longleftrightarrow> n < 18446744073709551615 \<and> n \<notin> C"

definition spec_consume :: "nat \<Rightarrow> nat set \<Rightarrow> nat set" where
  "spec_consume n C =
    (if spec_accepts n C then (if first_free C + 64 < n then {..n} else insert n C) else C)"


lemma advance_loop_props:
  assumes "1 \<le> a" "a \<le> 65"
  shows "a \<le> advance_loop m a \<and> advance_loop m a \<le> 65 \<and>
    (\<forall>j. a - 1 \<le> j \<longrightarrow> j + 1 < advance_loop m a \<longrightarrow> bit m j) \<and>
    (advance_loop m a \<le> 64 \<longrightarrow> \<not> bit m (advance_loop m a - 1))"
  using assms
proof (induction m a rule: advance_loop.induct)
  case (1 m a)
  show ?case
  proof (cases "a \<le> 64 \<and> bit m (a - 1)")
    case True
    then have eq: "advance_loop m a = advance_loop m (a + 1)"
      using 1 by (subst advance_loop.simps) (simp add: and_exp_eq_0_iff_not_bit)
    have IH: "a + 1 \<le> advance_loop m (a + 1) \<and> advance_loop m (a + 1) \<le> 65 \<and>
        (\<forall>j. a \<le> j \<longrightarrow> j + 1 < advance_loop m (a + 1) \<longrightarrow> bit m j) \<and>
        (advance_loop m (a + 1) \<le> 64 \<longrightarrow> \<not> bit m (advance_loop m (a + 1) - 1))"
      using 1 True by (simp add: and_exp_eq_0_iff_not_bit)
    have "bit m j" if "a - 1 \<le> j" "j + 1 < advance_loop m a" for j
      using that IH True eq by (cases "j = a - 1") auto
    then show ?thesis using IH eq by auto
  next
    case False
    then have "advance_loop m a = a"
      using 1 by (subst advance_loop.simps) (auto simp: and_exp_eq_0_iff_not_bit)
    then show ?thesis using False 1 by auto
  qed
qed

lemma first_free_consumed: "first_free (consumed_set s) = unat (base s)"
  unfolding first_free_def consumed_set_def nonce_consumed_def
  by (rule Least_equality) auto

lemma bit_u64_less: "bit (m :: u64) i \<Longrightarrow> i < 64"
  using bit_imp_le_length [of m i] by simp

lemma consume_current_nonce_Some:
  assumes inv: "nonce_inv s" and max: "unat (base s) < 18446744073709551615"
  shows "\<exists>a s'. consume_current_nonce (base s) (bitmap s) = Some s' \<and>
    1 \<le> a \<and> a \<le> 65 \<and> (\<forall>j. j + 1 < a \<longrightarrow> bit (bitmap s) j) \<and>
    (a \<le> 64 \<longrightarrow> \<not> bit (bitmap s) (a - 1)) \<and>
    unat (base s') = unat (base s) + a \<and>
    (\<forall>i. bit (bitmap s') i \<longleftrightarrow> bit (bitmap s) (a + i))"
proof -
  obtain a where a: "advance_loop (bitmap s) 1 = a" "1 \<le> a" "a \<le> 65"
    "\<And>j. j + 1 < a \<Longrightarrow> bit (bitmap s) j" "a \<le> 64 \<Longrightarrow> \<not> bit (bitmap s) (a - 1)"
    using advance_loop_props [of 1 "bitmap s"] by auto
  have ua: "unat (word_of_nat a :: u64) = a" using a by (simp add: unat_of_nat)
  have "unat (base s) + a < 18446744073709551616"
  proof (cases "a = 1")
    case False
    then have "bit (bitmap s) (a - 2)" using a by simp
    then have "unat (base s) + 1 + (a - 2) < 18446744073709551615"
      using inv bit_u64_less unfolding nonce_inv_def by blast
    then show ?thesis using False a by linarith
  qed (use max in simp)
  then have ca: "checked_add (base s) (word_of_nat a) = Some (base s + word_of_nat a)"
    and ub: "unat (base s + word_of_nat a) = unat (base s) + a"
    using checked_add_unat [of "base s" "word_of_nat a" "base s + word_of_nat a"]
    by (simp_all add: checked_add_def ua)
  define m' where "m' = (if 64 \<le> a then 0 else drop_bit a (bitmap s))"
  have "nonce_bitmap_capacity \<le> word_of_nat a \<longleftrightarrow> 64 \<le> a"
    by (simp add: nonce_bitmap_capacity_def word_le_nat_alt ua)
  then have "consume_current_nonce (base s) (bitmap s) = Some (nonce_new (base s + word_of_nat a) m')"
    by (simp add: consume_current_nonce_def a(1) ca ua m'_def Let_def del: One_nat_def)
  moreover have "bit m' i \<longleftrightarrow> bit (bitmap s) (a + i)" for i
    using bit_u64_less [of "bitmap s" "a + i"] by (auto simp: m'_def bit_drop_bit_eq)
  ultimately show ?thesis
    using a(2-) ub by (intro exI [of _ a] exI [of _ "nonce_new (base s + word_of_nat a) m'"])
      (auto simp: nonce_new_def)
qed

lemma consume_current_consumed:
  assumes "1 \<le> a" "\<And>j. j + 1 < a \<Longrightarrow> bit (bitmap s) j"
    "a \<le> 64 \<Longrightarrow> \<not> bit (bitmap s) (a - 1)"
    "unat (base s') = unat (base s) + a" "\<And>i. bit (bitmap s') i \<longleftrightarrow> bit (bitmap s) (a + i)"
  shows "nonce_consumed s' x \<longleftrightarrow> nonce_consumed s x \<or> x = unat (base s)"
proof -
  consider "x \<le> unat (base s)" | "unat (base s) < x" "x < unat (base s) + a"
    | "x = unat (base s) + a" | "unat (base s) + a < x"
    by linarith
  then show ?thesis
  proof cases
    case 2
    then have "bit (bitmap s) (x - unat (base s) - 1)" using assms(1,2) by simp
    then show ?thesis using 2 assms(4) bit_u64_less
      by (fastforce simp: nonce_consumed_def)
  next
    case 4
    define k where "k = x - unat (base s) - a - 1"
    then have "x = unat (base s) + a + 1 + k" using 4 by linarith
    then show ?thesis using assms bit_u64_less [of "bitmap s" "a + k"]
      by (auto simp: nonce_consumed_def add.assoc)
  qed (use assms in \<open>auto simp: nonce_consumed_def\<close>)
qed

text \<open>Every branch of \<open>next_nonce_state\<close>, on a state that satisfies the invariant.\<close>

lemma next_nonce_state_reject:
  assumes "nonce_consumed s (unat n) \<or> unat n = 18446744073709551615"
  shows "next_nonce_state (base s) (bitmap s) n = None"
proof (cases "unat n = 18446744073709551615 \<or> n < base s")
  case True
  then show ?thesis by (auto simp: next_nonce_state_def checked_add_def split: option.splits)
next
  case False
  then have c: "unat (base s) < unat n" "unat n \<le> unat (base s) + 64"
    "bit (bitmap s) (unat n - unat (base s) - 1)"
    using assms by (auto simp: nonce_consumed_def word_less_nat_alt)
  then have d: "unat (n - base s) = unat n - unat (base s)"
    by (simp add: unat_sub word_le_nat_alt)
  then have "n - base s \<noteq> 0" using c by (metis diff_is_0_eq linorder_not_le unat_0)
  moreover from this have "unat (n - base s - 1) = unat n - unat (base s) - 1"
    using d by (simp add: unat_minus_one)
  moreover have "\<not> nonce_bitmap_capacity < n - base s"
    using c d by (simp add: nonce_bitmap_capacity_def word_less_nat_alt)
  ultimately show ?thesis using c
    by (simp add: next_nonce_state_def Let_def and_exp_eq_0_iff_not_bit split: option.splits)
qed

lemma next_nonce_state_future:
  assumes "unat (base s) < unat n" "unat n < 18446744073709551615" "\<not> nonce_consumed s (unat n)"
  shows "next_nonce_state (base s) (bitmap s) n =
    Some (if unat (base s) + 64 < unat n then nonce_new (n + 1) 0
          else nonce_new (base s) (bitmap s OR push_bit (unat n - unat (base s) - 1) 1))"
proof -
  have d: "unat (n - base s) = unat n - unat (base s)"
    using assms by (simp add: unat_sub word_le_nat_alt)
  then have nz: "n - base s \<noteq> 0" using assms by (metis diff_is_0_eq linorder_not_le unat_0)
  then have d1: "unat (n - base s - 1) = unat n - unat (base s) - 1"
    using d by (simp add: unat_minus_one)
  have cap: "nonce_bitmap_capacity < n - base s \<longleftrightarrow> unat (base s) + 64 < unat n"
    using assms d by (auto simp: nonce_bitmap_capacity_def word_less_nat_alt less_diff_conv)
  have "\<not> n < base s" "checked_add n 1 = Some (n + 1)"
    using assms by (simp_all add: word_less_nat_alt checked_add_def)
  moreover have "\<not> bit (bitmap s) (unat n - unat (base s) - 1)" if "unat n \<le> unat (base s) + 64"
    using assms that by (simp add: nonce_consumed_def)
  ultimately show ?thesis using nz d1 cap
    by (simp add: next_nonce_state_def Let_def and_exp_eq_0_iff_not_bit not_less)
qed

lemma next_nonce_state_base:
  "n < 18446744073709551615 \<Longrightarrow> unat (base s) = n \<Longrightarrow>
    next_nonce_state (base s) (bitmap s) (base s) = consume_current_nonce (base s) (bitmap s)"
  by (simp add: next_nonce_state_def checked_add_def)

lemma nonce_step_accept:
  assumes inv: "nonce_inv s" and acc: "\<not> nonce_consumed s (unat n)" "unat n < 18446744073709551615"
  obtains s' where "next_nonce_state (base s) (bitmap s) n = Some s'" "nonce_inv s'"
    "\<And>x. nonce_consumed s' x \<longleftrightarrow>
      (if unat (base s) + 64 < unat n then x \<le> unat n else nonce_consumed s x \<or> x = unat n)"
proof -
  from acc have "unat (base s) \<le> unat n" by (auto simp: nonce_consumed_def)
  then consider "n = base s" | "unat (base s) < unat n"
    by (metis le_neq_implies_less word_unat_eq_iff)
  then show thesis
  proof cases
    case 1
    have "unat (base s) < 18446744073709551615" using 1 acc(2) by simp
    from consume_current_nonce_Some [OF inv this]
    obtain a s' where s': "consume_current_nonce (base s) (bitmap s) = Some s'"
      and a: "1 \<le> a" "\<And>j. j + 1 < a \<Longrightarrow> bit (bitmap s) j"
        "a \<le> 64 \<Longrightarrow> \<not> bit (bitmap s) (a - 1)"
      and b: "unat (base s') = unat (base s) + a" "\<And>i. bit (bitmap s') i \<longleftrightarrow> bit (bitmap s) (a + i)"
      by blast
    have "nonce_inv s'"
      unfolding nonce_inv_def b
    proof (intro allI impI)
      fix i
      assume "bit (bitmap s) (a + i)"
      then have "unat (base s) + 1 + (a + i) < 18446744073709551615"
        using inv bit_u64_less unfolding nonce_inv_def by blast
      then show "unat (base s) + a + 1 + i < 18446744073709551615" by linarith
    qed
    moreover have "next_nonce_state (base s) (bitmap s) n = Some s'"
      using s' 1 acc(2) by (simp add: next_nonce_state_base)
    ultimately show thesis
      using that [of s'] consume_current_consumed [OF a b] 1 by simp
  next
    case 2
    define s' where "s' = (if unat (base s) + 64 < unat n then nonce_new (n + 1) 0
      else nonce_new (base s) (bitmap s OR push_bit (unat n - unat (base s) - 1) 1))"
    have u: "unat (n + 1) = unat n + 1"
      using acc checked_add_unat [of n 1 "n + 1"] by (simp add: checked_add_def)
    have "nonce_inv s'"
      using inv 2 acc unfolding s'_def nonce_inv_def nonce_new_def
      by (auto simp: bit_or_iff bit_exp_iff)
    moreover have "nonce_consumed s' x \<longleftrightarrow>
        (if unat (base s) + 64 < unat n then x \<le> unat n else nonce_consumed s x \<or> x = unat n)" for x
      using 2 unfolding s'_def nonce_consumed_def nonce_new_def
      by (auto simp: bit_or_iff bit_exp_iff u)
    ultimately show thesis
      using that [of s'] next_nonce_state_future [OF 2 acc(2,1)] by (simp add: s'_def)
  qed
qed

lemma nonce_inv_default [simp]: "nonce_inv nonce_default"
  by (simp add: nonce_inv_def nonce_default_def)

lemma nonce_consume_step:
  assumes "nonce_inv s"
  shows "fst (nonce_consume n s) = spec_accepts (unat n) (consumed_set s)"
    and "consumed_set (snd (nonce_consume n s)) = spec_consume (unat n) (consumed_set s)"
    and "nonce_inv (snd (nonce_consume n s))"
proof -
  have "fst (nonce_consume n s) = spec_accepts (unat n) (consumed_set s) \<and>
    consumed_set (snd (nonce_consume n s)) = spec_consume (unat n) (consumed_set s) \<and>
    nonce_inv (snd (nonce_consume n s))"
  proof (cases "spec_accepts (unat n) (consumed_set s)")
    case True
    then have "\<not> nonce_consumed s (unat n)" "unat n < 18446744073709551615"
      by (auto simp: spec_accepts_def consumed_set_def)
    with assms obtain s' where s': "next_nonce_state (base s) (bitmap s) n = Some s'" "nonce_inv s'"
      "\<And>x. nonce_consumed s' x \<longleftrightarrow>
        (if unat (base s) + 64 < unat n then x \<le> unat n else nonce_consumed s x \<or> x = unat n)"
      by (rule nonce_step_accept) blast
    then show ?thesis using True
      by (auto simp: nonce_consume_def spec_consume_def first_free_consumed)
        (auto simp: consumed_set_def split: if_splits)
  next
    case False
    then have "nonce_consumed s (unat n) \<or> unat n = 18446744073709551615"
      using u64_bound [of n] by (auto simp: spec_accepts_def consumed_set_def)
    from next_nonce_state_reject [OF this] show ?thesis
      using assms False by (simp add: nonce_consume_def spec_consume_def)
  qed
  then show "fst (nonce_consume n s) = spec_accepts (unat n) (consumed_set s)"
    and "consumed_set (snd (nonce_consume n s)) = spec_consume (unat n) (consumed_set s)"
    and "nonce_inv (snd (nonce_consume n s))"
    by blast+
qed

interpretation nonces: simulation nonce_inv "\<lambda>_. True" "\<lambda>n s. snd (nonce_consume n s)"
  consumed_set "\<lambda>n. spec_consume (unat n)"
  by unfold_locales (simp_all add: nonce_consume_step)

lemma consumed_set_bound: "n \<in> consumed_set s \<Longrightarrow> n \<le> unat (base s) + 64"
  by (auto simp: consumed_set_def nonce_consumed_def)

text \<open>What was consumed stays consumed, and an accepted nonce is consumed afterwards.\<close>

lemma nonce_consume_mono:
  assumes "nonce_inv s"
  shows "consumed_set s \<subseteq> consumed_set (snd (nonce_consume n s))"
  using consumed_set_bound [of _ s]
  by (fastforce simp: nonce_consume_step [OF assms] spec_consume_def first_free_consumed)

lemma nonce_consume_mem:
  "nonce_inv s \<Longrightarrow> fst (nonce_consume n s) \<Longrightarrow> unat n \<in> consumed_set (snd (nonce_consume n s))"
  by (simp add: nonce_consume_step spec_consume_def)

text \<open>The nonces a sequence of transactions uses, in order, and the ones \<open>consume\<close> accepts.\<close>

fun accepted_nonces :: "u64 list \<Rightarrow> nonce \<Rightarrow> u64 list" where
  "accepted_nonces [] s = []"
| "accepted_nonces (n # ns) s =
    (let (ok, s') = nonce_consume n s in
     if ok then n # accepted_nonces ns s' else accepted_nonces ns s')"

lemma accepted_fresh:
  "nonce_inv s \<Longrightarrow>
    distinct (accepted_nonces ns s) \<and> (\<forall>n \<in> set (accepted_nonces ns s). unat n \<notin> consumed_set s)"
proof (induction ns arbitrary: s)
  case (Cons n ns)
  let ?s = "snd (nonce_consume n s)"
  have IH: "distinct (accepted_nonces ns ?s)"
    "\<forall>n \<in> set (accepted_nonces ns ?s). unat n \<notin> consumed_set ?s"
    using Cons.IH [OF nonce_consume_step(3) [OF Cons.prems, of n]] by simp_all
  have "fst (nonce_consume n s) \<Longrightarrow> unat n \<notin> consumed_set s"
    using Cons.prems by (simp add: nonce_consume_step spec_accepts_def)
  then show ?case
    using IH nonce_consume_mono [OF Cons.prems, of n] nonce_consume_mem [OF Cons.prems, of n]
    by (auto simp: Let_def split: prod.splits)
qed simp

section \<open>Codecs\<close>

definition account_key_wf :: "account_key \<Rightarrow> bool" where
  "account_key_wf k \<longleftrightarrow> length k = account_key_size"

lemma account_key_canonical:
  "account_key_read bs = Ok (k, rest) \<Longrightarrow> account_key_wf k \<and> bs = account_key_write k @ rest"
  by (auto simp: account_key_read_def account_key_write_def account_key_wf_def split: if_splits)

lemma nonce_read_Ok:
  "codec_ok c \<Longrightarrow> nonce_read c bs = Ok (s, rest) \<Longrightarrow> bs = nonce_write c s @ rest"
  by (auto simp: nonce_read_def nonce_write_def bind_res_Ok_iff read_u64_Ok_iff split: prod.splits)

lemma account_read_Ok:
  "codec_ok c \<Longrightarrow> account_read c bs = Ok (a, rest) \<Longrightarrow> bs = account_write c a @ rest"
  by (auto simp: account_read_def account_write_def bind_res_Ok_iff read_u64_Ok_iff
      dest: nonce_read_Ok [rotated] split: prod.splits)

interpretation keys: fixed_codec "\<lambda>_::unit. True" "\<lambda>_. account_key_wf" "\<lambda>_. account_key_write"
  "\<lambda>_. account_key_read" account_key_size
  by unfold_locales (auto simp: account_key_read_def account_key_write_def account_key_wf_def)

interpretation keys: canonical_codec "\<lambda>_::unit. True" "\<lambda>_. account_key_wf" "\<lambda>_. account_key_write"
  "\<lambda>_. account_key_read"
  by unfold_locales (rule account_key_canonical)

lemma nonce_read_short: "codec_ok c \<Longrightarrow> length bs < nonce_size \<Longrightarrow> \<not> is_ok (nonce_read c bs)"
  by (cases "length bs < 8")
    (auto simp: nonce_read_def nonce_size_def read_u64_short read_u64_long)

interpretation nonce_codec: fixed_codec "codec_ok :: codec \<Rightarrow> bool" "\<lambda>_ _. True" nonce_write nonce_read
  nonce_size
  by unfold_locales (auto simp: nonce_write_def nonce_read_def nonce_size_def nonce_read_short
      nonce_read_short [unfolded nonce_size_def nonce_read_def])

lemma account_read_write: "codec_ok c \<Longrightarrow> account_read c (account_write c a @ rest) = Ok (a, rest)"
  by (simp add: account_read_def account_write_def nonce_read_def nonce_write_def)

lemma length_account_write: "codec_ok c \<Longrightarrow> length (account_write c a) = account_size"
  by (simp add: account_write_def nonce_write_def account_size_def nonce_size_def)

lemma account_read_short: "codec_ok c \<Longrightarrow> length bs < account_size \<Longrightarrow> \<not> is_ok (account_read c bs)"
proof -
  assume c: "codec_ok c" and l: "length bs < account_size"
  show ?thesis
  proof (cases "account_read c bs")
    case (Ok r)
    then obtain a rest where "bs = account_write c a @ rest"
      using account_read_Ok [OF c] by (metis surj_pair)
    then have "account_size \<le> length bs" using c by (simp add: length_account_write)
    then show ?thesis using l by simp
  qed simp
qed

interpretation accounts: fixed_codec "codec_ok :: codec \<Rightarrow> bool" "\<lambda>_ _. True" account_write account_read
  account_size
  by unfold_locales (auto simp: account_read_write length_account_write account_read_short)

interpretation accounts: canonical_codec "codec_ok :: codec \<Rightarrow> bool" "\<lambda>_ _. True" account_write
  account_read
  by unfold_locales (auto dest: account_read_Ok)

section \<open>Properties\<close>

lemma nonce_inv_small: "unat (base s) < 9223372036854775808 \<Longrightarrow> nonce_inv s"
  by (simp add: nonce_inv_def)

lemma consumed_set_default [simp]: "consumed_set nonce_default = {}"
  by (auto simp: consumed_set_def nonce_consumed_def nonce_default_def)

text \<open>C4: Starting from a fresh account, after any sequence of \<open>consume\<close> calls the window stands
  for exactly the set of consumed nonces of the specification, and the next call accepts a nonce
  exactly when the specification does: it is not \<open>u64::MAX\<close> and was not consumed.\<close>

theorem nonce_window_refines:
  "consumed_set (fold (\<lambda>n s. snd (nonce_consume n s)) ns nonce_default) =
     fold (\<lambda>n. spec_consume (unat n)) ns {} \<and>
   fst (nonce_consume n (fold (\<lambda>n s. snd (nonce_consume n s)) ns nonce_default)) =
     spec_accepts (unat n) (fold (\<lambda>n. spec_consume (unat n)) ns {})"
proof -
  have all: "list_all (\<lambda>_. True) ns" by (simp add: list_all_iff)
  show ?thesis
    using nonces.run_abs [OF nonce_inv_default all]
      nonce_consume_step(1) [OF nonces.run_inv [OF nonce_inv_default all]]
    by simp
qed

text \<open>No replay: among the nonces that a sequence of \<open>consume\<close> calls accepts none occurs
  twice, and none had been consumed before the sequence.\<close>

theorem nonce_no_replay:
  assumes "nonce_inv s"
  shows "distinct (accepted_nonces ns s) \<and>
    (\<forall>n \<in> set (accepted_nonces ns s). \<not> nonce_consumed s (unat n))"
  using accepted_fresh [OF assms, of ns] by (simp add: consumed_set_def)

lemmas nonce_eval =
  nonce_consume_def next_nonce_state_def checked_add_def nonce_bitmap_capacity_def nonce_new_def
  consume_current_nonce_def advance_loop.simps word_le_nat_alt word_less_nat_alt

theorem nonce_no_replay_witness:
  "distinct (accepted_nonces [7, 5, 6, 7, 200, 8] \<lparr>base = 5, bitmap = 4\<rparr>) \<and>
   accepted_nonces [7, 5, 6, 7, 200, 8] \<lparr>base = 5, bitmap = 4\<rparr> = [7, 5, 6, 200]"
proof -
  have "nonce_inv \<lparr>base = 5, bitmap = 4\<rparr>" by (rule nonce_inv_small) simp
  from nonce_no_replay [OF this, of "[7, 5, 6, 7, 200, 8]"]
  have "distinct (accepted_nonces [7, 5, 6, 7, 200, 8] \<lparr>base = 5, bitmap = 4\<rparr>)" ..
  then show ?thesis by (simp add: nonce_eval)
qed

text \<open>The account codec: reading undoes writing in front of any continuation, every account
  takes exactly \<open>account_size\<close> bytes, a truncated account is refused, and the reader accepts
  nothing that is not an encoding.\<close>

theorem account_codec:
  assumes "codec_ok (c :: codec)"
  shows "account_read c (account_write c a @ rest) = Ok (a, rest) \<and>
    length (account_write c a) = account_size \<and>
    (k < account_size \<longrightarrow> \<not> is_ok (account_read c (take k (account_write c a)))) \<and>
    (account_read c bs = Ok (a, rest) \<longrightarrow> bs = account_write c a @ rest)"
proof (intro conjI impI)
  show "account_read c (account_write c a @ rest) = Ok (a, rest)"
    "length (account_write c a) = account_size"
    using assms by (simp_all add: accounts.round_trip accounts.enc_size)
  show "\<not> is_ok (account_read c (take k (account_write c a)))" if "k < account_size"
    by (rule accounts.truncated_rejected) (simp_all add: assms that)
  show "bs = account_write c a @ rest" if "account_read c bs = Ok (a, rest)"
    using accounts.dec_canonical [OF assms that] by blast
qed

theorem account_codec_witness:
  "account_read be_codec (account_write be_codec account_default @ [7]) = Ok (account_default, [7]) \<and>
   account_write be_codec account_default =
     [0, 0, 0, 0, 0, 0, 0, 100, 0, 0, 0, 0, 0, 0, 0, 0, 0, 0, 0, 0, 0, 0, 0, 0]"
proof
  show "account_read be_codec (account_write be_codec account_default @ [7]) = Ok (account_default, [7])"
    using account_codec [OF codec_ok_be_codec, of account_default "[7]"] by (rule conjunct1)
  show "account_write be_codec account_default =
     [0, 0, 0, 0, 0, 0, 0, 100, 0, 0, 0, 0, 0, 0, 0, 0, 0, 0, 0, 0, 0, 0, 0, 0]"
    by (simp add: account_write_def nonce_write_def account_default_def nonce_default_def
        default_account_balance_def be_codec_def u64_to_be_def nat_to_be_numeral)
qed

end
