(* ===== verification/Auth.thy ===== *)
theory Auth
  imports Account
begin

text \<open>
  Transaction keys and signatures (\<open>crates/primitives/src/auth.rs\<close>): the two schemes, their
  wire format, the batch verifier and the WebAuthn assertion check. Curve arithmetic, SHA-256,
  JSON parsing and the parallel strategy come from crates outside the repository and are the
  fields that \<open>crypto\<close> adds to the codec environment; keys and signatures of those crates are
  represented by the bytes their \<open>as_ref\<close> returns.
\<close>

section \<open>The environment\<close>

record secp256r1_item =
  item_message :: bytes
  item_public_key :: bytes
  item_signature :: bytes
  item_authenticator_data :: bytes
  item_client_data_json :: bytes

type_synonym ed_item = "bytes \<times> bytes \<times> bytes \<times> bytes"

type_synonym 'i strategy_fold =
  "'i list \<Rightarrow> bool \<Rightarrow> (bool \<Rightarrow> 'i \<Rightarrow> bool) \<Rightarrow> (bool \<Rightarrow> bool \<Rightarrow> bool) \<Rightarrow> bool"

text \<open>
  \<open>ed_batch_add\<close> is the answer of \<open>ed25519::Batch::add\<close> on (namespace, message, key, signature)
  and \<open>ed_batch_verify\<close> that of \<open>verify\<close> with the given randomness on the items added;
  \<open>json_str\<close> is \<open>serde_json\<close>: \<open>None\<close> when the text does not parse, otherwise the string members
  of the object; \<open>p256_key\<close>, \<open>p256_sig\<close> and \<open>p256_verify\<close> are the parsers and the verification
  of \<open>p256\<close>; \<open>fold_items\<close> is \<open>Strategy::fold\<close> at the type it is used.
\<close>

record crypto = codec +
  ed_pk_read :: "bytes reader"
  r1_pk_read :: "bytes reader"
  ed_sig_read :: "bytes reader"
  r1_sig_read :: "bytes reader"
  sha256 :: "bytes \<Rightarrow> digest"
  ed_batch_add :: "ed_item \<Rightarrow> bool"
  ed_batch_verify :: "nat \<Rightarrow> ed_item list \<Rightarrow> bool"
  json_str :: "bytes \<Rightarrow> (string \<Rightarrow> string option) option"
  p256_key :: "bytes \<Rightarrow> bool"
  p256_sig :: "bytes \<Rightarrow> bool"
  p256_verify :: "bytes \<Rightarrow> bytes \<Rightarrow> bytes \<Rightarrow> bool"
  fold_items :: "secp256r1_item strategy_fold"

section \<open>Public keys\<close>

datatype tx_public_key =
    PkEd25519 (pk_key: bytes) (pk_encoded: bytes)
  | PkSecp256r1 (pk_key: bytes) (pk_encoded: bytes)

definition pk_ed25519 :: "bytes \<Rightarrow> tx_public_key" where
  "pk_ed25519 key =
    PkEd25519 key (ed25519_scheme # key @ replicate (public_key_size - (1 + 32)) 0)"

definition pk_secp256r1 :: "bytes \<Rightarrow> tx_public_key" where
  "pk_secp256r1 key = PkSecp256r1 key (secp256r1_scheme # key)"

definition pk_write :: "tx_public_key \<Rightarrow> bytes" where
  "pk_write pk = pk_encoded pk"

definition pk_read :: "'x crypto_scheme \<Rightarrow> tx_public_key reader" where
  "pk_read c bs =
    (if length bs < public_key_size then Err EndOfBuffer
     else
       let encoded = take public_key_size bs; rest = drop public_key_size bs in
       if hd encoded = ed25519_scheme then
         (if list_ex (\<lambda>b. b \<noteq> 0) (drop (1 + 32) encoded)
          then Err (Invalid ''TransactionPublicKey'' ''non-zero padding'')
          else bind_res (ed_pk_read c (take 32 (drop 1 encoded))) (\<lambda>(key, _).
            Ok (PkEd25519 key encoded, rest)))
       else if hd encoded = secp256r1_scheme then
         bind_res (r1_pk_read c (drop 1 encoded)) (\<lambda>(key, _).
           Ok (PkSecp256r1 key encoded, rest))
       else Err (Invalid ''TransactionPublicKey'' ''unknown scheme''))"

section \<open>Signatures\<close>

definition signature_bytes :: nat where
  "signature_bytes = 64"

definition webauthn_authenticator_data_bytes :: nat where
  "webauthn_authenticator_data_bytes = 256"

definition webauthn_client_data_json_bytes :: nat where
  "webauthn_client_data_json_bytes = 512"

definition signature_min_size :: nat where
  "signature_min_size = 1 + signature_bytes"

definition signature_max_size :: nat where
  "signature_max_size = 1 + signature_bytes + 2 + webauthn_authenticator_data_bytes
     + 2 + webauthn_client_data_json_bytes"

datatype tx_signature =
    SigEd25519 (sig_value: bytes) (sig_encoded: bytes)
  | SigSecp256r1 (sig_value: bytes) (authenticator_data: bytes) (client_data_json: bytes)
      (sig_encoded: bytes)

definition sig_ed25519 :: "bytes \<Rightarrow> tx_signature" where
  "sig_ed25519 sg = SigEd25519 sg (ed25519_scheme # sg)"

text \<open>The encoding that \<open>secp256r1\<close> and the reader build; the lengths are cast to \<open>u16\<close>.\<close>

definition webauthn_encoded :: "'x codec_scheme \<Rightarrow> bytes \<Rightarrow> bytes \<Rightarrow> bytes \<Rightarrow> bytes" where
  "webauthn_encoded c sg auth json =
    secp256r1_scheme # sg @ write_u16 c (word_of_nat (length auth)) @ auth
      @ write_u16 c (word_of_nat (length json)) @ json"

definition sig_secp256r1 ::
    "'x codec_scheme \<Rightarrow> bytes \<Rightarrow> bytes \<Rightarrow> bytes \<Rightarrow> (codec_error, tx_signature) result" where
  "sig_secp256r1 c sg auth json =
    (if webauthn_authenticator_data_bytes < length auth
     then Err (Invalid ''TransactionSignature'' ''authenticator data too large'')
     else if webauthn_client_data_json_bytes < length json
     then Err (Invalid ''TransactionSignature'' ''client data JSON too large'')
     else Ok (SigSecp256r1 sg auth json (webauthn_encoded c sg auth json)))"

definition sig_write :: "tx_signature \<Rightarrow> bytes" where
  "sig_write s = sig_encoded s"

definition sig_encode_size :: "tx_signature \<Rightarrow> nat" where
  "sig_encode_size s = length (sig_encoded s)"

definition sig_read :: "'x crypto_scheme \<Rightarrow> tx_signature reader" where
  "sig_read c bs =
    (if length bs < 1 + signature_bytes then Err EndOfBuffer
     else
       let scheme = hd bs; bs = tl bs in
       if scheme = ed25519_scheme then
         bind_res (ed_sig_read c bs) (\<lambda>(sg, bs). Ok (SigEd25519 sg (ed25519_scheme # sg), bs))
       else if scheme = secp256r1_scheme then
         bind_res (r1_sig_read c bs) (\<lambda>(sg, bs).
         bind_res (read_u16 c bs) (\<lambda>(auth_len, bs).
           if webauthn_authenticator_data_bytes < unat auth_len
           then Err (Invalid ''TransactionSignature'' ''authenticator data too large'')
           else if length bs < unat auth_len + 2 then Err EndOfBuffer
           else
             let auth = take (unat auth_len) bs; bs = drop (unat auth_len) bs in
             bind_res (read_u16 c bs) (\<lambda>(json_len, bs).
               if webauthn_client_data_json_bytes < unat json_len
               then Err (Invalid ''TransactionSignature'' ''client data JSON too large'')
               else if length bs < unat json_len then Err EndOfBuffer
               else
                 let json = take (unat json_len) bs; bs = drop (unat json_len) bs in
                 Ok (SigSecp256r1 sg auth json (webauthn_encoded c sg auth json), bs))))
       else Err (Invalid ''TransactionSignature'' ''unknown scheme''))"

section \<open>WebAuthn assertions\<close>

definition base64_alphabet :: string where
  "base64_alphabet = ''ABCDEFGHIJKLMNOPQRSTUVWXYZabcdefghijklmnopqrstuvwxyz0123456789-_''"

definition base64_char :: "u8 \<Rightarrow> char" where
  "base64_char w = base64_alphabet ! unat w"

fun base64_url_no_pad :: "bytes \<Rightarrow> string" where
  "base64_url_no_pad [] = []"
| "base64_url_no_pad [a] =
    [base64_char (drop_bit 2 a),
     base64_char (push_bit 4 (a AND 3) OR drop_bit 4 0)]"
| "base64_url_no_pad [a, b] =
    [base64_char (drop_bit 2 a),
     base64_char (push_bit 4 (a AND 3) OR drop_bit 4 b),
     base64_char (push_bit 2 (b AND 15) OR drop_bit 6 0)]"
| "base64_url_no_pad (a # b # d # bs) =
    [base64_char (drop_bit 2 a),
     base64_char (push_bit 4 (a AND 3) OR drop_bit 4 b),
     base64_char (push_bit 2 (b AND 15) OR drop_bit 6 d),
     base64_char (d AND 63)] @ base64_url_no_pad bs"

definition verify_raw_secp256r1 :: "'x crypto_scheme \<Rightarrow> bytes \<Rightarrow> bytes \<Rightarrow> bytes \<Rightarrow> bool" where
  "verify_raw_secp256r1 c key payload sg =
    (if \<not> p256_key c key then False
     else if \<not> p256_sig c sg then False
     else p256_verify c key payload sg)"

definition webauthn_user_verified_flag :: u8 where
  "webauthn_user_verified_flag = 4"

definition verify_webauthn_assertion ::
    "'x crypto_scheme \<Rightarrow> bytes \<Rightarrow> bytes \<Rightarrow> bytes \<Rightarrow> bytes \<Rightarrow> bytes \<Rightarrow> bool" where
  "verify_webauthn_assertion c key challenge sg auth json =
    (if length auth < 37 then False
     else if auth ! 32 AND webauthn_user_verified_flag = 0 then False
     else case json_str c json of
       None \<Rightarrow> False
     | Some client_data \<Rightarrow>
         if client_data ''type'' \<noteq> Some ''webauthn.get'' then False
         else if client_data ''challenge'' \<noteq> Some (base64_url_no_pad challenge) then False
         else verify_raw_secp256r1 c key (auth @ sha256 c json) sg)"

definition verify_secp256r1 :: "'x crypto_scheme \<Rightarrow> secp256r1_item list \<Rightarrow> bool" where
  "verify_secp256r1 c items =
    (if items = [] then True
     else fold_items c items True
       (\<lambda>valid item. valid \<and>
          verify_webauthn_assertion c (item_public_key item) (item_message item)
            (item_signature item) (item_authenticator_data item) (item_client_data_json item))
       (\<lambda>left right. left \<and> right))"

section \<open>Batch verification\<close>

record batch_verifier =
  bv_ed25519 :: "ed_item list"
  bv_secp256r1 :: "secp256r1_item list"

definition bv_new :: batch_verifier where
  "bv_new = \<lparr>bv_ed25519 = [], bv_secp256r1 = []\<rparr>"

definition bv_add ::
    "'x crypto_scheme \<Rightarrow> bytes \<Rightarrow> bytes \<Rightarrow> tx_public_key \<Rightarrow> tx_signature \<Rightarrow> batch_verifier
      \<Rightarrow> bool \<times> batch_verifier" where
  "bv_add c namespace message pk sg v =
    (case (pk, sg) of
       (PkEd25519 key _, SigEd25519 s _) \<Rightarrow>
         (ed_batch_add c (namespace, message, key, s),
          v\<lparr>bv_ed25519 := bv_ed25519 v @ [(namespace, message, key, s)]\<rparr>)
     | (PkSecp256r1 key _, SigSecp256r1 s auth json _) \<Rightarrow>
         (True,
          v\<lparr>bv_secp256r1 := bv_secp256r1 v @
             [\<lparr>item_message = message, item_public_key = key, item_signature = s,
               item_authenticator_data = auth, item_client_data_json = json\<rparr>]\<rparr>)
     | _ \<Rightarrow> (False, v))"

definition bv_verify :: "'x crypto_scheme \<Rightarrow> nat \<Rightarrow> batch_verifier \<Rightarrow> bool" where
  "bv_verify c rng v =
    (if \<not> ed_batch_verify c rng (bv_ed25519 v) then False
     else verify_secp256r1 c (bv_secp256r1 v))"

section \<open>What the environment promises\<close>

text \<open>A fixed-size value whose encoding is its bytes: reading takes exactly \<open>n\<close> bytes, returns
  them, and decides on those bytes alone.\<close>

definition fixed_read :: "nat \<Rightarrow> bytes reader \<Rightarrow> bool" where
  "fixed_read n rd \<longleftrightarrow>
    (\<forall>bs. (length bs < n \<longrightarrow> \<not> is_ok (rd bs)) \<and>
      (n \<le> length bs \<longrightarrow>
        rd bs = (if is_ok (rd (take n bs)) then Ok (take n bs, drop n bs) else rd (take n bs))))"

text \<open>\<open>Strategy::fold\<close> is a sequential fold when the combination is associative with the initial
  value as identity and the step combines with what it computes from one item.\<close>

definition strategy_fold_ok :: "'i strategy_fold \<Rightarrow> bool" where
  "strategy_fold_ok F \<longleftrightarrow>
    (\<forall>xs init step comb.
      (\<forall>a b d. comb (comb a b) d = comb a (comb b d)) \<longrightarrow>
      (\<forall>a. comb init a = a \<and> comb a init = a) \<longrightarrow>
      (\<forall>a x. step a x = comb a (step init x)) \<longrightarrow>
      F xs init step comb = foldl step init xs)"

definition ed_item_valid :: "'x crypto_scheme \<Rightarrow> ed_item \<Rightarrow> bool" where
  "ed_item_valid c i = ed_batch_verify c 0 [i]"

text \<open>Batch verification accepts exactly the batches all of whose items verify.\<close>

definition batch_law :: "'x crypto_scheme \<Rightarrow> bool" where
  "batch_law c \<longleftrightarrow> (\<forall>r is. ed_batch_verify c r is \<longleftrightarrow> list_all (ed_item_valid c) is)"

definition crypto_ok :: "'x crypto_scheme \<Rightarrow> bool" where
  "crypto_ok c \<longleftrightarrow>
    codec_ok c \<and> fixed_read 32 (ed_pk_read c) \<and> fixed_read 33 (r1_pk_read c) \<and>
    fixed_read 64 (ed_sig_read c) \<and> fixed_read 64 (r1_sig_read c) \<and>
    (\<forall>bs. length (sha256 c bs) = 32) \<and> batch_law c \<and> strategy_fold_ok (fold_items c)"

lemma fixed_read_short: "fixed_read n rd \<Longrightarrow> length bs < n \<Longrightarrow> \<not> is_ok (rd bs)"
  unfolding fixed_read_def by blast

lemma fixed_read_long:
  "fixed_read n rd \<Longrightarrow> n \<le> length bs \<Longrightarrow> is_ok (rd (take n bs)) \<Longrightarrow>
    rd bs = Ok (take n bs, drop n bs)"
  unfolding fixed_read_def by presburger

lemma fixed_read_bad:
  "fixed_read n rd \<Longrightarrow> n \<le> length bs \<Longrightarrow> \<not> is_ok (rd (take n bs)) \<Longrightarrow> \<not> is_ok (rd bs)"
  unfolding fixed_read_def by presburger

lemma fixed_read_Ok:
  assumes rd: "fixed_read n rd" and bs: "rd bs = Ok (k, rest)"
  shows "bs = k @ rest \<and> length k = n \<and> rd k = Ok (k, [])"
proof -
  have ok: "is_ok (rd bs)" using bs by simp
  then have l: "n \<le> length bs" using fixed_read_short [OF rd, of bs] by linarith
  have t: "is_ok (rd (take n bs))" using fixed_read_bad [OF rd l] ok by blast
  from fixed_read_long [OF rd l t] bs have k: "k = take n bs" "rest = drop n bs" by simp_all
  have "rd (take n bs) = Ok (take n (take n bs), drop n (take n bs))"
    by (rule fixed_read_long [OF rd]) (use l t in simp_all)
  then show ?thesis using k l by simp
qed

lemma fixed_read_append:
  assumes rd: "fixed_read n rd" and k: "rd k = Ok (k, [])"
  shows "rd (k @ rest) = Ok (k, rest) \<and> length k = n"
proof -
  have l: "length k = n" using fixed_read_Ok [OF rd k] by simp
  have "rd (k @ rest) = Ok (take n (k @ rest), drop n (k @ rest))"
    by (rule fixed_read_long [OF rd]) (use l k in simp_all)
  then show ?thesis using l by simp
qed

lemma crypto_codec [simp]: "crypto_ok c \<Longrightarrow> codec_ok c"
  by (simp add: crypto_ok_def)

lemma crypto_reads:
  assumes "crypto_ok c"
  shows "fixed_read 32 (ed_pk_read c)" "fixed_read 33 (r1_pk_read c)"
    "fixed_read 64 (ed_sig_read c)" "fixed_read 64 (r1_sig_read c)"
  using assms by (simp_all add: crypto_ok_def)

section \<open>Public-key codec\<close>

definition pk_wf :: "'x crypto_scheme \<Rightarrow> tx_public_key \<Rightarrow> bool" where
  "pk_wf c pk =
    (case pk of
       PkEd25519 k e \<Rightarrow> ed_pk_read c k = Ok (k, []) \<and> e = ed25519_scheme # k @ [0]
     | PkSecp256r1 k e \<Rightarrow> r1_pk_read c k = Ok (k, []) \<and> e = secp256r1_scheme # k)"

lemma schemes_distinct [simp]:
  "secp256r1_scheme \<noteq> ed25519_scheme" "ed25519_scheme \<noteq> secp256r1_scheme"
  by (simp_all add: secp256r1_scheme_def ed25519_scheme_def)

lemma pk_wf_constructors:
  "ed_pk_read c k = Ok (k, []) \<Longrightarrow> pk_wf c (pk_ed25519 k)"
  "r1_pk_read c k = Ok (k, []) \<Longrightarrow> pk_wf c (pk_secp256r1 k)"
  by (simp_all add: pk_wf_def pk_ed25519_def pk_secp256r1_def public_key_size_def)

lemma pk_wf_length:
  assumes "crypto_ok c"
  shows "pk_wf c (PkEd25519 k e) \<Longrightarrow> length k = 32" "pk_wf c (PkSecp256r1 k e) \<Longrightarrow> length k = 33"
  using fixed_read_append [OF crypto_reads(1) [OF assms]]
    fixed_read_append [OF crypto_reads(2) [OF assms]]
  by (auto simp: pk_wf_def)

lemma pk_read_write:
  assumes "crypto_ok c" "pk_wf c pk"
  shows "pk_read c (pk_write pk @ rest) = Ok (pk, rest)"
proof (cases pk)
  case (PkEd25519 k e)
  then have "length k = 32" using assms pk_wf_length by blast
  with assms show ?thesis
    by (simp add: PkEd25519 pk_wf_def pk_read_def pk_write_def public_key_size_def Let_def)
next
  case (PkSecp256r1 k e)
  then have "length k = 33" using assms pk_wf_length by blast
  with assms show ?thesis
    by (simp add: PkSecp256r1 pk_wf_def pk_read_def pk_write_def public_key_size_def Let_def)
qed

lemma length_pk_write:
  assumes "crypto_ok c" "pk_wf c pk"
  shows "length (pk_write pk) = public_key_size"
proof (cases pk)
  case (PkEd25519 k e)
  with assms show ?thesis
    using pk_wf_length(1) [of c k e] by (simp add: pk_wf_def pk_write_def public_key_size_def)
next
  case (PkSecp256r1 k e)
  with assms show ?thesis
    using pk_wf_length(2) [of c k e] by (simp add: pk_wf_def pk_write_def public_key_size_def)
qed

lemma pk_read_Ok:
  assumes "crypto_ok c" "pk_read c bs = Ok (pk, rest)"
  shows "pk_wf c pk \<and> bs = pk_write pk @ rest"
proof -
  define e where "e = take 34 bs"
  have l: "34 \<le> length bs" and rest: "rest = drop 34 bs"
    using assms(2) by (auto simp: pk_read_def public_key_size_def Let_def bind_res_Ok_iff
        split: if_splits)
  then have le: "length e = 34" and bs: "bs = e @ rest" by (simp_all add: e_def)
  then obtain h t where e: "e = h # t" "length t = 33" by (cases e) auto
  show ?thesis
  proof (cases "h = ed25519_scheme")
    case True
    then obtain k r where pad: "list_all (\<lambda>b. b = 0) (drop 32 t)"
      and k: "ed_pk_read c (take 32 t) = Ok (k, r)" "pk = PkEd25519 k e"
      using assms(2) l e
      by (auto simp: pk_read_def public_key_size_def Let_def bind_res_Ok_iff e_def [symmetric]
          list_ex_iff list_all_iff split: if_splits)
    from e have "length (drop 32 t) = 1" by simp
    with pad have "drop 32 t = [0]" by (cases "drop 32 t") simp_all
    have kr: "take 32 t = k @ r" "length k = 32" "ed_pk_read c k = Ok (k, [])"
      using fixed_read_Ok [OF crypto_reads(1) [OF assms(1)] k(1)] by auto
    moreover have "length (take 32 t) = 32" using e(2) by simp
    ultimately have "length r = 0" by (metis add_cancel_right_right length_append)
    then have "t = k @ [0]"
      using kr(1) \<open>drop 32 t = [0]\<close> append_take_drop_id [of 32 t] by auto
    then show ?thesis using True e(1) k(2) bs kr(3) by (simp add: pk_wf_def pk_write_def)
  next
    case False
    then obtain k r where k: "h = secp256r1_scheme" "r1_pk_read c t = Ok (k, r)" "pk = PkSecp256r1 k e"
      using assms(2) l e
      by (auto simp: pk_read_def public_key_size_def Let_def bind_res_Ok_iff e_def [symmetric]
          split: if_splits)
    have "t = k @ r" "length k = 33" "r1_pk_read c k = Ok (k, [])"
      using fixed_read_Ok [OF crypto_reads(2) [OF assms(1)] k(2)] by auto
    then show ?thesis using e k bs by (simp add: pk_wf_def pk_write_def)
  qed
qed

interpretation pks: fixed_codec "crypto_ok :: 'x crypto_scheme \<Rightarrow> bool" pk_wf "\<lambda>_. pk_write" pk_read
  public_key_size
proof unfold_locales
  show "\<not> is_ok (pk_read c bs)" if "length bs < public_key_size" for c :: "'x crypto_scheme" and bs
    using that by (simp add: pk_read_def)
qed (simp_all add: pk_read_write length_pk_write)

interpretation pks: canonical_codec "crypto_ok :: 'x crypto_scheme \<Rightarrow> bool" pk_wf "\<lambda>_. pk_write"
  pk_read
  by unfold_locales (rule pk_read_Ok)

section \<open>Signature codec\<close>

definition sig_wf :: "'x crypto_scheme \<Rightarrow> tx_signature \<Rightarrow> bool" where
  "sig_wf c s =
    (case s of
       SigEd25519 v e \<Rightarrow> ed_sig_read c v = Ok (v, []) \<and> e = ed25519_scheme # v
     | SigSecp256r1 v a j e \<Rightarrow>
         r1_sig_read c v = Ok (v, []) \<and> length a \<le> webauthn_authenticator_data_bytes \<and>
         length j \<le> webauthn_client_data_json_bytes \<and> e = webauthn_encoded c v a j)"

lemma sig_wf_constructors:
  "ed_sig_read c v = Ok (v, []) \<Longrightarrow> sig_wf c (sig_ed25519 v)"
  "r1_sig_read c v = Ok (v, []) \<Longrightarrow> sig_secp256r1 c v a j = Ok s \<Longrightarrow> sig_wf c s"
  by (auto simp: sig_wf_def sig_ed25519_def sig_secp256r1_def split: if_splits)

lemma unat_u16: "n < 65536 \<Longrightarrow> unat (word_of_nat n :: u16) = n"
  by (simp add: unat_of_nat)

lemma sig_read_write:
  assumes "crypto_ok c" "sig_wf c s"
  shows "sig_read c (sig_write s @ rest) = Ok (s, rest)"
proof (cases s)
  case (SigEd25519 v e)
  then have v: "ed_sig_read c v = Ok (v, [])" "e = ed25519_scheme # v"
    using assms(2) by (simp_all add: sig_wf_def)
  from fixed_read_append [OF crypto_reads(3) [OF assms(1)] v(1)]
  show ?thesis by (simp add: SigEd25519 v(2) sig_read_def sig_write_def signature_bytes_def)
next
  case (SigSecp256r1 v a j e)
  then have v: "r1_sig_read c v = Ok (v, [])" "e = webauthn_encoded c v a j"
    and la: "length a \<le> 256" and lj: "length j \<le> 512"
    using assms(2) by (simp_all add: sig_wf_def webauthn_authenticator_data_bytes_def
        webauthn_client_data_json_bytes_def)
  have u: "unat (word_of_nat (length a) :: u16) = length a"
    "unat (word_of_nat (length j) :: u16) = length j"
    by (rule unat_u16, use la lj in simp)+
  have sg: "r1_sig_read c (v @ r) = Ok (v, r)" "length v = 64" for r
    using fixed_read_append [OF crypto_reads(4) [OF assms(1)] v(1)] by blast+
  show ?thesis using la lj assms(1)
    by (simp add: SigSecp256r1 v(2) sig_read_def sig_write_def webauthn_encoded_def
        signature_bytes_def sg u webauthn_authenticator_data_bytes_def
        webauthn_client_data_json_bytes_def)
qed

lemma sig_size_bounds:
  assumes "crypto_ok c" "sig_wf c s"
  shows "signature_min_size \<le> length (sig_write s) \<and> length (sig_write s) \<le> signature_max_size"
proof (cases s)
  case (SigEd25519 v e)
  then show ?thesis
    using assms fixed_read_append [OF crypto_reads(3) [OF assms(1)], of v]
    by (simp add: sig_wf_def sig_write_def signature_min_size_def signature_max_size_def
        signature_bytes_def)
next
  case (SigSecp256r1 v a j e)
  then show ?thesis
    using assms fixed_read_append [OF crypto_reads(4) [OF assms(1)], of v]
    by (simp add: sig_wf_def sig_write_def signature_min_size_def signature_max_size_def
        signature_bytes_def webauthn_encoded_def)
qed

lemma read_u16_Ok:
  assumes "codec_ok c" "read_u16 c bs = Ok (n, rest)"
  shows "bs = write_u16 c n @ rest"
proof -
  have n: "2 \<le> length bs" "n = u16_from_be (take 2 bs)" "rest = drop 2 bs"
    using assms by (auto simp: codec_ok_def u16_law_def split: if_splits)
  have l: "length (take 2 bs) = 2" using n by simp
  with be_to_nat_less [of "take 2 bs"] have "be_to_nat (take 2 bs) < 65536" by simp
  then have "u16_to_be (u16_from_be (take 2 bs)) = nat_to_be 2 (be_to_nat (take 2 bs))"
    by (simp add: u16_to_be_def u16_from_be_def unat_of_nat)
  also have "\<dots> = take 2 bs" using nat_to_be_be_to_nat [of "take 2 bs"] l by simp
  finally show ?thesis using assms(1) n by (simp add: write_u16_eq)
qed

lemma sig_read_Ok:
  assumes c: "crypto_ok c" and r: "sig_read c bs = Ok (s, rest)"
  shows "sig_wf c s \<and> bs = sig_write s @ rest"
proof -
  obtain h t where bs: "bs = h # t"
    using r by (cases bs) (auto simp: sig_read_def)
  consider "h = ed25519_scheme" | "h = secp256r1_scheme"
    using r by (auto simp: bs sig_read_def split: if_splits)
  then show ?thesis
  proof cases
    case 1
    with r obtain v where v: "ed_sig_read c t = Ok (v, rest)" "s = SigEd25519 v (ed25519_scheme # v)"
      by (auto simp: bs sig_read_def bind_res_Ok_iff split: if_splits)
    with fixed_read_Ok [OF crypto_reads(3) [OF c] v(1)] 1 bs show ?thesis
      by (simp add: sig_wf_def sig_write_def)
  next
    case 2
    with r obtain v b1 al b2 jl b3 where v: "r1_sig_read c t = Ok (v, b1)"
      and al: "read_u16 c b1 = Ok (al, b2)" "unat al \<le> 256" "unat al \<le> length b2"
      and jl: "read_u16 c (drop (unat al) b2) = Ok (jl, b3)" "unat jl \<le> 512" "unat jl \<le> length b3"
      and s: "rest = drop (unat jl) b3"
        "s = SigSecp256r1 v (take (unat al) b2) (take (unat jl) b3)
          (webauthn_encoded c v (take (unat al) b2) (take (unat jl) b3))"
      by (auto simp: bs sig_read_def bind_res_Ok_iff Let_def webauthn_authenticator_data_bytes_def
          webauthn_client_data_json_bytes_def split: if_splits)
    note sg = fixed_read_Ok [OF crypto_reads(4) [OF c] v]
    have "b2 = take (unat al) b2 @ write_u16 c jl @ take (unat jl) b3 @ rest"
      using read_u16_Ok [OF crypto_codec [OF c] jl(1)] s(1) append_take_drop_id [of "unat al" b2]
      by simp
    then have "t = v @ write_u16 c al @ take (unat al) b2 @ write_u16 c jl @ take (unat jl) b3 @ rest"
      using sg read_u16_Ok [OF crypto_codec [OF c] al(1)] by simp
    then show ?thesis using sg al jl s 2 bs
      by (simp add: sig_wf_def sig_write_def webauthn_encoded_def
          webauthn_authenticator_data_bytes_def webauthn_client_data_json_bytes_def min_absorb2)
  qed
qed

interpretation sigs: canonical_codec "crypto_ok :: 'x crypto_scheme \<Rightarrow> bool" sig_wf "\<lambda>_. sig_write"
  sig_read
  by unfold_locales (simp_all add: sig_read_write sig_read_Ok)

section \<open>The challenge encoding is injective\<close>

lemma and_masks: "a AND 3 = take_bit 2 a" "a AND 15 = take_bit 4 a" "a AND 63 = take_bit 6 a" for a :: u8
  by (simp_all add: take_bit_eq_mask mask_eq_exp_minus_1)

lemma base64_first:
  "push_bit 2 (drop_bit 2 a) OR drop_bit 4 (push_bit 4 (a AND 3) OR drop_bit 4 b) = a" for a b :: u8
proof (rule bit_eqI)
  fix n
  assume n: "possible_bit TYPE(u8) n"
  show "bit (push_bit 2 (drop_bit 2 a) OR drop_bit 4 (push_bit 4 (a AND 3) OR drop_bit 4 b)) n = bit a n"
  proof (cases "2 \<le> n")
    case True
    then obtain k where "n = 2 + k" using le_Suc_ex by blast
    then show ?thesis using n bit_imp_le_length [of b "8 + n"]
      by (auto simp: and_masks bit_simps)
  next
    case False
    then show ?thesis using n bit_imp_le_length [of b "8 + n"]
      by (auto simp: and_masks bit_simps)
  qed
qed

lemma base64_second:
  "push_bit 4 (push_bit 4 (a AND 3) OR drop_bit 4 b) OR drop_bit 2 (push_bit 2 (b AND 15) OR drop_bit 6 d) = b"
  for a b d :: u8
proof (rule bit_eqI)
  fix n
  assume n: "possible_bit TYPE(u8) n"
  show "bit (push_bit 4 (push_bit 4 (a AND 3) OR drop_bit 4 b) OR
      drop_bit 2 (push_bit 2 (b AND 15) OR drop_bit 6 d)) n = bit b n"
  proof (cases "4 \<le> n")
    case True
    then obtain k where "n = 4 + k" using le_Suc_ex by blast
    then show ?thesis using n bit_imp_le_length [of d "8 + n"]
      by (auto simp: and_masks bit_simps)
  next
    case False
    then show ?thesis using n bit_imp_le_length [of d "8 + n"]
      by (auto simp: and_masks bit_simps)
  qed
qed

lemma base64_third: "push_bit 6 (push_bit 2 (b AND 15) OR drop_bit 6 d) OR (d AND 63) = d"
  for b d :: u8
proof (rule bit_eqI)
  fix n
  assume n: "possible_bit TYPE(u8) n"
  show "bit (push_bit 6 (push_bit 2 (b AND 15) OR drop_bit 6 d) OR (d AND 63)) n = bit d n"
  proof (cases "6 \<le> n")
    case True
    then obtain k where "n = 6 + k" using le_Suc_ex by blast
    then show ?thesis using n by (auto simp: and_masks bit_simps)
  next
    case False
    then show ?thesis using n by (auto simp: and_masks bit_simps)
  qed
qed

lemma unat_sextet: "(\<And>n. bit w n \<Longrightarrow> n < 6) \<Longrightarrow> unat w < 64" for w :: u8
proof -
  assume "\<And>n. bit w n \<Longrightarrow> n < 6"
  then have "take_bit 6 w = w" by (intro bit_eqI) (auto simp: bit_simps)
  then have "unat w = take_bit 6 (unat w)" by (metis unsigned_take_bit_eq)
  also have "\<dots> < 2 ^ 6" by (rule take_bit_nat_less_exp)
  finally show ?thesis by simp
qed

lemma base64_sextets:
  "unat (drop_bit 2 a) < 64" "unat (push_bit 4 (a AND 3) OR drop_bit 4 b) < 64"
  "unat (push_bit 2 (b AND 15) OR drop_bit 6 d) < 64" "unat (d AND 63) < 64" for a b d :: u8
proof -
  have "bit (drop_bit 2 a) n \<Longrightarrow> n < 6" for n
    using bit_imp_le_length [of a "2 + n"] by (simp add: bit_simps)
  moreover have "bit (push_bit 4 (a AND 3) OR drop_bit 4 b) n \<Longrightarrow> n < 6" for n
    using bit_imp_le_length [of b "4 + n"] by (auto simp: bit_simps and_masks)
  moreover have "bit (push_bit 2 (b AND 15) OR drop_bit 6 d) n \<Longrightarrow> n < 6" for n
    using bit_imp_le_length [of d "6 + n"] by (auto simp: bit_simps and_masks)
  moreover have "bit (d AND 63) n \<Longrightarrow> n < 6" for n
    by (simp add: bit_simps and_masks)
  ultimately show "unat (drop_bit 2 a) < 64" "unat (push_bit 4 (a AND 3) OR drop_bit 4 b) < 64"
    "unat (push_bit 2 (b AND 15) OR drop_bit 6 d) < 64" "unat (d AND 63) < 64"
    by (auto intro: unat_sextet)
qed

lemma base64_alphabet_facts: "distinct base64_alphabet" "length base64_alphabet = 64"
  by (simp_all add: base64_alphabet_def)

lemma base64_char_inj:
  "unat v < 64 \<Longrightarrow> unat w < 64 \<Longrightarrow> base64_char v = base64_char w \<longleftrightarrow> v = w"
  unfolding base64_char_def
  by (simp add: nth_eq_iff_index_eq base64_alphabet_facts word_unat_eq_iff)

lemma base64_quantum:
  "base64_char (drop_bit 2 a) = base64_char (drop_bit 2 a') \<and>
   base64_char (push_bit 4 (a AND 3) OR drop_bit 4 b) =
     base64_char (push_bit 4 (a' AND 3) OR drop_bit 4 b') \<Longrightarrow> a = a'"
  "base64_char (push_bit 4 (a AND 3) OR drop_bit 4 b) =
     base64_char (push_bit 4 (a' AND 3) OR drop_bit 4 b') \<and>
   base64_char (push_bit 2 (b AND 15) OR drop_bit 6 d) =
     base64_char (push_bit 2 (b' AND 15) OR drop_bit 6 d') \<Longrightarrow> b = b'"
  "base64_char (push_bit 2 (b AND 15) OR drop_bit 6 d) =
     base64_char (push_bit 2 (b' AND 15) OR drop_bit 6 d') \<and>
   base64_char (d AND 63) = base64_char (d' AND 63) \<Longrightarrow> d = d'"
  by (metis base64_char_inj base64_sextets base64_first,
      metis base64_char_inj base64_sextets base64_second,
      metis base64_char_inj base64_sextets base64_third)

lemma base64_inj: "base64_url_no_pad xs = base64_url_no_pad ys \<Longrightarrow> xs = ys"
proof (induction xs arbitrary: ys rule: base64_url_no_pad.induct)
  case 1
  then show ?case by (cases ys rule: base64_url_no_pad.cases) auto
next
  case (2 a)
  then obtain a' where "ys = [a']" by (cases ys rule: base64_url_no_pad.cases) auto
  with 2 base64_quantum(1) [of a a' 0 0] show ?case by simp
next
  case (3 a b)
  then obtain a' b' where "ys = [a', b']" by (cases ys rule: base64_url_no_pad.cases) auto
  with 3 base64_quantum(1) [of a a' b b'] base64_quantum(2) [of a b a' b' 0 0] show ?case by simp
next
  case (4 a b d xs)
  then obtain a' b' d' ys' where ys: "ys = a' # b' # d' # ys'"
    by (cases ys rule: base64_url_no_pad.cases) auto
  with 4 have "xs = ys'" by simp
  with 4 ys base64_quantum(1) [of a a' b b'] base64_quantum(2) [of a b a' b' d d']
    base64_quantum(3) [of b d b' d'] show ?case by simp
qed

section \<open>Verification, one signature at a time\<close>

definition r1_item_valid :: "'x crypto_scheme \<Rightarrow> secp256r1_item \<Rightarrow> bool" where
  "r1_item_valid c item =
    verify_webauthn_assertion c (item_public_key item) (item_message item) (item_signature item)
      (item_authenticator_data item) (item_client_data_json item)"

text \<open>The specification of the batch verifier: what one signature has to satisfy.\<close>

definition signature_valid ::
    "'x crypto_scheme \<Rightarrow> bytes \<Rightarrow> bytes \<Rightarrow> tx_public_key \<Rightarrow> tx_signature \<Rightarrow> bool" where
  "signature_valid c namespace message pk sg =
    (case (pk, sg) of
       (PkEd25519 key _, SigEd25519 s _) \<Rightarrow>
         ed_batch_add c (namespace, message, key, s) \<and> ed_item_valid c (namespace, message, key, s)
     | (PkSecp256r1 key _, SigSecp256r1 s auth json _) \<Rightarrow>
         verify_webauthn_assertion c key message s auth json
     | _ \<Rightarrow> False)"

lemma foldl_conj: "foldl (\<lambda>a x. a \<and> p x) b xs \<longleftrightarrow> b \<and> list_all p xs"
  by (induction xs arbitrary: b) auto

lemma strategy_fold_conj:
  assumes "strategy_fold_ok F"
  shows "F xs True (\<lambda>a x. a \<and> p x) (\<lambda>a b. a \<and> b) \<longleftrightarrow> list_all p xs"
proof -
  have "F xs True (\<lambda>a x. a \<and> p x) (\<lambda>a b. a \<and> b) = foldl (\<lambda>a x. a \<and> p x) True xs"
    using assms [unfolded strategy_fold_ok_def, rule_format,
        of "\<lambda>a b. a \<and> b" True "\<lambda>a x. a \<and> p x" xs] by simp
  then show ?thesis by (simp add: foldl_conj)
qed

lemma verify_secp256r1_iff:
  "crypto_ok c \<Longrightarrow> verify_secp256r1 c items \<longleftrightarrow> list_all (r1_item_valid c) items"
  by (simp add: verify_secp256r1_def r1_item_valid_def [abs_def] crypto_ok_def
      strategy_fold_conj [where F = "fold_items c"])

lemma bv_verify_iff:
  "crypto_ok c \<Longrightarrow> bv_verify c rng v \<longleftrightarrow>
    list_all (ed_item_valid c) (bv_ed25519 v) \<and> list_all (r1_item_valid c) (bv_secp256r1 v)"
  by (simp add: bv_verify_def verify_secp256r1_iff crypto_ok_def batch_law_def)

text \<open>Adding one signature and verifying is verifying the rest and that signature.\<close>

lemma bv_add_verify:
  assumes "crypto_ok c"
  shows "(fst (bv_add c ns m pk sg v) \<and> bv_verify c rng (snd (bv_add c ns m pk sg v))) \<longleftrightarrow>
    bv_verify c rng v \<and> signature_valid c ns m pk sg"
  using assms
  by (cases pk; cases sg)
    (auto simp: bv_add_def signature_valid_def bv_verify_iff r1_item_valid_def)

definition account_key_from_public_key :: "'x crypto_scheme \<Rightarrow> tx_public_key \<Rightarrow> account_key option"
  where
  "account_key_from_public_key c pk = account_key_from_public_key_bytes (sha256 c) (pk_encoded pk)"

lemma account_key_of_wf:
  assumes "crypto_ok c" "pk_wf c pk"
  shows "account_key_from_public_key c pk =
    Some (case pk of PkEd25519 k e \<Rightarrow> k | PkSecp256r1 k e \<Rightarrow> sha256 c e)"
proof (cases pk)
  case (PkEd25519 k e)
  with assms have "length k = 32" using pk_wf_length by blast
  with assms show ?thesis
    by (simp add: PkEd25519 pk_wf_def account_key_from_public_key_def
        account_key_from_public_key_bytes_def public_key_size_def account_key_size_def)
next
  case (PkSecp256r1 k e)
  with assms have "length k = 33" using pk_wf_length by blast
  with assms show ?thesis
    by (simp add: PkSecp256r1 pk_wf_def account_key_from_public_key_def
        account_key_from_public_key_bytes_def public_key_size_def)
qed

section \<open>An environment that satisfies the laws\<close>

text \<open>Keys and signatures are any bytes of the right length; a signature of the first scheme
  verifies when it starts with the key; a JSON text is its own challenge.\<close>

definition demo_crypto :: crypto where
  "demo_crypto =
    \<lparr>write_u16 = write_u16 be_codec, read_u16 = read_u16 be_codec,
     write_u64 = write_u64 be_codec, read_u64 = read_u64 be_codec,
     write_len = write_len be_codec, read_len = read_len be_codec,
     ed_pk_read = take_bytes 32, r1_pk_read = take_bytes 33,
     ed_sig_read = take_bytes 64, r1_sig_read = take_bytes 64,
     sha256 = (\<lambda>bs. take 32 (bs @ replicate 32 0)),
     ed_batch_add = (\<lambda>_. True),
     ed_batch_verify = (\<lambda>_. list_all (\<lambda>(ns, m, k, s). take 32 s = k)),
     json_str = (\<lambda>bs. Some (\<lambda>k. if k = ''type'' then Some ''webauthn.get''
        else if k = ''challenge'' then Some (map (\<lambda>b. char_of (unat b)) bs) else None)),
     p256_key = (\<lambda>_. True), p256_sig = (\<lambda>_. True), p256_verify = (\<lambda>_ _ _. True),
     fold_items = (\<lambda>xs init step comb. foldl step init xs)\<rparr>"

lemma fixed_read_take_bytes: "fixed_read n (take_bytes n)"
  by (simp add: fixed_read_def take_bytes_def)

lemma codec_ok_update:
  assumes "codec_ok c" "write_u16 d = write_u16 c" "read_u16 d = read_u16 c"
    "write_u64 d = write_u64 c" "read_u64 d = read_u64 c"
    "write_len d = write_len c" "read_len d = read_len c"
  shows "codec_ok d"
  using assms(1) unfolding codec_ok_def u16_law_def u64_law_def len_law_def assms(2-7) .

lemma demo_fields [simp]:
  "ed_pk_read demo_crypto = take_bytes 32" "r1_pk_read demo_crypto = take_bytes 33"
  "ed_sig_read demo_crypto = take_bytes 64" "r1_sig_read demo_crypto = take_bytes 64"
  "fold_items demo_crypto = (\<lambda>xs init step comb. foldl step init xs)"
  "ed_batch_verify demo_crypto = (\<lambda>_. list_all (\<lambda>(ns, m, k, s). take 32 s = k))"
  "length (sha256 demo_crypto bs) = 32"
  by (simp_all add: demo_crypto_def)

lemma crypto_ok_demo [simp]: "crypto_ok demo_crypto"
proof -
  have "codec_ok demo_crypto"
    by (rule codec_ok_update [OF codec_ok_be_codec]) (simp_all add: demo_crypto_def)
  moreover have "batch_law demo_crypto"
    unfolding batch_law_def ed_item_valid_def by (simp add: list_all_iff)
  moreover have "strategy_fold_ok (fold_items demo_crypto)"
    by (simp add: strategy_fold_ok_def)
  ultimately show ?thesis
    by (simp add: crypto_ok_def fixed_read_take_bytes)
qed

section \<open>Properties\<close>

text \<open>The public-key codec: a key of either scheme is read back in front of any
  continuation and takes \<open>public_key_size\<close> bytes; whatever the reader accepts is such a key
  and the bytes are its only encoding, so a non-zero padding byte or an unknown scheme is
  refused.\<close>

theorem public_key_codec:
  assumes "crypto_ok c"
  shows "(pk_wf c pk \<longrightarrow> pk_read c (pk_write pk @ rest) = Ok (pk, rest) \<and>
      length (pk_write pk) = public_key_size) \<and>
    (pk_read c bs = Ok (pk, rest) \<longrightarrow> pk_wf c pk \<and> bs = pk_write pk @ rest)"
  using pks.round_trip [OF assms] pks.enc_size [OF assms] pks.dec_canonical [OF assms] by blast

lemma demo_pk_wf: "length k = 32 \<Longrightarrow> pk_wf demo_crypto (pk_ed25519 k)"
  by (rule pk_wf_constructors) (simp add: take_bytes_def)

theorem public_key_codec_witness:
  "pk_read demo_crypto (pk_write (pk_ed25519 (replicate 32 9)) @ [5])
    = Ok (pk_ed25519 (replicate 32 9), [5])"
  using public_key_codec [OF crypto_ok_demo, of "pk_ed25519 (replicate 32 9)" "[5]"]
    demo_pk_wf [of "replicate 32 9"] by simp

text \<open>The signature codec: every signature is read back in front of any continuation, its
  encoding is between the minimum and the maximum size the transaction format reserves, and
  the reader accepts nothing but encodings, with authenticator data and client data within
  their limits.\<close>

theorem signature_codec:
  assumes "crypto_ok c"
  shows "(sig_wf c s \<longrightarrow> sig_read c (sig_write s @ rest) = Ok (s, rest) \<and>
      signature_min_size \<le> sig_encode_size s \<and> sig_encode_size s \<le> signature_max_size) \<and>
    (sig_read c bs = Ok (s, rest) \<longrightarrow> sig_wf c s \<and> bs = sig_write s @ rest)"
proof (intro conjI impI)
  show "sig_read c (sig_write s @ rest) = Ok (s, rest)" if "sig_wf c s"
    by (rule sigs.round_trip [OF assms that])
  show "signature_min_size \<le> sig_encode_size s" "sig_encode_size s \<le> signature_max_size"
    if "sig_wf c s"
    using sig_size_bounds [OF assms that] by (simp_all add: sig_encode_size_def sig_write_def)
  show "sig_wf c s" "bs = sig_write s @ rest" if "sig_read c bs = Ok (s, rest)"
    using sigs.dec_canonical [OF assms that] by simp_all
qed

theorem signature_codec_witness:
  "sig_read demo_crypto (sig_write (sig_ed25519 (replicate 64 3)) @ [1, 2])
    = Ok (sig_ed25519 (replicate 64 3), [1, 2])"
proof -
  have "sig_wf demo_crypto (sig_ed25519 (replicate 64 3))"
    by (rule sig_wf_constructors) (simp add: take_bytes_def)
  with signature_codec [OF crypto_ok_demo, of "sig_ed25519 (replicate 64 3)" "[1, 2]"]
  show ?thesis by simp
qed

text \<open>Deriving an account key from a decoded public key never fails, so the \<open>expect\<close> of
  \<open>from_public_key\<close> does not panic, and gives a key of \<open>account_key_size\<close> bytes; for Ed25519
  it is the public key itself, so distinct keys have distinct accounts.\<close>

theorem account_key_total:
  assumes "crypto_ok c" "pk_wf c pk"
  shows "\<exists>k. account_key_from_public_key c pk = Some k \<and> account_key_wf k \<and>
    (\<forall>key e. pk = PkEd25519 key e \<longrightarrow> k = key)"
proof (cases pk)
  case (PkEd25519 k e)
  with assms show ?thesis
    using account_key_of_wf [OF assms] pk_wf_length(1) [OF assms(1), of k e]
    by (simp add: account_key_wf_def account_key_size_def)
next
  case (PkSecp256r1 k e)
  with assms show ?thesis
    using account_key_of_wf [OF assms]
    by (simp add: account_key_wf_def account_key_size_def crypto_ok_def)
qed

theorem account_key_total_witness:
  "\<exists>k. account_key_from_public_key demo_crypto (pk_ed25519 (replicate 32 9)) = Some k \<and>
    account_key_wf k"
  using account_key_total [OF crypto_ok_demo demo_pk_wf [of "replicate 32 9"]] by auto



end
