(* ===== verification/Transaction.thy ===== *)
theory Transaction
  imports Auth
begin

text \<open>
  Transactions (\<open>crates/primitives/src/sealed.rs\<close>, \<open>transaction.rs\<close>, \<open>signed.rs\<close>): sealed values,
  the transfer, the signed transaction, the lazily decoded transaction of a block body, and the
  functions that decode and verify whole bodies.
\<close>

section \<open>Sealed values\<close>

record 'a sealed =
  sealed_inner :: 'a
  seal :: digest

definition sealed_new_unchecked :: "'a \<Rightarrow> digest \<Rightarrow> 'a sealed" where
  "sealed_new_unchecked x d = \<lparr>sealed_inner = x, seal = d\<rparr>"

definition sealed_write :: "('a \<Rightarrow> bytes) \<Rightarrow> 'a sealed \<Rightarrow> bytes" where
  "sealed_write wr s = wr (sealed_inner s)"

definition sealed_encode_size :: "('a \<Rightarrow> nat) \<Rightarrow> 'a sealed \<Rightarrow> nat" where
  "sealed_encode_size sz s = sz (sealed_inner s)"

text \<open>\<open>Sealed::read_cfg\<close>: the inner value is read and its seal recomputed; \<open>sealer\<close> is the
  type's \<open>Sealable::seal\<close>.\<close>

definition sealed_read :: "'a reader \<Rightarrow> ('a \<Rightarrow> 'a sealed) \<Rightarrow> 'a sealed reader" where
  "sealed_read rd sealer bs = bind_res (rd bs) (\<lambda>(x, bs). Ok (sealer x, bs))"

section \<open>Signed values\<close>

text \<open>The signature is held lazily, that is as its encoded bytes.\<close>

record 'a signed =
  signed_inner :: "'a sealed"
  signed_signature :: bytes

definition signed_new :: "(bytes \<Rightarrow> bytes \<Rightarrow> bytes) \<Rightarrow> bytes \<Rightarrow> 'a sealed \<Rightarrow> 'a signed" where
  "signed_new sign namespace inner =
    \<lparr>signed_inner = inner, signed_signature = sign namespace (seal inner)\<rparr>"

definition signed_verify ::
    "(bytes \<Rightarrow> bytes option) \<Rightarrow> (bytes \<Rightarrow> bytes \<Rightarrow> bytes \<Rightarrow> bool) \<Rightarrow> bytes \<Rightarrow> 'a signed \<Rightarrow> bool" where
  "signed_verify get_sig pk_verify namespace s =
    (case get_sig (signed_signature s) of
       None \<Rightarrow> False
     | Some sg \<Rightarrow> pk_verify namespace (seal (signed_inner s)) sg)"

definition signed_write :: "('a \<Rightarrow> bytes) \<Rightarrow> 'a signed \<Rightarrow> bytes" where
  "signed_write wr s = sealed_write wr (signed_inner s) @ signed_signature s"

definition signed_read ::
    "'a reader \<Rightarrow> ('a \<Rightarrow> 'a sealed) \<Rightarrow> bytes reader \<Rightarrow> 'a signed reader" where
  "signed_read rd sealer lazy_sig bs =
    bind_res (sealed_read rd sealer bs) (\<lambda>(inner, bs).
    bind_res (lazy_sig bs) (\<lambda>(sg, bs).
      Ok (\<lparr>signed_inner = inner, signed_signature = sg\<rparr>, bs)))"

section \<open>Transactions\<close>

text \<open>\<open>sender\<close> is a \<open>Lazy\<close> public key, held as its encoded bytes; \<open>value\<close> is a \<open>NonZeroU64\<close>.\<close>

record transaction =
  tx_sender :: bytes
  tx_to :: account_key
  tx_value :: u64
  tx_nonce :: u64

record signed_transaction =
  st_inner :: "transaction sealed"
  st_signature :: tx_signature

text \<open>A lazy transaction: the bytes it was read from, and the cell that caches the outcome of
  decoding them.\<close>

record lazy_transaction =
  pending :: "bytes option"
  cached :: "signed_transaction option option"

text \<open>
  The environment grows by the commonware \<open>Lazy\<close> wrapper at the type of the sender, by the
  hasher \<open>H\<close>, by \<open>Decode::decode\<close> (which runs a reader on a whole buffer) and by the parallel
  strategy at the types it is used.
\<close>

record tx_env = crypto +
  lazy_pk_read :: "bytes reader"
  lazy_pk_get :: "tx_public_key reader \<Rightarrow> bytes \<Rightarrow> tx_public_key option"
  hash :: "bytes \<Rightarrow> digest"
  decode_signed :: "signed_transaction reader \<Rightarrow> bytes \<Rightarrow> (codec_error, signed_transaction) result"
  parallelism_hint :: nat
  map_collect_vec :: "(lazy_transaction \<Rightarrow> signed_transaction option) \<Rightarrow> lazy_transaction list
    \<Rightarrow> signed_transaction option list"
  fold_lazy :: "lazy_transaction strategy_fold"

definition transaction_size :: nat where
  "transaction_size = public_key_size + account_key_size + 8 + 8"

definition transaction_new ::
    "'x tx_env_scheme \<Rightarrow> tx_public_key \<Rightarrow> tx_public_key \<Rightarrow> u64 \<Rightarrow> u64 \<Rightarrow> transaction option" where
  "transaction_new c sender to value nonce =
    (case account_key_from_public_key c to of
       None \<Rightarrow> None
     | Some k \<Rightarrow>
         Some \<lparr>tx_sender = pk_write sender, tx_to = k, tx_value = value, tx_nonce = nonce\<rparr>)"

definition transaction_sender :: "'x tx_env_scheme \<Rightarrow> transaction \<Rightarrow> tx_public_key option" where
  "transaction_sender c t = lazy_pk_get c (pk_read c) (tx_sender t)"

definition transaction_write :: "'x codec_scheme \<Rightarrow> transaction \<Rightarrow> bytes" where
  "transaction_write c t =
    tx_sender t @ account_key_write (tx_to t) @ write_u64 c (tx_value t) @ write_u64 c (tx_nonce t)"

definition transaction_read :: "'x tx_env_scheme \<Rightarrow> transaction reader" where
  "transaction_read c bs =
    bind_res (lazy_pk_read c bs) (\<lambda>(sender, bs).
    bind_res (account_key_read bs) (\<lambda>(to, bs).
    bind_res (read_u64 c bs) (\<lambda>(value, bs).
      if value = 0 then Err (Invalid ''Transaction'' ''value must be non-zero'')
      else bind_res (read_u64 c bs) (\<lambda>(nonce, bs).
        Ok (\<lparr>tx_sender = sender, tx_to = to, tx_value = value, tx_nonce = nonce\<rparr>, bs)))))"

definition transaction_hash_slow :: "'x tx_env_scheme \<Rightarrow> transaction \<Rightarrow> digest" where
  "transaction_hash_slow c t = hash c (transaction_write c t)"

definition transaction_seal :: "'x tx_env_scheme \<Rightarrow> transaction \<Rightarrow> transaction sealed" where
  "transaction_seal c t = sealed_new_unchecked t (transaction_hash_slow c t)"

definition signed_transaction_new_unchecked ::
    "transaction sealed \<Rightarrow> tx_signature \<Rightarrow> signed_transaction" where
  "signed_transaction_new_unchecked inner sg = \<lparr>st_inner = inner, st_signature = sg\<rparr>"

definition transaction_seal_and_sign ::
    "'x tx_env_scheme \<Rightarrow> (bytes \<Rightarrow> bytes \<Rightarrow> bytes) \<Rightarrow> bytes \<Rightarrow> transaction \<Rightarrow> signed_transaction" where
  "transaction_seal_and_sign c sign namespace t =
    (let sealed = transaction_seal c t;
         sg = sig_ed25519 (sign namespace (seal sealed))
     in signed_transaction_new_unchecked sealed sg)"

abbreviation st_value :: "signed_transaction \<Rightarrow> transaction" where
  "st_value t \<equiv> sealed_inner (st_inner t)"

definition message_digest :: "signed_transaction \<Rightarrow> digest" where
  "message_digest t = seal (st_inner t)"

definition signed_transaction_write :: "'x codec_scheme \<Rightarrow> signed_transaction \<Rightarrow> bytes" where
  "signed_transaction_write c t =
    sealed_write (transaction_write c) (st_inner t) @ sig_write (st_signature t)"

definition signed_transaction_encode_size :: "signed_transaction \<Rightarrow> nat" where
  "signed_transaction_encode_size t =
    sealed_encode_size (\<lambda>_. transaction_size) (st_inner t) + sig_encode_size (st_signature t)"

definition signed_transaction_read :: "'x tx_env_scheme \<Rightarrow> signed_transaction reader" where
  "signed_transaction_read c bs =
    bind_res (sealed_read (transaction_read c) (transaction_seal c) bs) (\<lambda>(inner, bs).
    bind_res (sig_read c bs) (\<lambda>(sg, bs). Ok (\<lparr>st_inner = inner, st_signature = sg\<rparr>, bs)))"

section \<open>Lazy transactions\<close>

definition lazy_max_encoded_size :: nat where
  "lazy_max_encoded_size = transaction_size + signature_max_size"

definition lazy_new :: "signed_transaction \<Rightarrow> lazy_transaction" where
  "lazy_new t = \<lparr>pending = None, cached = Some (Some t)\<rparr>"

definition lazy_deferred :: "bytes \<Rightarrow> lazy_transaction" where
  "lazy_deferred bs = \<lparr>pending = Some bs, cached = None\<rparr>"

text \<open>\<open>get\<close> answers from the cell and otherwise decodes the pending bytes. The code panics when
  there are neither; the model answers \<open>None\<close> there, and \<open>lazy_wf\<close> below excludes it for every
  value the constructors build.\<close>

definition lazy_get :: "'x tx_env_scheme \<Rightarrow> lazy_transaction \<Rightarrow> signed_transaction option" where
  "lazy_get c lz =
    (case cached lz of
       Some v \<Rightarrow> v
     | None \<Rightarrow>
         (case pending lz of
            None \<Rightarrow> None
          | Some bs \<Rightarrow>
              (case decode_signed c (signed_transaction_read c) bs of Ok t \<Rightarrow> Some t | Err _ \<Rightarrow> None)))"

text \<open>The transaction after \<open>get\<close> has filled its cell.\<close>

definition lazy_force :: "'x tx_env_scheme \<Rightarrow> lazy_transaction \<Rightarrow> lazy_transaction" where
  "lazy_force c lz = lz\<lparr>cached := Some (lazy_get c lz)\<rparr>"

definition encoded_signed_transaction :: "'x tx_env_scheme \<Rightarrow> lazy_transaction \<Rightarrow> bytes option" where
  "encoded_signed_transaction c lz =
    (case pending lz of
       Some bs \<Rightarrow> Some bs
     | None \<Rightarrow> map_option (signed_transaction_write c) (lazy_get c lz))"

definition lazy_read :: "'x codec_scheme \<Rightarrow> lazy_transaction reader" where
  "lazy_read c bs =
    bind_res (read_len c 0 lazy_max_encoded_size bs) (\<lambda>(len, bs).
      if len < transaction_size + signature_min_size then Err EndOfBuffer
      else if length bs < len then Err EndOfBuffer
      else Ok (lazy_deferred (take len bs), drop len bs))"

definition lazy_write :: "'x tx_env_scheme \<Rightarrow> lazy_transaction \<Rightarrow> bytes option" where
  "lazy_write c lz =
    (case pending lz of
       Some bs \<Rightarrow> Some (write_len c (length bs) @ bs)
     | None \<Rightarrow>
         map_option (\<lambda>t. write_len c (signed_transaction_encode_size t) @ signed_transaction_write c t)
           (lazy_get c lz))"

definition lazy_encode_size :: "'x tx_env_scheme \<Rightarrow> lazy_transaction \<Rightarrow> nat option" where
  "lazy_encode_size c lz =
    (case pending lz of
       Some bs \<Rightarrow> Some (length (write_len c (length bs)) + length bs)
     | None \<Rightarrow>
         map_option (\<lambda>t. length (write_len c (signed_transaction_encode_size t))
             + signed_transaction_encode_size t)
           (lazy_get c lz))"

definition lazy_eq :: "'x tx_env_scheme \<Rightarrow> lazy_transaction \<Rightarrow> lazy_transaction \<Rightarrow> bool" where
  "lazy_eq c a b \<longleftrightarrow> lazy_get c a = lazy_get c b"

section \<open>Whole bodies\<close>

definition materialize_transaction_chunks ::
    "'x tx_env_scheme \<Rightarrow> lazy_transaction list \<Rightarrow> signed_transaction list option" where
  "materialize_transaction_chunks c txs =
    (if txs = [] then Some []
     else if parallelism_hint c \<le> 1 \<or> length txs \<le> parallelism_hint c
     then collect_opt (map (lazy_get c) txs)
     else collect_opt (map_collect_vec c (lazy_get c) txs))"

definition signature_inputs_decode :: "'x tx_env_scheme \<Rightarrow> lazy_transaction \<Rightarrow> bool" where
  "signature_inputs_decode c lz =
    (case lazy_get c lz of
       None \<Rightarrow> False
     | Some t \<Rightarrow> transaction_sender c (st_value t) \<noteq> None)"

text \<open>The transactions are returned with their cells filled.\<close>

definition preload_transaction_chunks ::
    "'x tx_env_scheme \<Rightarrow> lazy_transaction list \<Rightarrow> lazy_transaction list option" where
  "preload_transaction_chunks c txs =
    (if txs = [] then Some []
     else if parallelism_hint c \<le> 1 \<or> length txs \<le> parallelism_hint c
     then (if list_all (signature_inputs_decode c) txs then Some (map (lazy_force c) txs) else None)
     else if fold_lazy c txs True (\<lambda>decoded lz. decoded \<and> signature_inputs_decode c lz)
         (\<lambda>left right. left \<and> right)
     then Some (map (lazy_force c) txs) else None)"

fun verify_batch_loop ::
    "'x tx_env_scheme \<Rightarrow> bytes \<Rightarrow> batch_verifier \<Rightarrow> lazy_transaction list \<Rightarrow> batch_verifier option" where
  "verify_batch_loop c namespace verifier [] = Some verifier"
| "verify_batch_loop c namespace verifier (lz # lzs) =
    (case lazy_get c lz of
       None \<Rightarrow> None
     | Some t \<Rightarrow>
         (case transaction_sender c (st_value t) of
            None \<Rightarrow> None
          | Some sender \<Rightarrow>
              (case bv_add c namespace (message_digest t) sender (st_signature t) verifier of
                 (added, verifier) \<Rightarrow>
                   if \<not> added then None else verify_batch_loop c namespace verifier lzs)))"

definition verify_transaction_batch ::
    "'x tx_env_scheme \<Rightarrow> bytes \<Rightarrow> nat \<Rightarrow> lazy_transaction list \<Rightarrow> bool" where
  "verify_transaction_batch c namespace rng txs =
    (case verify_batch_loop c namespace bv_new txs of
       None \<Rightarrow> False
     | Some verifier \<Rightarrow> bv_verify c rng verifier)"

definition verify_transaction_chunks ::
    "'x tx_env_scheme \<Rightarrow> bytes \<Rightarrow> nat \<Rightarrow> lazy_transaction list \<Rightarrow> signed_transaction list option" where
  "verify_transaction_chunks c namespace rng txs =
    (if txs = [] then Some []
     else case preload_transaction_chunks c txs of
       None \<Rightarrow> None
     | Some txs \<Rightarrow>
         if \<not> verify_transaction_batch c namespace rng txs then None
         else collect_opt (map (lazy_get c) txs))"

section \<open>What the environment promises\<close>

definition tx_env_ok :: "'x tx_env_scheme \<Rightarrow> bool" where
  "tx_env_ok c \<longleftrightarrow>
    crypto_ok c \<and>
    (\<forall>bs. (length bs < public_key_size \<longrightarrow> \<not> is_ok (lazy_pk_read c bs)) \<and>
      (public_key_size \<le> length bs \<longrightarrow>
        lazy_pk_read c bs = Ok (take public_key_size bs, drop public_key_size bs))) \<and>
    (\<forall>rd bs pk. lazy_pk_get c rd bs = Some pk \<longleftrightarrow> rd bs = Ok (pk, [])) \<and>
    (\<forall>rd bs t. decode_signed c rd bs = Ok t \<longleftrightarrow> rd bs = Ok (t, [])) \<and>
    (\<forall>f xs. map_collect_vec c f xs = map f xs) \<and>
    strategy_fold_ok (fold_lazy c)"

lemma tx_env_crypto [simp]: "tx_env_ok c \<Longrightarrow> crypto_ok c"
  by (simp add: tx_env_ok_def)

lemma lazy_pk_read_Ok:
  assumes "tx_env_ok c"
  shows "lazy_pk_read c bs = Ok (k, rest) \<longleftrightarrow> bs = k @ rest \<and> length k = public_key_size"
proof (cases "length bs < public_key_size")
  case True
  then have "\<not> is_ok (lazy_pk_read c bs)" using assms unfolding tx_env_ok_def by blast
  with True show ?thesis by auto
next
  case False
  then have "lazy_pk_read c bs = Ok (take public_key_size bs, drop public_key_size bs)"
    using assms unfolding tx_env_ok_def by (meson linorder_not_le)
  with False show ?thesis by auto
qed

section \<open>Transaction codecs\<close>

definition transaction_wf :: "transaction \<Rightarrow> bool" where
  "transaction_wf t \<longleftrightarrow>
    length (tx_sender t) = public_key_size \<and> account_key_wf (tx_to t) \<and> tx_value t \<noteq> 0"

definition signed_transaction_wf :: "'x tx_env_scheme \<Rightarrow> signed_transaction \<Rightarrow> bool" where
  "signed_transaction_wf c t \<longleftrightarrow>
    transaction_wf (st_value t) \<and> message_digest t = transaction_hash_slow c (st_value t) \<and>
    sig_wf c (st_signature t)"

lemma account_key_read_Ok:
  "account_key_read bs = Ok (k, rest) \<longleftrightarrow> account_key_wf k \<and> bs = account_key_write k @ rest"
  by (auto simp: account_key_read_def account_key_wf_def account_key_write_def)

lemma transaction_read_Ok:
  assumes "tx_env_ok c"
  shows "transaction_read c bs = Ok (t, rest) \<longleftrightarrow> transaction_wf t \<and> bs = transaction_write c t @ rest"
proof
  assume "transaction_read c bs = Ok (t, rest)"
  then show "transaction_wf t \<and> bs = transaction_write c t @ rest"
    using assms by (auto simp: transaction_read_def transaction_write_def transaction_wf_def
        bind_res_Ok_iff lazy_pk_read_Ok account_key_read_Ok read_u64_Ok_iff split: if_splits)
next
  assume t: "transaction_wf t \<and> bs = transaction_write c t @ rest"
  have "lazy_pk_read c (tx_sender t @ r) = Ok (tx_sender t, r)"
    "account_key_read (account_key_write (tx_to t) @ r) = Ok (tx_to t, r)" for r
    using t by (simp_all add: lazy_pk_read_Ok [OF assms] account_key_read_Ok transaction_wf_def)
  then show "transaction_read c bs = Ok (t, rest)"
    using t assms by (simp add: transaction_read_def transaction_write_def transaction_wf_def)
qed

lemma transaction_write_length:
  "tx_env_ok c \<Longrightarrow> transaction_wf t \<Longrightarrow> length (transaction_write c t) = transaction_size"
  by (simp add: transaction_write_def transaction_wf_def transaction_size_def account_key_wf_def
      account_key_write_def)

lemma transaction_read_short:
  assumes "tx_env_ok c" "length bs < transaction_size"
  shows "\<not> is_ok (transaction_read c bs)"
proof (cases "transaction_read c bs")
  case (Ok r)
  obtain t rest where "r = (t, rest)" by (cases r)
  with Ok have "transaction_wf t" "bs = transaction_write c t @ rest"
    using transaction_read_Ok [OF assms(1)] by auto
  then show ?thesis using transaction_write_length [OF assms(1)] assms(2) by simp
qed simp

interpretation txs: fixed_codec "tx_env_ok :: 'x tx_env_scheme \<Rightarrow> bool" "\<lambda>_. transaction_wf"
  transaction_write transaction_read transaction_size
  by unfold_locales
    (simp_all add: transaction_read_Ok transaction_write_length transaction_read_short)

interpretation txs: canonical_codec "tx_env_ok :: 'x tx_env_scheme \<Rightarrow> bool" "\<lambda>_. transaction_wf"
  transaction_write transaction_read
  by unfold_locales (simp add: transaction_read_Ok)

lemma sig_read_Ok_iff:
  "crypto_ok c \<Longrightarrow> sig_read c bs = Ok (s, rest) \<longleftrightarrow> sig_wf c s \<and> bs = sig_write s @ rest"
  using sig_read_Ok sig_read_write by blast

lemma signed_transaction_read_Ok:
  assumes "tx_env_ok c"
  shows "signed_transaction_read c bs = Ok (t, rest) \<longleftrightarrow>
    signed_transaction_wf c t \<and> bs = signed_transaction_write c t @ rest"
proof -
  obtain inner sg where t: "t = \<lparr>st_inner = inner, st_signature = sg\<rparr>" by (cases t)
  obtain x d where i: "inner = \<lparr>sealed_inner = x, seal = d\<rparr>" by (cases inner)
  show ?thesis
    using assms
    by (auto simp: t i signed_transaction_read_def signed_transaction_write_def sealed_read_def
        sealed_write_def signed_transaction_wf_def message_digest_def transaction_seal_def
        sealed_new_unchecked_def bind_res_Ok_iff transaction_read_Ok sig_read_Ok_iff)
qed

interpretation signed_txs: canonical_codec "tx_env_ok :: 'x tx_env_scheme \<Rightarrow> bool"
  signed_transaction_wf signed_transaction_write signed_transaction_read
  by unfold_locales (simp_all add: signed_transaction_read_Ok)

lemma signed_transaction_size:
  assumes "tx_env_ok c" "signed_transaction_wf c t"
  shows "length (signed_transaction_write c t) = signed_transaction_encode_size t"
    "transaction_size + signature_min_size \<le> signed_transaction_encode_size t"
    "signed_transaction_encode_size t \<le> lazy_max_encoded_size"
  using assms sig_size_bounds [of c "st_signature t"]
  by (simp_all add: signed_transaction_wf_def signed_transaction_write_def sealed_write_def
      signed_transaction_encode_size_def sealed_encode_size_def sig_encode_size_def sig_write_def
      transaction_write_length lazy_max_encoded_size_def)

lemma seal_and_sign_wf:
  "transaction_wf t \<Longrightarrow> sig_wf c (sig_ed25519 (sign ns (transaction_hash_slow c t))) \<Longrightarrow>
    signed_transaction_wf c (transaction_seal_and_sign c sign ns t)"
  by (simp add: signed_transaction_wf_def transaction_seal_and_sign_def message_digest_def
      signed_transaction_new_unchecked_def transaction_seal_def sealed_new_unchecked_def)

section \<open>Lazy decoding is transparent\<close>

definition lazy_wf :: "'x tx_env_scheme \<Rightarrow> lazy_transaction \<Rightarrow> bool" where
  "lazy_wf c lz =
    (case pending lz of
       None \<Rightarrow> (\<exists>t. cached lz = Some (Some t) \<and> signed_transaction_wf c t)
     | Some bs \<Rightarrow> cached lz = None \<or> cached lz = Some (lazy_get c (lazy_deferred bs)))"

lemma lazy_wf_constructors:
  "signed_transaction_wf c t \<Longrightarrow> lazy_wf c (lazy_new t)"
  "lazy_wf c (lazy_deferred bs)"
  "lazy_read d bs = Ok (lz, rest) \<Longrightarrow> lazy_wf c lz"
  by (auto simp: lazy_wf_def lazy_new_def lazy_deferred_def lazy_read_def bind_res_Ok_iff
      split: if_splits)

lemma lazy_get_new [simp]: "lazy_get c (lazy_new t) = Some t"
  by (simp add: lazy_get_def lazy_new_def)

lemma lazy_force_get [simp]: "lazy_get c (lazy_force c lz) = lazy_get c lz"
  by (simp add: lazy_force_def lazy_get_def)

lemma lazy_get_pending: "lazy_wf c lz \<Longrightarrow> pending lz = Some bs \<Longrightarrow> lazy_get c lz = lazy_get c (lazy_deferred bs)"
  by (auto simp: lazy_wf_def lazy_get_def lazy_deferred_def)

lemma lazy_wf_force [simp]: "lazy_wf c lz \<Longrightarrow> lazy_wf c (lazy_force c lz)"
  using lazy_get_pending [of c lz]
  by (auto simp: lazy_wf_def lazy_force_def split: option.splits) (auto simp: lazy_get_def)

lemma lazy_get_deferred:
  assumes "tx_env_ok c"
  shows "lazy_get c (lazy_deferred bs) = Some t \<longleftrightarrow>
    signed_transaction_wf c t \<and> bs = signed_transaction_write c t"
proof -
  have "decode_signed c (signed_transaction_read c) bs = Ok t \<longleftrightarrow>
      signed_transaction_read c bs = Ok (t, [])"
    using assms unfolding tx_env_ok_def by blast
  then show ?thesis
    by (auto simp: lazy_get_def lazy_deferred_def signed_transaction_read_Ok [OF assms]
        split: result.splits)
qed

lemma lazy_get_wf:
  assumes "tx_env_ok c" "lazy_wf c lz" "lazy_get c lz = Some t"
  shows "signed_transaction_wf c t \<and> encoded_signed_transaction c lz = Some (signed_transaction_write c t)"
proof (cases "pending lz")
  case None
  with assms show ?thesis by (auto simp: lazy_wf_def encoded_signed_transaction_def lazy_get_def)
next
  case (Some bs)
  with assms lazy_get_pending [OF assms(2) Some] lazy_get_deferred [OF assms(1), of bs t]
  show ?thesis by (simp add: encoded_signed_transaction_def)
qed

lemma lazy_write_new:
  assumes "tx_env_ok c" "signed_transaction_wf c t"
  shows "lazy_write c (lazy_new t) =
      Some (write_len c (length (signed_transaction_write c t)) @ signed_transaction_write c t)"
    and "lazy_read c ((write_len c (length (signed_transaction_write c t))
        @ signed_transaction_write c t) @ rest)
      = Ok (lazy_deferred (signed_transaction_write c t), rest)"
    and "lazy_get c (lazy_deferred (signed_transaction_write c t)) = Some t"
proof -
  note size = signed_transaction_size [OF assms]
  let ?b = "signed_transaction_write c t"
  have "length ?b < 2 ^ 32"
    using size by (simp add: lazy_max_encoded_size_def transaction_size_def public_key_size_def
        account_key_size_def signature_max_size_def signature_bytes_def
        webauthn_authenticator_data_bytes_def webauthn_client_data_json_bytes_def)
  then show "lazy_read c ((write_len c (length ?b) @ ?b) @ rest) = Ok (lazy_deferred ?b, rest)"
    using assms size by (simp add: lazy_read_def)
  show "lazy_get c (lazy_deferred ?b) = Some t"
    using lazy_get_deferred [OF assms(1)] assms(2) by simp
  show "lazy_write c (lazy_new t) = Some (write_len c (length ?b) @ ?b)"
    using size by (simp add: lazy_write_def lazy_get_def lazy_new_def)
qed

section \<open>Body verification\<close>

text \<open>The specification: one transaction decodes, its sender decodes, and the signature is the
  sender's on the digest of the transaction.\<close>

definition lazy_valid :: "'x tx_env_scheme \<Rightarrow> bytes \<Rightarrow> lazy_transaction \<Rightarrow> bool" where
  "lazy_valid c namespace lz =
    (case lazy_get c lz of
       None \<Rightarrow> False
     | Some t \<Rightarrow>
         (case transaction_sender c (st_value t) of
            None \<Rightarrow> False
          | Some sender \<Rightarrow>
              signature_valid c namespace (message_digest t) sender (st_signature t)))"

lemma lazy_valid_force [simp]: "lazy_valid c ns (lazy_force c lz) = lazy_valid c ns lz"
  by (simp add: lazy_valid_def)

lemma verify_batch_loop_iff:
  assumes "crypto_ok c"
  shows "(case verify_batch_loop c ns v txs of None \<Rightarrow> False | Some v' \<Rightarrow> bv_verify c rng v') \<longleftrightarrow>
    bv_verify c rng v \<and> list_all (lazy_valid c ns) txs"
proof (induction txs arbitrary: v)
  case Nil
  show ?case by simp
next
  case (Cons lz txs)
  show ?case
  proof (cases "lazy_get c lz")
    case (Some t)
    show ?thesis
    proof (cases "transaction_sender c (st_value t)")
      case (Some pk)
      let ?r = "bv_add c ns (message_digest t) pk (st_signature t) v"
      from Cons.IH [of "snd ?r"] bv_add_verify [OF assms, of ns "message_digest t" pk "st_signature t" v rng]
      show ?thesis
        using \<open>lazy_get c lz = Some t\<close> Some
        by (auto simp: lazy_valid_def split: prod.splits)
    qed (simp add: Some lazy_valid_def)
  qed (simp add: lazy_valid_def)
qed

lemma bv_verify_new: "crypto_ok c \<Longrightarrow> bv_verify c rng bv_new"
  by (simp add: bv_verify_iff bv_new_def)

lemma verify_transaction_batch_iff:
  "tx_env_ok c \<Longrightarrow> verify_transaction_batch c ns rng txs \<longleftrightarrow> list_all (lazy_valid c ns) txs"
  using verify_batch_loop_iff [where c = c and ns = ns and v = bv_new and txs = txs and rng = rng] bv_verify_new [of c rng]
  by (simp add: verify_transaction_batch_def)

lemma materialize_eq:
  "tx_env_ok c \<Longrightarrow> materialize_transaction_chunks c txs = collect_opt (map (lazy_get c) txs)"
  by (auto simp: materialize_transaction_chunks_def tx_env_ok_def)

lemma preload_eq:
  assumes "tx_env_ok c"
  shows "preload_transaction_chunks c txs =
    (if list_all (signature_inputs_decode c) txs then Some (map (lazy_force c) txs) else None)"
proof -
  have "strategy_fold_ok (fold_lazy c)" using assms by (simp add: tx_env_ok_def)
  from strategy_fold_conj [OF this, of txs "signature_inputs_decode c"]
  show ?thesis by (simp add: preload_transaction_chunks_def)
qed

lemma lazy_valid_decodes: "lazy_valid c ns lz \<Longrightarrow> signature_inputs_decode c lz \<and> lazy_get c lz \<noteq> None"
  by (auto simp: lazy_valid_def signature_inputs_decode_def split: option.splits)

lemma verify_transaction_chunks_eq:
  assumes "tx_env_ok c"
  shows "verify_transaction_chunks c ns rng txs =
    (if list_all (lazy_valid c ns) txs then Some (map (\<lambda>lz. the (lazy_get c lz)) txs) else None)"
proof (cases "list_all (lazy_valid c ns) txs")
  case True
  then have "list_all (signature_inputs_decode c) txs" "\<forall>lz \<in> set txs. lazy_get c lz \<noteq> None"
    by (auto simp: list_all_iff dest: lazy_valid_decodes)
  moreover from this(2) have "map (lazy_get c) txs = map (\<lambda>lz. Some (the (lazy_get c lz))) txs"
    by simp
  ultimately show ?thesis using True
    by (simp add: verify_transaction_chunks_def preload_eq [OF assms] list.pred_map o_def
        verify_transaction_batch_iff [OF assms] del: map_eq_conv)
next
  case False
  then show ?thesis
    by (auto simp: verify_transaction_chunks_def preload_eq [OF assms] list.pred_map o_def
        verify_transaction_batch_iff [OF assms])
qed

section \<open>An environment that satisfies the laws\<close>

definition demo_env :: tx_env where
  "demo_env = crypto.extend demo_crypto
    (tx_env.fields
      (take_bytes public_key_size)
      (\<lambda>rd bs. case rd bs of Ok (pk, []) \<Rightarrow> Some pk | _ \<Rightarrow> None)
      (\<lambda>bs. take 32 (rev bs @ replicate 32 0))
      (\<lambda>rd bs. case rd bs of Ok (t, []) \<Rightarrow> Ok t | Ok (t, r) \<Rightarrow> Err (ExtraData (length r)) | Err e \<Rightarrow> Err e)
      2 map (\<lambda>xs init step comb. foldl step init xs))"

lemma demo_env_fields [simp]:
  "write_u16 demo_env = write_u16 be_codec" "read_u16 demo_env = read_u16 be_codec"
  "write_u64 demo_env = write_u64 be_codec" "read_u64 demo_env = read_u64 be_codec"
  "write_len demo_env = write_len be_codec" "read_len demo_env = read_len be_codec"
  "ed_pk_read demo_env = take_bytes 32" "r1_pk_read demo_env = take_bytes 33"
  "ed_sig_read demo_env = take_bytes 64" "r1_sig_read demo_env = take_bytes 64"
  "fold_items demo_env = (\<lambda>xs init step comb. foldl step init xs)"
  "ed_batch_add demo_env = (\<lambda>_. True)"
  "ed_batch_verify demo_env = (\<lambda>_. list_all (\<lambda>(ns, m, k, s). take 32 s = k))"
  "length (sha256 demo_env bs) = 32"
  "lazy_pk_read demo_env = take_bytes public_key_size"
  "lazy_pk_get demo_env = (\<lambda>rd bs. case rd bs of Ok (pk, []) \<Rightarrow> Some pk | _ \<Rightarrow> None)"
  "hash demo_env = (\<lambda>bs. take 32 (rev bs @ replicate 32 0))"
  "decode_signed demo_env =
    (\<lambda>rd bs. case rd bs of Ok (t, []) \<Rightarrow> Ok t | Ok (t, r) \<Rightarrow> Err (ExtraData (length r)) | Err e \<Rightarrow> Err e)"
  "map_collect_vec demo_env = map"
  "fold_lazy demo_env = (\<lambda>xs init step comb. foldl step init xs)"
  by (simp_all add: demo_env_def crypto.extend_def tx_env.fields_def demo_crypto_def)

lemma tx_env_ok_demo [simp]: "tx_env_ok demo_env"
proof -
  have "codec_ok demo_env" by (rule codec_ok_update [OF codec_ok_be_codec]) simp_all
  moreover have "batch_law demo_env"
    unfolding batch_law_def ed_item_valid_def by (simp add: list_all_iff)
  ultimately have "crypto_ok demo_env"
    by (simp add: crypto_ok_def fixed_read_take_bytes strategy_fold_ok_def)
  moreover have "lazy_pk_get demo_env rd bs = Some pk \<longleftrightarrow> rd bs = Ok (pk, [])" for rd bs pk
    by (cases "rd bs") (auto split: list.splits prod.splits)
  moreover have "decode_signed demo_env rd bs = Ok t \<longleftrightarrow> rd bs = Ok (t, [])" for rd bs t
    by (cases "rd bs") (auto split: list.splits prod.splits)
  moreover have "strategy_fold_ok (fold_lazy demo_env)" by (simp add: strategy_fold_ok_def)
  moreover have "lazy_pk_read demo_env = take_bytes public_key_size" "map_collect_vec demo_env = map"
    by simp_all
  ultimately show ?thesis
    unfolding tx_env_ok_def by (simp only:) (simp add: take_bytes_def)
qed

text \<open>Signed transfers in that environment, by the key that repeats one byte.\<close>

definition demo_signed :: "u8 \<Rightarrow> u8 \<Rightarrow> u64 \<Rightarrow> u64 \<Rightarrow> signed_transaction" where
  "demo_signed from to value nonce =
    transaction_seal_and_sign demo_env (\<lambda>_ _. replicate 64 from) []
      \<lparr>tx_sender = pk_write (pk_ed25519 (replicate 32 from)), tx_to = replicate 32 to,
       tx_value = value, tx_nonce = nonce\<rparr>"

lemma demo_env_pk_wf: "length k = 32 \<Longrightarrow> pk_wf demo_env (pk_ed25519 k)"
  by (rule pk_wf_constructors) (simp add: take_bytes_def)

lemma demo_signed_value:
  "st_value (demo_signed a b v n) =
    \<lparr>tx_sender = pk_write (pk_ed25519 (replicate 32 a)), tx_to = replicate 32 b,
     tx_value = v, tx_nonce = n\<rparr>"
  by (simp add: demo_signed_def transaction_seal_and_sign_def signed_transaction_new_unchecked_def
      transaction_seal_def sealed_new_unchecked_def)

lemma demo_signed_wf: "v \<noteq> 0 \<Longrightarrow> signed_transaction_wf demo_env (demo_signed a b v n)"
  unfolding demo_signed_def
  by (rule seal_and_sign_wf)
    (simp_all add: transaction_wf_def account_key_wf_def account_key_size_def pk_write_def
      pk_ed25519_def public_key_size_def sig_wf_constructors take_bytes_def)

lemma demo_sender:
  "transaction_sender demo_env (st_value (demo_signed a b v n)) = Some (pk_ed25519 (replicate 32 a))"
proof -
  have "pk_read demo_env (pk_write (pk_ed25519 (replicate 32 a)) @ []) =
      Ok (pk_ed25519 (replicate 32 a), [])"
    by (rule pk_read_write) (simp_all add: demo_env_pk_wf)
  then show ?thesis by (simp add: transaction_sender_def demo_signed_value)
qed

lemma demo_signed_valid: "lazy_valid demo_env ns (lazy_new (demo_signed a b v n))"
proof -
  have "st_signature (demo_signed a b v n) = sig_ed25519 (replicate 64 a)"
    by (simp add: demo_signed_def transaction_seal_and_sign_def signed_transaction_new_unchecked_def
        Let_def)
  then show ?thesis
    by (simp add: lazy_valid_def demo_sender signature_valid_def pk_ed25519_def sig_ed25519_def
        ed_item_valid_def)
qed

section \<open>Properties\<close>

text \<open>The signed-transaction codec: a well-formed signed transaction is read back in front of
  any continuation and its encoded size is what \<open>encode_size\<close> says; everything the reader
  accepts has a non-zero value, carries the digest of its own encoding as seal, and is the only
  value with that encoding.\<close>

theorem signed_transaction_codec:
  assumes "tx_env_ok c"
  shows "(signed_transaction_wf c t \<longrightarrow>
      signed_transaction_read c (signed_transaction_write c t @ rest) = Ok (t, rest) \<and>
      length (signed_transaction_write c t) = signed_transaction_encode_size t) \<and>
    (signed_transaction_read c bs = Ok (t, rest) \<longrightarrow>
      bs = signed_transaction_write c t @ rest \<and> tx_value (st_value t) \<noteq> 0 \<and>
      message_digest t = hash c (transaction_write c (st_value t)))"
proof (intro conjI impI)
  show "signed_transaction_read c (signed_transaction_write c t @ rest) = Ok (t, rest)"
    "length (signed_transaction_write c t) = signed_transaction_encode_size t"
    if "signed_transaction_wf c t"
    using signed_txs.round_trip [OF assms that] signed_transaction_size [OF assms that] by simp_all
  assume "signed_transaction_read c bs = Ok (t, rest)"
  with signed_transaction_read_Ok [OF assms] have t: "signed_transaction_wf c t"
    "bs = signed_transaction_write c t @ rest" by blast+
  then show "bs = signed_transaction_write c t @ rest" "tx_value (st_value t) \<noteq> 0"
    "message_digest t = hash c (transaction_write c (st_value t))"
    by (simp_all add: signed_transaction_wf_def transaction_wf_def transaction_hash_slow_def)
qed

theorem signed_transaction_codec_witness:
  "signed_transaction_read demo_env (signed_transaction_write demo_env (demo_signed 7 8 50 3) @ [1])
    = Ok (demo_signed 7 8 50 3, [1])"
  using signed_transaction_codec [OF tx_env_ok_demo, of "demo_signed 7 8 50 3" "[1]"]
    demo_signed_wf [of 50 7 8 3] by simp

text \<open>The lazy codec of block bodies: a transaction written into a body is read back as
  deferred bytes without being decoded, decoding those bytes later gives the transaction, and
  whether the cell has been filled changes nothing that is observable.\<close>

theorem lazy_transaction_round_trip:
  assumes "tx_env_ok c" "signed_transaction_wf c t"
  shows "\<exists>w. lazy_write c (lazy_new t) = Some w \<and> lazy_encode_size c (lazy_new t) = Some (length w) \<and>
    lazy_read c (w @ rest) = Ok (lazy_deferred (signed_transaction_write c t), rest) \<and>
    lazy_get c (lazy_deferred (signed_transaction_write c t)) = Some t \<and>
    lazy_eq c (lazy_force c (lazy_deferred (signed_transaction_write c t))) (lazy_new t) \<and>
    lazy_write c (lazy_force c (lazy_deferred (signed_transaction_write c t))) = Some w"
proof -
  let ?b = "signed_transaction_write c t"
  let ?w = "write_len c (length ?b) @ ?b"
  note lw = lazy_write_new [OF assms]
  have "lazy_encode_size c (lazy_new t) = Some (length ?w)"
    using signed_transaction_size [OF assms]
    by (simp add: lazy_encode_size_def lazy_get_def lazy_new_def)
  moreover have "lazy_write c (lazy_force c (lazy_deferred ?b)) = Some ?w"
    by (simp add: lazy_write_def lazy_force_def lazy_deferred_def)
  ultimately show ?thesis
    using lw(1,3) lw(2) [of rest] by (intro exI [of _ ?w]) (simp add: lazy_eq_def)
qed

theorem lazy_transaction_round_trip_witness:
  "\<exists>w. lazy_write demo_env (lazy_new (demo_signed 7 8 50 3)) = Some w \<and>
    lazy_read demo_env (w @ [9]) =
      Ok (lazy_deferred (signed_transaction_write demo_env (demo_signed 7 8 50 3)), [9])"
  using lazy_transaction_round_trip [OF tx_env_ok_demo demo_signed_wf [of 50 7 8 3], of "[9]"] by auto

text \<open>C10: Verifying a body accepts it exactly when every transaction decodes, its sender decodes
  and the signature is valid for that sender and digest, and then returns the decoded
  transactions in order; the number of workers makes no difference.\<close>

theorem body_verification:
  assumes "tx_env_ok c"
  shows "verify_transaction_chunks c namespace rng txs =
    (if list_all (lazy_valid c namespace) txs
     then Some (map (\<lambda>lz. the (lazy_get c lz)) txs) else None)"
  by (rule verify_transaction_chunks_eq [OF assms])

theorem body_verification_witness:
  "verify_transaction_chunks demo_env [1] 0 [lazy_new (demo_signed 7 8 50 3), lazy_new (demo_signed 8 9 1 0)]
    = Some [demo_signed 7 8 50 3, demo_signed 8 9 1 0]"
  using body_verification [OF tx_env_ok_demo,
      of "[1]" 0 "[lazy_new (demo_signed 7 8 50 3), lazy_new (demo_signed 8 9 1 0)]"]
  by (simp add: demo_signed_valid)

end
