(* ===== verification/Block.thy ===== *)
theory Block
  imports Transaction
begin

text \<open>
  Headers and blocks (\<open>crates/primitives/src/block.rs\<close>). The consensus context, digests,
  non-empty ranges and vectors are types of the commonware crates; their codecs are fields that
  \<open>block_env\<close> adds to the environment. A block is sealed by the digest of its header alone; the
  header commits to the body through the transactions root.
\<close>

section \<open>Data\<close>

record simplex_context =
  ctx_epoch :: u64
  ctx_view :: u64
  ctx_leader :: bytes
  ctx_parent_view :: u64
  ctx_parent_digest :: digest

record range =
  range_start :: u64
  range_end :: u64

record header =
  h_context :: simplex_context
  h_parent :: digest
  h_height :: u64
  h_timestamp :: u64
  h_state_root :: digest
  h_state_range :: range
  h_transactions_root :: digest
  h_transactions_range :: range

record block =
  b_header :: header
  b_body :: "lazy_transaction list"

record block_cfg =
  max_transactions :: "nat \<times> nat"

type_synonym sealed_block = "block sealed"

record block_env = tx_env +
  leader_size :: nat
  context_write :: "simplex_context \<Rightarrow> bytes"
  context_read :: "simplex_context reader"
  digest_size :: nat
  digest_read :: "digest reader"
  range_write :: "range \<Rightarrow> bytes"
  range_read :: "range reader"
  vec_write :: "bytes list \<Rightarrow> bytes"
  vec_read :: "nat \<times> nat \<Rightarrow> lazy_transaction reader \<Rightarrow> lazy_transaction list reader"

section \<open>Headers\<close>

definition header_write :: "'x block_env_scheme \<Rightarrow> header \<Rightarrow> bytes" where
  "header_write c h =
    context_write c (h_context h) @ h_parent h @ write_u64 c (h_height h)
    @ write_u64 c (h_timestamp h) @ h_state_root h @ range_write c (h_state_range h)
    @ h_transactions_root h @ range_write c (h_transactions_range h)"

definition header_encode_size :: "'x block_env_scheme \<Rightarrow> header \<Rightarrow> nat" where
  "header_encode_size c h =
    length (context_write c (h_context h)) + length (h_parent h) + 8 + 8
    + length (h_state_root h) + length (range_write c (h_state_range h))
    + length (h_transactions_root h) + length (range_write c (h_transactions_range h))"

definition header_read :: "'x block_env_scheme \<Rightarrow> header reader" where
  "header_read c bs =
    bind_res (context_read c bs) (\<lambda>(ctx, bs).
    bind_res (digest_read c bs) (\<lambda>(parent, bs).
    bind_res (read_u64 c bs) (\<lambda>(height, bs).
    bind_res (read_u64 c bs) (\<lambda>(timestamp, bs).
    bind_res (digest_read c bs) (\<lambda>(state_root, bs).
    bind_res (range_read c bs) (\<lambda>(state_range, bs).
    bind_res (digest_read c bs) (\<lambda>(transactions_root, bs).
    bind_res (range_read c bs) (\<lambda>(transactions_range, bs).
      Ok (\<lparr>h_context = ctx, h_parent = parent, h_height = height, h_timestamp = timestamp,
           h_state_root = state_root, h_state_range = state_range,
           h_transactions_root = transactions_root, h_transactions_range = transactions_range\<rparr>,
          bs)))))))))"

definition header_hash_slow :: "'x block_env_scheme \<Rightarrow> header \<Rightarrow> digest" where
  "header_hash_slow c h = hash c (header_write c h)"

definition header_seal :: "'x block_env_scheme \<Rightarrow> header \<Rightarrow> header sealed" where
  "header_seal c h = sealed_new_unchecked h (header_hash_slow c h)"

section \<open>Blocks\<close>

definition block_cfg_default :: block_cfg where
  "block_cfg_default = \<lparr>max_transactions = (0, usize_max)\<rparr>"

definition block_new :: "header \<Rightarrow> signed_transaction list \<Rightarrow> block" where
  "block_new h body = \<lparr>b_header = h, b_body = map lazy_new body\<rparr>"

definition block_write :: "'x block_env_scheme \<Rightarrow> block \<Rightarrow> bytes option" where
  "block_write c b =
    map_option (\<lambda>ws. header_write c (b_header b) @ vec_write c ws)
      (collect_opt (map (lazy_write c) (b_body b)))"

definition block_read :: "'x block_env_scheme \<Rightarrow> block_cfg \<Rightarrow> block reader" where
  "block_read c cfg bs =
    bind_res (header_read c bs) (\<lambda>(h, bs).
    bind_res (vec_read c (max_transactions cfg) (lazy_read c) bs) (\<lambda>(body, bs).
      Ok (\<lparr>b_header = h, b_body = body\<rparr>, bs)))"

definition block_seal :: "'x block_env_scheme \<Rightarrow> block \<Rightarrow> sealed_block" where
  "block_seal c b = sealed_new_unchecked b (header_hash_slow c (b_header b))"

definition block_eq :: "'x block_env_scheme \<Rightarrow> block \<Rightarrow> block \<Rightarrow> bool" where
  "block_eq c a b \<longleftrightarrow> b_header a = b_header b \<and> list_all2 (lazy_eq c) (b_body a) (b_body b)"

definition sealed_block_read :: "'x block_env_scheme \<Rightarrow> block_cfg \<Rightarrow> sealed_block reader" where
  "sealed_block_read c cfg = sealed_read (block_read c cfg) (block_seal c)"

section \<open>What the environment promises\<close>

text \<open>Contexts and ranges are self-delimiting, digests are their bytes, and a vector of items
  that each read back reads back when its length is in the configured range.\<close>

definition context_wf :: "'x block_env_scheme \<Rightarrow> simplex_context \<Rightarrow> bool" where
  "context_wf c x \<longleftrightarrow>
    length (ctx_leader x) = leader_size c \<and> length (ctx_parent_digest x) = digest_size c"

definition block_env_ok :: "'x block_env_scheme \<Rightarrow> bool" where
  "block_env_ok c \<longleftrightarrow>
    tx_env_ok c \<and>
    (\<forall>x rest. context_wf c x \<longrightarrow> context_read c (context_write c x @ rest) = Ok (x, rest)) \<and>
    fixed_read (digest_size c) (digest_read c) \<and>
    (\<forall>bs. length bs = digest_size c \<longrightarrow> is_ok (digest_read c bs)) \<and>
    (\<forall>x rest. range_start x < range_end x \<longrightarrow>
      range_read c (range_write c x @ rest) = Ok (x, rest)) \<and>
    (\<forall>lo hi rd xs ws rest. lo \<le> length xs \<longrightarrow> length xs \<le> hi \<longrightarrow> length xs < 2 ^ 32 \<longrightarrow>
      list_all2 (\<lambda>x w. \<forall>r. rd (w @ r) = Ok (x, r)) xs ws \<longrightarrow>
      vec_read c (lo, hi) rd (vec_write c ws @ rest) = Ok (xs, rest))"

definition header_wf :: "'x block_env_scheme \<Rightarrow> header \<Rightarrow> bool" where
  "header_wf c h \<longleftrightarrow>
    context_wf c (h_context h) \<and> length (h_parent h) = digest_size c \<and> length (h_state_root h) = digest_size c \<and>
    length (h_transactions_root h) = digest_size c \<and>
    range_start (h_state_range h) < range_end (h_state_range h) \<and>
    range_start (h_transactions_range h) < range_end (h_transactions_range h)"

lemma block_env_tx [simp]: "block_env_ok c \<Longrightarrow> tx_env_ok c"
  by (simp add: block_env_ok_def)

lemma digest_read_append:
  assumes "block_env_ok c" "length d = digest_size c"
  shows "digest_read c (d @ rest) = Ok (d, rest)"
proof -
  have f: "fixed_read (digest_size c) (digest_read c)" and ok: "is_ok (digest_read c d)"
    using assms unfolding block_env_ok_def by blast+
  have "digest_read c d = Ok (take (digest_size c) d, drop (digest_size c) d)"
    by (rule fixed_read_long [OF f]) (use assms ok in simp_all)
  then show ?thesis using fixed_read_append [OF f, of d rest] assms(2) by simp
qed

lemma range_read_append:
  "block_env_ok c \<Longrightarrow> range_start x < range_end x \<Longrightarrow>
    range_read c (range_write c x @ rest) = Ok (x, rest)"
  unfolding block_env_ok_def by blast

lemma context_read_append:
  "block_env_ok c \<Longrightarrow> context_wf c x \<Longrightarrow> context_read c (context_write c x @ rest) = Ok (x, rest)"
  unfolding block_env_ok_def by blast

lemma vec_read_append:
  "block_env_ok c \<Longrightarrow> lo \<le> length xs \<Longrightarrow> length xs \<le> hi \<Longrightarrow> length xs < 2 ^ 32 \<Longrightarrow>
    list_all2 (\<lambda>x w. \<forall>r. rd (w @ r) = Ok (x, r)) xs ws \<Longrightarrow>
    vec_read c (lo, hi) rd (vec_write c ws @ rest) = Ok (xs, rest)"
  unfolding block_env_ok_def by blast

lemma header_read_write:
  "block_env_ok c \<Longrightarrow> header_wf c h \<Longrightarrow> header_read c (header_write c h @ rest) = Ok (h, rest)"
  by (simp add: header_read_def header_write_def header_wf_def context_read_append
      digest_read_append range_read_append)

interpretation headers: wire_codec "block_env_ok :: 'x block_env_scheme \<Rightarrow> bool" header_wf header_write
  header_read
  by unfold_locales (rule header_read_write)

section \<open>Blocks read back\<close>

lemma header_size: "block_env_ok c \<Longrightarrow> length (header_write c h) = header_encode_size c h"
  by (simp add: header_write_def header_encode_size_def)

definition deferred_body :: "'x tx_env_scheme \<Rightarrow> signed_transaction list \<Rightarrow> lazy_transaction list" where
  "deferred_body c ts = map (\<lambda>t. lazy_deferred (signed_transaction_write c t)) ts"

lemma block_read_write:
  assumes "block_env_ok c" "header_wf c h" "list_all (signed_transaction_wf c) ts"
    and "max_transactions cfg = (lo, hi)" "lo \<le> length ts" "length ts \<le> hi" "length ts < 2 ^ 32"
  obtains w where "block_write c (block_new h ts) = Some w"
    "block_read c cfg (w @ rest) = Ok (\<lparr>b_header = h, b_body = deferred_body c ts\<rparr>, rest)"
    "map (lazy_get c) (deferred_body c ts) = map Some ts"
proof -
  let ?item = "\<lambda>t. write_len c (length (signed_transaction_write c t)) @ signed_transaction_write c t"
  have wf: "signed_transaction_wf c t" if "t \<in> set ts" for t
    using assms(3) that by (simp add: list_all_iff)
  note lw = lazy_write_new [OF block_env_tx [OF assms(1)] wf]
  have "map (lazy_write c) (map lazy_new ts) = map (\<lambda>t. Some (?item t)) ts"
    using lw(1) by simp
  then have "block_write c (block_new h ts) = Some (header_write c h @ vec_write c (map ?item ts))"
    by (simp add: block_write_def block_new_def del: map_map)
  moreover have "vec_read c (lo, hi) (lazy_read c) (vec_write c (map ?item ts) @ rest) =
      Ok (deferred_body c ts, rest)"
  proof (rule vec_read_append [OF assms(1)])
    show "list_all2 (\<lambda>x w. \<forall>r. lazy_read c (w @ r) = Ok (x, r)) (deferred_body c ts) (map ?item ts)"
      using lw(2) by (simp add: deferred_body_def list_all2_conv_all_nth)
  qed (use assms in \<open>simp_all add: deferred_body_def\<close>)
  moreover have "map (lazy_get c) (deferred_body c ts) = map Some ts"
    using lw(3) by (simp add: deferred_body_def)
  ultimately show thesis
    using assms by (intro that [of "header_write c h @ vec_write c (map ?item ts)"])
      (simp_all add: block_read_def header_read_write)
qed

section \<open>An environment that satisfies the laws\<close>

definition demo_block_env :: block_env where
  "demo_block_env = tx_env.extend demo_env
    (block_env.fields 32
      (\<lambda>x. u64_to_be (ctx_epoch x) @ u64_to_be (ctx_view x) @ ctx_leader x
         @ u64_to_be (ctx_parent_view x) @ ctx_parent_digest x)
      (\<lambda>bs. bind_res (take_bytes 88 bs) (\<lambda>(x, bs).
         Ok (\<lparr>ctx_epoch = u64_from_be (take 8 x), ctx_view = u64_from_be (take 8 (drop 8 x)),
              ctx_leader = take 32 (drop 16 x), ctx_parent_view = u64_from_be (take 8 (drop 48 x)),
              ctx_parent_digest = drop 56 x\<rparr>, bs)))
      32 (take_bytes 32)
      (\<lambda>r. u64_to_be (range_start r) @ u64_to_be (range_end r))
      (\<lambda>bs. bind_res (take_bytes 16 bs) (\<lambda>(x, bs).
         Ok (\<lparr>range_start = u64_from_be (take 8 x), range_end = u64_from_be (drop 8 x)\<rparr>, bs)))
      (\<lambda>ws. varint_digits 4 (length ws) @ concat ws)
      (\<lambda>cfg rd bs. bind_res (varint_value 4 bs) (\<lambda>(n, bs).
         if fst cfg \<le> n \<and> n \<le> snd cfg then read_many rd n bs else Err (InvalidLength n))))"

lemma tx_env_ok_truncate: "tx_env_ok (tx_env.truncate c) \<longleftrightarrow> tx_env_ok c"
  unfolding tx_env_ok_def crypto_ok_def codec_ok_def u16_law_def u64_law_def len_law_def
    batch_law_def ed_item_valid_def tx_env.truncate_def
  by (simp only: codec.select_convs crypto.select_convs tx_env.select_convs)

lemma demo_block_truncate: "tx_env.truncate demo_block_env = demo_env"
  by (simp add: demo_block_env_def tx_env.truncate_def tx_env.extend_def block_env.fields_def)

lemma demo_block_fields:
  "leader_size demo_block_env = 32" "digest_size demo_block_env = 32"
  "digest_read demo_block_env = take_bytes 32"
  by (simp_all add: demo_block_env_def tx_env.extend_def block_env.fields_def)

lemma demo_context_codec:
  "length (ctx_leader x) = 32 \<Longrightarrow> length (ctx_parent_digest x) = 32 \<Longrightarrow>
    context_read demo_block_env (context_write demo_block_env x @ rest) = Ok (x, rest)"
  by (simp add: demo_block_env_def tx_env.extend_def block_env.fields_def take_bytes_def)

lemma demo_range_codec: "range_read demo_block_env (range_write demo_block_env x @ rest) = Ok (x, rest)"
  by (simp add: demo_block_env_def tx_env.extend_def block_env.fields_def take_bytes_def)

lemma read_many_all2:
  "list_all2 (\<lambda>x w. \<forall>r. rd (w @ r) = Ok (x, r)) xs ws \<Longrightarrow>
    read_many rd (length xs) (concat ws @ rest) = Ok (xs, rest)"
  by (induction rule: list_all2_induct) auto

lemma demo_vec_codec:
  assumes "lo \<le> length xs" "length xs \<le> hi" "length xs < 2 ^ 32"
    and "list_all2 (\<lambda>x w. \<forall>r. rd (w @ r) = Ok (x, r)) xs ws"
  shows "vec_read demo_block_env (lo, hi) rd (vec_write demo_block_env ws @ rest) = Ok (xs, rest)"
proof -
  have "length ws = length xs" using assms(4) by (simp add: list_all2_lengthD)
  moreover have "length xs < 128 * 128 ^ 4" using assms(3) by simp
  ultimately show ?thesis
    using varint_value_digits [of "length xs" 4 "concat ws @ rest"] assms(1,2) read_many_all2 [OF assms(4)]
    by (simp add: demo_block_env_def tx_env.extend_def block_env.fields_def
        del: varint_digits.simps varint_value.simps)
qed

lemma block_env_ok_demo [simp]: "block_env_ok demo_block_env"
proof -
  have "tx_env_ok demo_block_env"
    using tx_env_ok_truncate [of demo_block_env] by (simp add: demo_block_truncate)
  moreover have "fixed_read 32 (take_bytes 32)" "\<And>bs. length bs = 32 \<Longrightarrow> is_ok (take_bytes 32 bs)"
    by (simp_all add: fixed_read_take_bytes take_bytes_def)
  ultimately show ?thesis
    unfolding block_env_ok_def context_wf_def demo_block_fields
    using demo_context_codec demo_range_codec demo_vec_codec by blast
qed

lemma pk_read_truncate: "pk_read (tx_env.truncate c) = pk_read c"
  unfolding pk_read_def [abs_def] tx_env.truncate_def crypto.select_convs ..

lemma signature_valid_truncate: "signature_valid (tx_env.truncate c) = signature_valid c"
  unfolding signature_valid_def [abs_def] ed_item_valid_def verify_webauthn_assertion_def
    verify_raw_secp256r1_def tx_env.truncate_def crypto.select_convs ..

lemma lazy_valid_truncate: "lazy_valid (tx_env.truncate c) ns (lazy_new t) = lazy_valid c ns (lazy_new t)"
proof -
  have "lazy_pk_get (tx_env.truncate c) = lazy_pk_get c" by (simp add: tx_env.truncate_def)
  then show ?thesis
    unfolding lazy_valid_def transaction_sender_def lazy_get_new pk_read_truncate
      signature_valid_truncate by simp
qed

lemma demo_body_valid: "lazy_valid demo_block_env ns (lazy_new (demo_signed a b v n))"
  using demo_signed_valid [of ns a b v n] lazy_valid_truncate [of demo_block_env]
  by (simp add: demo_block_truncate)

lemma demo_signed_wf_block:
  assumes "v \<noteq> 0"
  shows "signed_transaction_wf demo_block_env (demo_signed a b v n)"
proof -
  have "st_signature (demo_signed a b v n) = sig_ed25519 (replicate 64 a)"
    by (simp add: demo_signed_def transaction_seal_and_sign_def signed_transaction_new_unchecked_def Let_def)
  moreover have "transaction_hash_slow demo_block_env = transaction_hash_slow demo_env"
    by (simp add: fun_eq_iff transaction_hash_slow_def transaction_write_def demo_block_env_def
        tx_env.extend_def block_env.fields_def)
  moreover have "ed_sig_read demo_block_env = ed_sig_read demo_env"
    by (simp add: demo_block_env_def tx_env.extend_def block_env.fields_def)
  ultimately show ?thesis
    using demo_signed_wf [OF assms, of a b n]
    by (simp add: signed_transaction_wf_def sig_wf_def sig_ed25519_def)
qed

section \<open>Properties\<close>


definition demo_header :: "u64 \<Rightarrow> u64 \<Rightarrow> header" where
  "demo_header height timestamp =
    \<lparr>h_context = \<lparr>ctx_epoch = 0, ctx_view = 1, ctx_leader = replicate 32 1, ctx_parent_view = 0,
        ctx_parent_digest = replicate 32 2\<rparr>,
     h_parent = replicate 32 3, h_height = height, h_timestamp = timestamp,
     h_state_root = replicate 32 4, h_state_range = \<lparr>range_start = 0, range_end = 5\<rparr>,
     h_transactions_root = replicate 32 5, h_transactions_range = \<lparr>range_start = 1, range_end = 4\<rparr>\<rparr>"

lemma demo_header_wf: "header_wf demo_block_env (demo_header h t)"
  by (simp add: header_wf_def context_wf_def demo_header_def demo_block_fields)


end
