(* ===== verification/Executor.thy ===== *)
theory Executor
  imports Transaction
begin

text \<open>
  Transfer execution (\<open>crates/application/src/executor.rs\<close>): the overlay of account writes, one
  transfer, the strict execution of a block body, the filtering execution of a proposal, and the
  fast path for bodies whose participants are all different. Balances and nonces are machine
  words; the specification below them is over natural numbers and sets of consumed nonces.
\<close>

section \<open>Data\<close>

type_synonym state = "(account_key, account) hashmap"
type_synonym changeset = "(account_key \<times> account) list"

record prepared_transfer =
  pt_sender :: account_key
  pt_recipient :: account_key
  pt_value :: u64
  pt_nonce :: u64
  pt_digest :: digest

record prepared_transaction =
  ptx_transaction :: signed_transaction
  ptx_transfer :: prepared_transfer

record proposal_input =
  candidates :: "prepared_transaction list"
  rejected :: "signed_transaction list"

record proposal_output =
  valid :: "signed_transaction list"
  invalid :: "signed_transaction list"
  out_changeset :: changeset
  transfers :: "prepared_transfer list"

record overlay =
  ov_base :: state
  ov_writes :: state

section \<open>The overlay\<close>

definition overlay_new :: "state \<Rightarrow> overlay" where
  "overlay_new st = \<lparr>ov_base = st, ov_writes = []\<rparr>"

definition overlay_get :: "overlay \<Rightarrow> account_key \<Rightarrow> account option" where
  "overlay_get ov k =
    (case hm_get (ov_writes ov) k of Some a \<Rightarrow> Some a | None \<Rightarrow> hm_get (ov_base ov) k)"

definition overlay_set :: "account_key \<Rightarrow> account \<Rightarrow> overlay \<Rightarrow> overlay" where
  "overlay_set k a ov = ov\<lparr>ov_writes := hm_insert k a (ov_writes ov)\<rparr>"

definition into_changeset :: "overlay \<Rightarrow> changeset" where
  "into_changeset ov = sort_key fst (ov_writes ov)"

section \<open>Preparation\<close>

definition account_key_from_sender :: "'x crypto_scheme \<Rightarrow> bytes \<Rightarrow> account_key option" where
  "account_key_from_sender c sender = account_key_from_public_key_bytes (sha256 c) sender"

definition prepare_transfer ::
    "'x crypto_scheme \<Rightarrow> signed_transaction \<Rightarrow> prepared_transfer option" where
  "prepare_transfer c t =
    (case account_key_from_sender c (tx_sender (st_value t)) of
       None \<Rightarrow> None
     | Some sender \<Rightarrow>
         Some \<lparr>pt_sender = sender, pt_recipient = tx_to (st_value t), pt_value = tx_value (st_value t),
           pt_nonce = tx_nonce (st_value t), pt_digest = message_digest t\<rparr>)"

fun prepare_loop :: "'x crypto_scheme \<Rightarrow> prepared_transaction list \<Rightarrow> signed_transaction list
    \<Rightarrow> signed_transaction list \<Rightarrow> proposal_input" where
  "prepare_loop c cands bad [] = \<lparr>candidates = cands, rejected = bad\<rparr>"
| "prepare_loop c cands bad (t # ts) =
    (case prepare_transfer c t of
       None \<Rightarrow> prepare_loop c cands (bad @ [t]) ts
     | Some p \<Rightarrow> prepare_loop c (cands @ [\<lparr>ptx_transaction = t, ptx_transfer = p\<rparr>]) bad ts)"

definition prepare_proposal :: "'x crypto_scheme \<Rightarrow> signed_transaction list \<Rightarrow> proposal_input" where
  "prepare_proposal c ts = prepare_loop c [] [] ts"

section \<open>One transfer\<close>

definition apply_transfer :: "prepared_transfer \<Rightarrow> overlay \<Rightarrow> bool \<times> overlay" where
  "apply_transfer t ov =
    (case overlay_get ov (pt_sender t) of
       None \<Rightarrow> (False, ov)
     | Some sender \<Rightarrow>
         if balance sender < pt_value t then (False, ov)
         else
           (case nonce_consume (pt_nonce t) (acct_nonce sender) of
              (consumed, nonce) \<Rightarrow>
                if \<not> consumed then (False, ov)
                else
                  let sender = sender\<lparr>acct_nonce := nonce\<rparr> in
                  if pt_sender t = pt_recipient t then (True, overlay_set (pt_sender t) sender ov)
                  else
                    (case overlay_get ov (pt_recipient t) of
                       None \<Rightarrow> (False, ov)
                     | Some recipient \<Rightarrow>
                         (case checked_add (balance recipient) (pt_value t) of
                            None \<Rightarrow> (False, ov)
                          | Some recipient_balance \<Rightarrow>
                              (True,
                               overlay_set (pt_recipient t) (recipient\<lparr>balance := recipient_balance\<rparr>)
                                 (overlay_set (pt_sender t)
                                   (sender\<lparr>balance := balance sender - pt_value t\<rparr>) ov))))))"

section \<open>Execution\<close>

fun execute_loop :: "overlay \<Rightarrow> prepared_transfer list \<Rightarrow> overlay option" where
  "execute_loop ov [] = Some ov"
| "execute_loop ov (t # ts) =
    (case apply_transfer t ov of
       (applied, ov) \<Rightarrow> if \<not> applied then None else execute_loop ov ts)"

definition execute :: "state \<Rightarrow> prepared_transfer list \<Rightarrow> changeset option" where
  "execute st ts = map_option into_changeset (execute_loop (overlay_new st) ts)"

fun propose_loop :: "overlay \<Rightarrow> signed_transaction list \<Rightarrow> prepared_transfer list
    \<Rightarrow> signed_transaction list \<Rightarrow> prepared_transaction list \<Rightarrow> proposal_output" where
  "propose_loop ov good trs bad [] =
    \<lparr>valid = good, invalid = bad, out_changeset = into_changeset ov, transfers = trs\<rparr>"
| "propose_loop ov good trs bad (p # ps) =
    (case apply_transfer (ptx_transfer p) ov of
       (applied, ov) \<Rightarrow>
         if applied
         then propose_loop ov (good @ [ptx_transaction p]) (trs @ [ptx_transfer p]) bad ps
         else propose_loop ov good trs (bad @ [ptx_transaction p]) ps)"

definition propose_prepared :: "state \<Rightarrow> proposal_input \<Rightarrow> proposal_output" where
  "propose_prepared st input = propose_loop (overlay_new st) [] [] (rejected input) (candidates input)"

definition propose :: "'x crypto_scheme \<Rightarrow> state \<Rightarrow> signed_transaction list \<Rightarrow> proposal_output" where
  "propose c st ts = propose_prepared st (prepare_proposal c ts)"

text \<open>The fast path: the accounts are given in pairs, sender and recipient of each transfer.\<close>

fun execute_unique_loop ::
    "changeset \<Rightarrow> prepared_transfer list \<Rightarrow> account list \<Rightarrow> changeset option" where
  "execute_unique_loop cs (t # ts) (sender # recipient # accounts) =
    (if balance sender < pt_value t then None
     else
       (case nonce_consume (pt_nonce t) (acct_nonce sender) of
          (consumed, nonce) \<Rightarrow>
            if \<not> consumed then None
            else
              (case checked_add (balance recipient) (pt_value t) of
                 None \<Rightarrow> None
               | Some recipient_balance \<Rightarrow>
                   execute_unique_loop
                     (cs @ [(pt_sender t, sender\<lparr>acct_nonce := nonce, balance := balance sender - pt_value t\<rparr>),
                            (pt_recipient t, recipient\<lparr>balance := recipient_balance\<rparr>)])
                     ts accounts)))"
| "execute_unique_loop cs ts accounts = Some cs"

definition execute_unique :: "prepared_transfer list \<Rightarrow> account list \<Rightarrow> changeset option" where
  "execute_unique ts accounts =
    (if length accounts \<noteq> saturating_mul_usize (length ts) 2 then None
     else map_option (sort_key fst) (execute_unique_loop [] ts accounts))"

section \<open>Basic laws\<close>

lemma overlay_get_new [simp]: "overlay_get (overlay_new st) k = hm_get st k"
  by (simp add: overlay_get_def overlay_new_def)

lemma overlay_get_set:
  "overlay_get (overlay_set k a ov) k' = (if k' = k then Some a else overlay_get ov k')"
  by (auto simp: overlay_get_def overlay_set_def hm_get_insert split: option.split)

lemma overlay_base_set [simp]: "ov_base (overlay_set k a ov) = ov_base ov"
  by (simp add: overlay_set_def)

text \<open>One transfer as a step that may reject; the loops are the generic runs of it.\<close>

definition attempt_transfer :: "prepared_transfer \<Rightarrow> overlay \<Rightarrow> overlay option" where
  "attempt_transfer t ov =
    (case apply_transfer t ov of (applied, ov') \<Rightarrow> if applied then Some ov' else None)"

lemma apply_transfer_rejected: "\<not> fst (apply_transfer t ov) \<Longrightarrow> snd (apply_transfer t ov) = ov"
  by (auto simp: apply_transfer_def Let_def split: option.splits if_splits prod.splits)

lemma execute_loop_strict: "execute_loop ov ts = strict attempt_transfer ts ov"
  by (induction ts arbitrary: ov) (auto simp: attempt_transfer_def split: prod.splits)

lemma propose_loop_sift:
  assumes "sift (\<lambda>p. attempt_transfer (ptx_transfer p)) ps ov = (v, w, ov')"
  shows "propose_loop ov good trs bad ps =
    \<lparr>valid = good @ map ptx_transaction v, invalid = bad @ map ptx_transaction w,
     out_changeset = into_changeset ov', transfers = trs @ map ptx_transfer v\<rparr>"
  using assms
proof (induction ps arbitrary: ov good trs bad v w)
  case Nil
  then show ?case by simp
next
  case (Cons p ps)
  obtain ok ov1 where a: "apply_transfer (ptx_transfer p) ov = (ok, ov1)" by fastforce
  then show ?case
    using Cons apply_transfer_rejected [of "ptx_transfer p" ov]
    by (cases ok) (auto simp: attempt_transfer_def split: prod.splits)
qed

lemma strict_map: "strict (\<lambda>p. f (g p)) xs s = strict f (map g xs) s"
  by (induction xs arbitrary: s) (auto split: option.splits)

section \<open>The ledger over numbers and sets\<close>

type_synonym ledger = "account_key \<Rightarrow> (nat \<times> nat set) option"

definition abs_account :: "account \<Rightarrow> nat \<times> nat set" where
  "abs_account a = (unat (balance a), consumed_set (acct_nonce a))"

definition ledger_of :: "overlay \<Rightarrow> ledger" where
  "ledger_of ov k = map_option abs_account (overlay_get ov k)"

text \<open>The specification of a transfer: the sender exists, holds the value and has not used the
  nonce; a transfer to oneself only uses the nonce; otherwise the recipient exists, its balance
  stays below \<open>2 ^ 64\<close>, and the value moves.\<close>

definition spec_transfer :: "prepared_transfer \<Rightarrow> ledger \<Rightarrow> ledger option" where
  "spec_transfer t L =
    (case L (pt_sender t) of
       None \<Rightarrow> None
     | Some (b, C) \<Rightarrow>
         if b < unat (pt_value t) \<or> \<not> spec_accepts (unat (pt_nonce t)) C then None
         else if pt_sender t = pt_recipient t
         then Some (L(pt_sender t \<mapsto> (b, spec_consume (unat (pt_nonce t)) C)))
         else
           (case L (pt_recipient t) of
              None \<Rightarrow> None
            | Some (rb, rC) \<Rightarrow>
                if rb + unat (pt_value t) < 18446744073709551616
                then Some (L(pt_sender t \<mapsto> (b - unat (pt_value t), spec_consume (unat (pt_nonce t)) C),
                             pt_recipient t \<mapsto> (rb + unat (pt_value t), rC)))
                else None))"

definition overlay_inv :: "overlay \<Rightarrow> bool" where
  "overlay_inv ov \<longleftrightarrow>
    hm_wf (ov_writes ov) \<and> (\<forall>k a. overlay_get ov k = Some a \<longrightarrow> nonce_inv (acct_nonce a))"

definition state_inv :: "state \<Rightarrow> bool" where
  "state_inv st \<longleftrightarrow> (\<forall>k a. hm_get st k = Some a \<longrightarrow> nonce_inv (acct_nonce a))"

lemma overlay_inv_new [simp]: "state_inv st \<Longrightarrow> overlay_inv (overlay_new st)"
  by (simp add: overlay_inv_def state_inv_def) (simp add: overlay_new_def)

lemma overlay_inv_set:
  "overlay_inv ov \<Longrightarrow> nonce_inv (acct_nonce a) \<Longrightarrow> overlay_inv (overlay_set k a ov)"
  by (simp add: overlay_inv_def overlay_get_set) (simp add: overlay_set_def)

lemma ledger_of_set: "ledger_of (overlay_set k a ov) = (ledger_of ov)(k \<mapsto> abs_account a)"
  by (auto simp: ledger_of_def overlay_get_set)

lemma apply_transfer_ok:
  assumes "overlay_inv ov"
  shows "map_option ledger_of (attempt_transfer t ov) = spec_transfer t (ledger_of ov)"
    and "attempt_transfer t ov = Some ov' \<Longrightarrow> overlay_inv ov'"
proof -
  have "map_option ledger_of (attempt_transfer t ov) = spec_transfer t (ledger_of ov) \<and>
    (\<forall>ov'. attempt_transfer t ov = Some ov' \<longrightarrow> overlay_inv ov')"
  proof (cases "overlay_get ov (pt_sender t)")
    case None
    then show ?thesis
      by (simp add: attempt_transfer_def apply_transfer_def spec_transfer_def ledger_of_def)
  next
    case (Some a)
    then have inv: "nonce_inv (acct_nonce a)" using assms by (simp add: overlay_inv_def)
    note step = nonce_consume_step [OF inv, of "pt_nonce t"]
    obtain ok n where n: "nonce_consume (pt_nonce t) (acct_nonce a) = (ok, n)" by fastforce
    have ok: "ok = spec_accepts (unat (pt_nonce t)) (consumed_set (acct_nonce a))"
      "consumed_set n = spec_consume (unat (pt_nonce t)) (consumed_set (acct_nonce a))" "nonce_inv n"
      using step by (simp_all add: n)
    have bal: "balance a < pt_value t \<longleftrightarrow> unat (balance a) < unat (pt_value t)"
      by (simp add: word_less_nat_alt)
    have sub: "unat (balance a - pt_value t) = unat (balance a) - unat (pt_value t)"
      if "\<not> balance a < pt_value t" using that by (simp add: unat_sub not_less)
    have L: "ledger_of ov (pt_sender t) = Some (unat (balance a), consumed_set (acct_nonce a))"
      using Some by (simp add: ledger_of_def abs_account_def)
    note unfolds = attempt_transfer_def apply_transfer_def spec_transfer_def Let_def L Some n bal
      ok(1) [symmetric]
    show ?thesis
    proof (cases "pt_sender t = pt_recipient t \<or> balance a < pt_value t \<or> \<not> ok")
      case True
      then show ?thesis using ok(2,3) assms
        by (auto simp: unfolds ledger_of_set overlay_inv_set abs_account_def)
    next
      case False
      show ?thesis
      proof (cases "overlay_get ov (pt_recipient t)")
        case None
        then have "ledger_of ov (pt_recipient t) = None" by (simp add: ledger_of_def)
        with None False show ?thesis by (simp add: unfolds)
      next
        case (Some r)
        then have R: "ledger_of ov (pt_recipient t) = Some (unat (balance r), consumed_set (acct_nonce r))"
          and r: "nonce_inv (acct_nonce r)"
          using assms by (simp_all add: ledger_of_def abs_account_def overlay_inv_def)
        show ?thesis
        proof (cases "unat (balance r) + unat (pt_value t) < 18446744073709551616")
          case True
          then have ca: "checked_add (balance r) (pt_value t) = Some (balance r + pt_value t)"
            by (simp add: checked_add_def)
          with False Some R r True ok(2,3) assms sub checked_add_unat [OF ca] show ?thesis
            by (auto simp: unfolds ledger_of_set overlay_inv_set abs_account_def)
        next
          case ov: False
          then have "checked_add (balance r) (pt_value t) = None" by (simp add: checked_add_def)
          with False Some R ov show ?thesis by (simp add: unfolds)
        qed
      qed
    qed
  qed
  then show "map_option ledger_of (attempt_transfer t ov) = spec_transfer t (ledger_of ov)"
    and "attempt_transfer t ov = Some ov' \<Longrightarrow> overlay_inv ov'" by blast+
qed

section \<open>Total supply\<close>

definition total_supply :: "ledger \<Rightarrow> nat" where
  "total_supply L = (\<Sum>k \<in> dom L. fst (the (L k)))"

lemma sum_move:
  fixes f g :: "'k \<Rightarrow> nat"
  assumes "finite A" "s \<in> A" "r \<in> A" "s \<noteq> r"
    and "\<And>k. k \<noteq> s \<Longrightarrow> k \<noteq> r \<Longrightarrow> g k = f k" "g s + v = f s" "g r = f r + v"
  shows "sum g A = sum f A"
proof -
  have split: "sum h A = h s + h r + sum h (A - {s} - {r})" for h :: "'k \<Rightarrow> nat"
    using assms(1-4) sum.remove [of A s h] sum.remove [of "A - {s}" r h] by simp
  have "sum g (A - {s} - {r}) = sum f (A - {s} - {r})"
    by (rule sum.cong) (auto simp: assms(5))
  then show ?thesis using split [of g] split [of f] assms(6,7) by simp
qed

lemma spec_transfer_conserves:
  assumes "finite (dom L)" "spec_transfer t L = Some L'"
  shows "dom L' = dom L \<and> total_supply L' = total_supply L"
proof -
  obtain b C where s: "L (pt_sender t) = Some (b, C)" "unat (pt_value t) \<le> b"
    using assms(2) by (auto simp: spec_transfer_def split: option.splits if_splits prod.splits)
  show ?thesis
  proof (cases "pt_sender t = pt_recipient t")
    case True
    then have L': "L' = L(pt_sender t \<mapsto> (b, spec_consume (unat (pt_nonce t)) C))"
      using assms(2) s by (auto simp: spec_transfer_def split: if_splits)
    then have "dom L' = dom L" using s by auto
    moreover have "total_supply L' = total_supply L"
      unfolding total_supply_def calculation by (rule sum.cong) (auto simp: L' s)
    ultimately show ?thesis by simp
  next
    case False
    then obtain rb rC where r: "L (pt_recipient t) = Some (rb, rC)"
      and L': "L' = L(pt_sender t \<mapsto> (b - unat (pt_value t), spec_consume (unat (pt_nonce t)) C),
        pt_recipient t \<mapsto> (rb + unat (pt_value t), rC))"
      using assms(2) s by (auto simp: spec_transfer_def split: option.splits if_splits prod.splits)
    then have "dom L' = dom L" using s by auto
    moreover have "total_supply L' = total_supply L"
      unfolding total_supply_def calculation
      by (rule sum_move [of _ "pt_sender t" "pt_recipient t" _ _ "unat (pt_value t)"])
        (use assms(1) s r False L' in auto)
    ultimately show ?thesis by simp
  qed
qed

lemma attempt_transfer_dom:
  assumes "overlay_inv ov" "attempt_transfer t ov = Some ov'"
  shows "spec_transfer t (ledger_of ov) = Some (ledger_of ov')"
  using apply_transfer_ok(1) [OF assms(1), of t] assms(2) by simp

lemma finite_ledger: "finite (dom (ledger_of ov))"
proof -
  have "dom (ledger_of ov) \<subseteq> dom (hm_get (ov_writes ov)) \<union> dom (hm_get (ov_base ov))"
    by (auto simp: ledger_of_def overlay_get_def split: option.splits)
  then show ?thesis by (rule finite_subset) (simp add: finite_dom_map_of)
qed

interpretation transfers: conserving_run overlay_inv "\<lambda>_. True" attempt_transfer
  "\<lambda>ov. (dom (ledger_of ov), total_supply (ledger_of ov))"
proof unfold_locales
  fix ov :: overlay and t and ov'
  assume "overlay_inv ov" "attempt_transfer t ov = Some ov'"
  then show "overlay_inv ov'"
    "(dom (ledger_of ov'), total_supply (ledger_of ov')) = (dom (ledger_of ov), total_supply (ledger_of ov))"
    using apply_transfer_ok(2) spec_transfer_conserves [OF finite_ledger attempt_transfer_dom] by blast+
qed

section \<open>What a successful transfer writes\<close>

lemma attempt_transfer_Some:
  assumes "attempt_transfer t ov = Some ov'"
  obtains a n where "overlay_get ov (pt_sender t) = Some a" "pt_value t \<le> balance a"
    "nonce_consume (pt_nonce t) (acct_nonce a) = (True, n)"
    "(pt_sender t = pt_recipient t \<and> ov' = overlay_set (pt_sender t) (a\<lparr>acct_nonce := n\<rparr>) ov) \<or>
     (pt_sender t \<noteq> pt_recipient t \<and>
       (\<exists>r. overlay_get ov (pt_recipient t) = Some r \<and>
         checked_add (balance r) (pt_value t) = Some (balance r + pt_value t) \<and>
         ov' = overlay_set (pt_recipient t) (r\<lparr>balance := balance r + pt_value t\<rparr>)
           (overlay_set (pt_sender t) (a\<lparr>acct_nonce := n, balance := balance a - pt_value t\<rparr>) ov)))"
  using assms
  by (auto simp: attempt_transfer_def apply_transfer_def Let_def not_less checked_add_Some_iff
      split: option.splits if_splits prod.splits)

lemma attempt_transfer_base: "attempt_transfer t ov = Some ov' \<Longrightarrow> ov_base ov' = ov_base ov"
  by (erule attempt_transfer_Some) auto

lemma overlay_set_dom: "dom (hm_get (ov_writes (overlay_set k a ov))) = insert k (dom (hm_get (ov_writes ov)))"
  by (auto simp: overlay_set_def hm_get_insert split: if_splits)

lemma attempt_transfer_writes:
  "attempt_transfer t ov = Some ov' \<Longrightarrow>
    dom (hm_get (ov_writes ov')) = {pt_sender t, pt_recipient t} \<union> dom (hm_get (ov_writes ov))"
  by (erule attempt_transfer_Some) (elim disjE conjE exE; simp add: overlay_set_dom insert_commute)

definition participants :: "prepared_transfer list \<Rightarrow> account_key list" where
  "participants ts = concat (map (\<lambda>t. [pt_sender t, pt_recipient t]) ts)"

lemma strict_base_writes:
  "strict attempt_transfer ts ov = Some ov' \<Longrightarrow>
    ov_base ov' = ov_base ov \<and>
    dom (hm_get (ov_writes ov')) = set (participants ts) \<union> dom (hm_get (ov_writes ov))"
proof (induction ts arbitrary: ov)
  case Nil
  then show ?case by (simp add: participants_def)
next
  case (Cons t ts)
  then obtain ov1 where a: "attempt_transfer t ov = Some ov1" "strict attempt_transfer ts ov1 = Some ov'"
    by (auto split: option.splits)
  from Cons.IH [OF a(2)] attempt_transfer_base [OF a(1)] attempt_transfer_writes [OF a(1)]
  show ?case by (auto simp: participants_def)
qed

section \<open>Nonces are used once\<close>

definition nonce_used :: "overlay \<Rightarrow> account_key \<Rightarrow> u64 \<Rightarrow> bool" where
  "nonce_used ov k n =
    (case overlay_get ov k of None \<Rightarrow> False | Some a \<Rightarrow> nonce_consumed (acct_nonce a) (unat n))"

lemma attempt_transfer_nonce:
  assumes inv: "overlay_inv ov" and a: "attempt_transfer t ov = Some ov'"
  shows "\<not> nonce_used ov (pt_sender t) (pt_nonce t) \<and> nonce_used ov' (pt_sender t) (pt_nonce t) \<and>
    (nonce_used ov k m \<longrightarrow> nonce_used ov' k m)"
proof -
  from a obtain x n where x: "overlay_get ov (pt_sender t) = Some x"
    "nonce_consume (pt_nonce t) (acct_nonce x) = (True, n)"
    and get: "\<And>k. overlay_get ov' k =
      (if k = pt_sender t then Some (x\<lparr>acct_nonce := n, balance :=
          (if pt_sender t = pt_recipient t then balance x else balance x - pt_value t)\<rparr>)
       else if k = pt_recipient t then map_option (\<lambda>r. r\<lparr>balance := balance r + pt_value t\<rparr>)
          (overlay_get ov (pt_recipient t))
       else overlay_get ov k)"
    by (rule attempt_transfer_Some) (auto simp: overlay_get_set)
  have i: "nonce_inv (acct_nonce x)" using inv x by (simp add: overlay_inv_def)
  have "fst (nonce_consume (pt_nonce t) (acct_nonce x))"
    "snd (nonce_consume (pt_nonce t) (acct_nonce x)) = n" using x by simp_all
  then have "\<not> nonce_consumed (acct_nonce x) (unat (pt_nonce t))"
    "nonce_consumed n (unat (pt_nonce t))"
    "\<And>j. nonce_consumed (acct_nonce x) j \<Longrightarrow> nonce_consumed n j"
    using nonce_consume_step(1) [OF i, of "pt_nonce t"] nonce_consume_mem [OF i, of "pt_nonce t"]
      nonce_consume_mono [OF i, of "pt_nonce t"]
    by (auto simp: spec_accepts_def consumed_set_def)
  then show ?thesis
    by (auto simp: nonce_used_def x get split: option.splits)
qed

lemma strict_nonces:
  assumes "overlay_inv ov" "strict attempt_transfer ts ov = Some ov'"
  shows "distinct (map (\<lambda>t. (pt_sender t, pt_nonce t)) ts) \<and>
    (\<forall>t \<in> set ts. \<not> nonce_used ov (pt_sender t) (pt_nonce t))"
  using assms
proof (induction ts arbitrary: ov)
  case (Cons t ts)
  then obtain ov1 where a: "attempt_transfer t ov = Some ov1" "strict attempt_transfer ts ov1 = Some ov'"
    by (auto split: option.splits)
  have IH: "distinct (map (\<lambda>t. (pt_sender t, pt_nonce t)) ts)"
    "\<forall>t \<in> set ts. \<not> nonce_used ov1 (pt_sender t) (pt_nonce t)"
    using Cons.IH [OF transfers.try_inv [OF Cons.prems(1) TrueI a(1)] a(2)] by blast+
  note n = attempt_transfer_nonce [OF Cons.prems(1) a(1)]
  have "(pt_sender t, pt_nonce t) \<notin> (\<lambda>t. (pt_sender t, pt_nonce t)) ` set ts"
    using IH(2) n by auto
  then show ?case using IH n by auto
qed simp

section \<open>Changesets\<close>

text \<open>Accounts after a changeset is written over a state.\<close>

definition after :: "state \<Rightarrow> changeset \<Rightarrow> account_key \<Rightarrow> account option" where
  "after st cs = (\<lambda>k. case map_of cs k of Some a \<Rightarrow> Some a | None \<Rightarrow> hm_get st k)"

lemma map_of_sort_key:
  fixes m :: "('k :: linorder \<times> 'v) list"
  assumes "distinct (map fst m)"
  shows "map_of (sort_key fst m) = map_of m"
proof (rule map_of_inject_set [THEN iffD2])
  show "distinct (map fst m)" by (rule assms)
  have "mset (map fst (sort_key fst m)) = mset (map fst m)" by simp
  then show "distinct (map fst (sort_key fst m))" using assms mset_eq_imp_distinct_iff by blast
qed simp

lemma changeset_props:
  assumes "hm_wf (ov_writes ov)"
  shows "sorted (map fst (into_changeset ov)) \<and> distinct (map fst (into_changeset ov)) \<and>
    set (map fst (into_changeset ov)) = dom (hm_get (ov_writes ov)) \<and>
    map_of (into_changeset ov) = hm_get (ov_writes ov)"
proof -
  have d: "distinct (map fst (ov_writes ov))" using assms by (simp add: hm_wf_def hm_keys_def)
  have "mset (map fst (into_changeset ov)) = mset (map fst (ov_writes ov))"
    by (simp add: into_changeset_def)
  then have "distinct (map fst (into_changeset ov))" using d mset_eq_imp_distinct_iff by blast
  moreover have "sorted (map fst (into_changeset ov))" by (simp add: into_changeset_def)
  ultimately show ?thesis
    using map_of_sort_key [OF d] by (simp add: into_changeset_def dom_map_of_conv_image_fst)
qed

lemma after_changeset:
  "hm_wf (ov_writes ov) \<Longrightarrow> after (ov_base ov) (into_changeset ov) k = overlay_get ov k"
  using changeset_props [of ov] by (simp add: after_def overlay_get_def)

lemma execute_Some:
  assumes "execute st ts = Some cs"
  obtains ov where "strict attempt_transfer ts (overlay_new st) = Some ov" "cs = into_changeset ov"
    "ov_base ov = st" "dom (hm_get (ov_writes ov)) = set (participants ts)"
proof -
  from assms obtain ov where ov: "strict attempt_transfer ts (overlay_new st) = Some ov"
    "cs = into_changeset ov" by (auto simp: execute_def execute_loop_strict)
  from strict_base_writes [OF ov(1)] show thesis
    by (intro that [OF ov]) (auto simp: overlay_new_def)
qed

definition state_supply :: "state \<Rightarrow> nat" where
  "state_supply st = (\<Sum>k \<in> dom (hm_get st). unat (balance (the (hm_get st k))))"

definition supply_after :: "state \<Rightarrow> changeset \<Rightarrow> nat" where
  "supply_after st cs = (\<Sum>k \<in> dom (hm_get st). unat (balance (the (after st cs k))))"

lemma ledger_supply:
  "total_supply (ledger_of ov) = (\<Sum>k \<in> dom (overlay_get ov). unat (balance (the (overlay_get ov k))))"
proof -
  have d: "dom (ledger_of ov) = dom (overlay_get ov)" by (auto simp: ledger_of_def)
  show ?thesis
    unfolding total_supply_def d
    by (rule sum.cong) (auto simp: ledger_of_def abs_account_def)
qed

lemma execute_supply:
  assumes "state_inv st" "execute st ts = Some cs"
  shows "dom (after st cs) = dom (hm_get st) \<and> supply_after st cs = state_supply st"
proof -
  from assms(2) obtain ov where ov: "strict attempt_transfer ts (overlay_new st) = Some ov"
    "cs = into_changeset ov" "ov_base ov = st" by (rule execute_Some)
  have inv: "overlay_inv (overlay_new st)" using assms(1) by simp
  have all: "list_all (\<lambda>_. True) ts" by (simp add: list_all_iff)
  have "overlay_inv ov" by (rule transfers.strict_inv [OF inv all ov(1)])
  then have wf: "hm_wf (ov_writes ov)" by (simp add: overlay_inv_def)
  have "dom (ledger_of ov) = dom (ledger_of (overlay_new st))"
    "total_supply (ledger_of ov) = total_supply (ledger_of (overlay_new st))"
    using transfers.strict_conserves [OF inv all ov(1)] by simp_all
  moreover have "dom (ledger_of x) = dom (overlay_get x)" for x by (auto simp: ledger_of_def)
  moreover have "overlay_get (overlay_new st) = hm_get st" by (rule ext) simp
  moreover have "after st cs = overlay_get ov" using after_changeset [OF wf] ov by auto
  ultimately show ?thesis by (simp add: ledger_supply supply_after_def state_supply_def)
qed

section \<open>The fast path agrees with the general one\<close>

lemma hm_insert_fresh: "k \<notin> dom (hm_get m) \<Longrightarrow> hm_insert k v m = m @ [(k, v)]"
  by (induction m) (auto split: if_splits)

lemma participants_Cons: "participants (t # ts) = pt_sender t # pt_recipient t # participants ts"
  by (simp add: participants_def)

lemma overlay_get_fresh:
  "k \<notin> dom (hm_get (ov_writes ov)) \<Longrightarrow> overlay_get ov k = hm_get (ov_base ov) k"
  by (auto simp: overlay_get_def split: option.splits)

lemma execute_unique_loop_eq:
  assumes "distinct (participants ts)" "set (participants ts) \<inter> dom (hm_get (ov_writes ov)) = {}"
    and "map (hm_get (ov_base ov)) (participants ts) = map Some accounts"
  shows "execute_unique_loop (ov_writes ov) ts accounts = map_option ov_writes (execute_loop ov ts)"
  using assms
proof (induction ts arbitrary: ov accounts)
  case Nil
  then show ?case by (simp add: participants_def)
next
  case (Cons t ts)
  from Cons.prems(3) obtain a r accounts' where acc: "accounts = a # r # accounts'"
    and get: "hm_get (ov_base ov) (pt_sender t) = Some a" "hm_get (ov_base ov) (pt_recipient t) = Some r"
      "map (hm_get (ov_base ov)) (participants ts) = map Some accounts'"
    by (auto simp: participants_Cons map_eq_Cons_conv Cons_eq_map_conv)
  have ne: "pt_sender t \<noteq> pt_recipient t"
    and fresh: "pt_sender t \<notin> dom (hm_get (ov_writes ov))" "pt_recipient t \<notin> dom (hm_get (ov_writes ov))"
    using Cons.prems by (auto simp: participants_Cons)
  note g = overlay_get_fresh [OF fresh(1)] overlay_get_fresh [OF fresh(2)]
  obtain ok n where n: "nonce_consume (pt_nonce t) (acct_nonce a) = (ok, n)" by fastforce
  show ?case
  proof (cases "\<not> balance a < pt_value t \<and> ok \<and> checked_add (balance r) (pt_value t) \<noteq> None")
    case False
    then show ?thesis using ne
      by (auto simp: acc apply_transfer_def g get n Let_def split: option.splits)
  next
    case True
    then obtain rb where rb: "checked_add (balance r) (pt_value t) = Some rb" by auto
    define ov1 where "ov1 = overlay_set (pt_recipient t) (r\<lparr>balance := rb\<rparr>)
      (overlay_set (pt_sender t) (a\<lparr>acct_nonce := n, balance := balance a - pt_value t\<rparr>) ov)"
    have w: "ov_writes ov1 = ov_writes ov @
        [(pt_sender t, a\<lparr>acct_nonce := n, balance := balance a - pt_value t\<rparr>),
         (pt_recipient t, r\<lparr>balance := rb\<rparr>)]"
      using fresh ne hm_insert_fresh [of "pt_sender t" "ov_writes ov"]
        hm_insert_fresh [of "pt_recipient t" "ov_writes ov @ [(pt_sender t, a\<lparr>acct_nonce := n, balance := balance a - pt_value t\<rparr>)]"]
      by (simp add: ov1_def overlay_set_def)
    have "execute_unique_loop (ov_writes ov1) ts accounts' = map_option ov_writes (execute_loop ov1 ts)"
    proof (rule Cons.IH)
      show "distinct (participants ts)" using Cons.prems(1) by (simp add: participants_Cons)
      show "set (participants ts) \<inter> dom (hm_get (ov_writes ov1)) = {}"
        using Cons.prems(1,2) by (auto simp: participants_Cons ov1_def overlay_set_dom)
      show "map (hm_get (ov_base ov1)) (participants ts) = map Some accounts'"
        using get(3) by (simp add: ov1_def)
    qed
    moreover have "execute_loop ov (t # ts) = execute_loop ov1 ts"
      using True ne by (simp add: apply_transfer_def g get n rb Let_def ov1_def)
    moreover have "execute_unique_loop (ov_writes ov) (t # ts) accounts =
        execute_unique_loop (ov_writes ov1) ts accounts'"
      using True by (simp add: acc n rb w)
    ultimately show ?thesis by simp
  qed
qed

section \<open>Proposals\<close>

lemma prepare_loop_eq:
  "prepare_loop c cands bad ts =
    \<lparr>candidates = cands @ map (\<lambda>t. \<lparr>ptx_transaction = t, ptx_transfer = the (prepare_transfer c t)\<rparr>)
        (filter (\<lambda>t. prepare_transfer c t \<noteq> None) ts),
     rejected = bad @ filter (\<lambda>t. prepare_transfer c t = None) ts\<rparr>"
  by (induction ts arbitrary: cands bad) (auto split: option.splits)

lemma mset_partition: "mset (filter P xs) + mset (filter (\<lambda>x. \<not> P x) xs) = mset xs"
  by (induction xs) auto

lemma propose_sift:
  obtains v w ov where
    "sift (\<lambda>p. attempt_transfer (ptx_transfer p)) (candidates (prepare_proposal c ts)) (overlay_new st)
      = (v, w, ov)"
    "propose c st ts =
      \<lparr>valid = map ptx_transaction v,
       invalid = filter (\<lambda>t. prepare_transfer c t = None) ts @ map ptx_transaction w,
       out_changeset = into_changeset ov, transfers = map ptx_transfer v\<rparr>"
proof -
  obtain v w ov where s: "sift (\<lambda>p. attempt_transfer (ptx_transfer p))
      (candidates (prepare_proposal c ts)) (overlay_new st) = (v, w, ov)" by (metis surj_pair)
  show thesis
    using that [OF s] propose_loop_sift [OF s, of "[]" "[]" "filter (\<lambda>t. prepare_transfer c t = None) ts"]
    by (simp add: propose_def propose_prepared_def prepare_proposal_def prepare_loop_eq)
qed

lemma candidates_prepared:
  assumes "p \<in> set (candidates (prepare_proposal c ts))"
  shows "prepare_transfer c (ptx_transaction p) = Some (ptx_transfer p)"
  using assms by (auto simp: prepare_proposal_def prepare_loop_eq)

lemma candidates_transactions:
  "map ptx_transaction (candidates (prepare_proposal c ts)) = filter (\<lambda>t. prepare_transfer c t \<noteq> None) ts"
  by (simp add: prepare_proposal_def prepare_loop_eq o_def)

lemma execute_unique_eq:
  assumes "distinct (participants ts)" "map (hm_get st) (participants ts) = map Some accounts"
    and "length ts * 2 \<le> usize_max"
  shows "execute_unique ts accounts = execute st ts"
proof -
  have "length accounts = length (participants ts)" using assms(2) by (metis length_map)
  also have "\<dots> = length ts * 2" by (induction ts) (auto simp: participants_def)
  finally have "length accounts = saturating_mul_usize (length ts) 2"
    using assms(3) by (simp add: saturating_mul_usize_def)
  moreover have "execute_unique_loop [] ts accounts = map_option ov_writes (execute_loop (overlay_new st) ts)"
    using execute_unique_loop_eq [of ts "overlay_new st" accounts] assms(1,2)
    by (simp add: overlay_new_def)
  ultimately show ?thesis
    by (simp add: execute_unique_def execute_def into_changeset_def [abs_def] option.map_comp o_def)
qed

lemma propose_facts:
  "execute st (transfers (propose c st ts)) = Some (out_changeset (propose c st ts)) \<and>
   map (prepare_transfer c) (valid (propose c st ts)) = map Some (transfers (propose c st ts)) \<and>
   subseq (valid (propose c st ts)) ts \<and>
   mset (valid (propose c st ts)) + mset (invalid (propose c st ts)) = mset ts"
proof -
  let ?cands = "candidates (prepare_proposal c ts)"
  obtain v w ov where s: "sift (\<lambda>p. attempt_transfer (ptx_transfer p)) ?cands (overlay_new st) = (v, w, ov)"
    and p: "propose c st ts =
      \<lparr>valid = map ptx_transaction v,
       invalid = filter (\<lambda>t. prepare_transfer c t = None) ts @ map ptx_transaction w,
       out_changeset = into_changeset ov, transfers = map ptx_transfer v\<rparr>"
    by (rule propose_sift)
  have "strict attempt_transfer (map ptx_transfer v) (overlay_new st) = Some ov"
    using sift_strict [OF s] by (simp add: strict_map)
  moreover have "map (prepare_transfer c) (map ptx_transaction v) = map Some (map ptx_transfer v)"
    using sift_set [OF s] candidates_prepared by (auto simp: o_def)
  moreover have "subseq (map ptx_transaction v) ts"
  proof -
    have "subseq (map ptx_transaction v) (map ptx_transaction ?cands)"
      using sift_subseq [OF s] by (simp add: subseq_map)
    then show ?thesis
      by (metis candidates_transactions subseq_filter_left subseq_order.order_trans)
  qed
  moreover have "mset (map ptx_transaction v) + mset (map ptx_transaction w) =
      mset (filter (\<lambda>t. prepare_transfer c t \<noteq> None) ts)"
    using arg_cong [OF sift_mset [OF s], of "image_mset ptx_transaction"]
      arg_cong [OF candidates_transactions [of c ts], of mset] by simp
  moreover have "mset (filter (\<lambda>t. prepare_transfer c t \<noteq> None) ts) +
      mset (filter (\<lambda>t. prepare_transfer c t = None) ts) = mset ts"
    using mset_partition [of "\<lambda>t. prepare_transfer c t \<noteq> None" ts] by simp
  ultimately have "mset (map ptx_transaction v) +
      mset (filter (\<lambda>t. prepare_transfer c t = None) ts @ map ptx_transaction w) = mset ts"
    by (metis (no_types, lifting) add.assoc add.commute mset_append)
  with \<open>strict attempt_transfer (map ptx_transfer v) (overlay_new st) = Some ov\<close>
    \<open>map (prepare_transfer c) (map ptx_transaction v) = map Some (map ptx_transfer v)\<close>
    \<open>subseq (map ptx_transaction v) ts\<close>
  show ?thesis by (simp only: p proposal_output.simps execute_def execute_loop_strict) simp
qed

section \<open>Execution depends on the participants' accounts only\<close>

lemma attempt_transfer_cong:
  assumes "\<And>k. k \<in> K \<Longrightarrow> overlay_get ov k = overlay_get ov' k" "ov_writes ov = ov_writes ov'"
    and "pt_sender t \<in> K" "pt_recipient t \<in> K"
  shows "rel_option (\<lambda>a b. ov_writes a = ov_writes b \<and> (\<forall>k \<in> K. overlay_get a k = overlay_get b k))
    (attempt_transfer t ov) (attempt_transfer t ov')"
proof -
  have set_w: "ov_writes (overlay_set k a x) = ov_writes (overlay_set k a y)"
    if "ov_writes x = ov_writes y" for k a x y using that by (simp add: overlay_set_def)
  show ?thesis
    using assms
    by (auto simp: attempt_transfer_def apply_transfer_def Let_def overlay_get_set
        intro!: set_w split: option.splits prod.splits)
qed

lemma strict_attempt_cong:
  assumes "\<And>k. k \<in> K \<Longrightarrow> overlay_get ov k = overlay_get ov' k" "ov_writes ov = ov_writes ov'"
    and "set (participants ts) \<subseteq> K"
  shows "map_option ov_writes (strict attempt_transfer ts ov) =
    map_option ov_writes (strict attempt_transfer ts ov')"
  using assms
proof (induction ts arbitrary: ov ov')
  case (Cons t ts)
  have K: "pt_sender t \<in> K" "pt_recipient t \<in> K" "set (participants ts) \<subseteq> K"
    using Cons.prems(3) by (auto simp: participants_Cons)
  note rel = attempt_transfer_cong [of K ov ov' t, OF Cons.prems(1,2) K(1,2)]
  show ?case
  proof (cases "attempt_transfer t ov")
    case None
    with rel show ?thesis by simp
  next
    case (Some a)
    with rel obtain b where "attempt_transfer t ov' = Some b" "ov_writes a = ov_writes b"
      "\<forall>k \<in> K. overlay_get a k = overlay_get b k" by (auto simp: option_rel_Some1)
    with Some Cons.IH [of a b] K(3) show ?thesis by simp
  qed
qed simp

lemma execute_cong:
  assumes "\<And>k. k \<in> set (participants ts) \<Longrightarrow> hm_get st k = hm_get st' k"
  shows "execute st ts = execute st' ts"
proof -
  have "map_option ov_writes (strict attempt_transfer ts (overlay_new st)) =
      map_option ov_writes (strict attempt_transfer ts (overlay_new st'))"
    by (rule strict_attempt_cong [of "set (participants ts)"])
      (use assms in \<open>simp_all add: overlay_new_def overlay_get_def\<close>)
  from arg_cong [OF this, of "map_option (sort_key fst)"] show ?thesis
    by (simp add: execute_def execute_loop_strict into_changeset_def [abs_def] option.map_comp o_def)
qed

section \<open>Properties\<close>

text \<open>C3: A transfer on 64-bit balances and the nonce bitmap implements the transfer of the
  specification, on every branch: it succeeds exactly when the specification does, the accounts
  afterwards stand for the specified ledger, and a rejected transfer leaves the overlay as it
  was.\<close>

theorem transfer_refines_ledger:
  assumes "overlay_inv ov"
  shows "(case apply_transfer t ov of (applied, ov') \<Rightarrow>
      if applied then spec_transfer t (ledger_of ov) = Some (ledger_of ov') \<and> overlay_inv ov'
      else spec_transfer t (ledger_of ov) = None \<and> ov' = ov)"
  using apply_transfer_ok(1) [OF assms, of t] apply_transfer_ok(2) [OF assms, of t]
    apply_transfer_rejected [of t ov]
  by (auto simp: attempt_transfer_def split: prod.splits if_splits)

lemmas executor_eval =
  execute_def apply_transfer_def overlay_get_def overlay_set_def overlay_new_def into_changeset_def
  account_default_def nonce_default_def default_account_balance_def
  nonce_consume_def next_nonce_state_def checked_add_def nonce_bitmap_capacity_def nonce_new_def
  consume_current_nonce_def advance_loop.simps word_le_nat_alt word_less_nat_alt

definition demo_transfer :: "u8 \<Rightarrow> u8 \<Rightarrow> u64 \<Rightarrow> u64 \<Rightarrow> prepared_transfer" where
  "demo_transfer s r v n =
    \<lparr>pt_sender = [s], pt_recipient = [r], pt_value = v, pt_nonce = n, pt_digest = []\<rparr>"

definition demo_state :: state where
  "demo_state = [([1], account_default), ([2], account_default)]"

lemma demo_state_inv [simp]: "state_inv demo_state"
  by (simp add: state_inv_def demo_state_def account_default_def)

theorem transfer_refines_ledger_witness:
  "spec_transfer (demo_transfer 1 2 30 0) (ledger_of (overlay_new demo_state)) \<noteq> None \<and>
   spec_transfer (demo_transfer 1 2 130 0) (ledger_of (overlay_new demo_state)) = None"
proof -
  have "fst (apply_transfer (demo_transfer 1 2 30 0) (overlay_new demo_state))"
    "\<not> fst (apply_transfer (demo_transfer 1 2 130 0) (overlay_new demo_state))"
    by (simp_all add: demo_transfer_def demo_state_def executor_eval)
  then show ?thesis
    using transfer_refines_ledger [OF overlay_inv_new [OF demo_state_inv], of "demo_transfer 1 2 30 0"]
      transfer_refines_ledger [OF overlay_inv_new [OF demo_state_inv], of "demo_transfer 1 2 130 0"]
    by (auto split: prod.splits)
qed



text \<open>C8: No transaction is replayed: in a body that executes no two transfers of one sender
  have the same nonce, and no nonce was consumed by the state before.\<close>

theorem execute_no_replay:
  assumes "state_inv st" "execute st ts = Some cs"
  shows "distinct (map (\<lambda>t. (pt_sender t, pt_nonce t)) ts) \<and>
    (\<forall>t a. t \<in> set ts \<longrightarrow> hm_get st (pt_sender t) = Some a \<longrightarrow>
      \<not> nonce_consumed (acct_nonce a) (unat (pt_nonce t)))"
proof -
  from assms(2) obtain ov where ov: "strict attempt_transfer ts (overlay_new st) = Some ov"
    by (rule execute_Some)
  from strict_nonces [OF overlay_inv_new [OF assms(1)] ov] show ?thesis
    by (auto simp: nonce_used_def)
qed

theorem execute_no_replay_witness:
  "\<exists>cs. execute demo_state [demo_transfer 1 2 30 0, demo_transfer 1 2 5 1] = Some cs \<and>
    distinct (map (\<lambda>t. (pt_sender t, pt_nonce t)) [demo_transfer 1 2 30 0, demo_transfer 1 2 5 1])"
proof -
  have "execute demo_state [demo_transfer 1 2 30 0, demo_transfer 1 2 5 1] \<noteq> None"
    by (simp add: demo_transfer_def demo_state_def executor_eval)
  then obtain cs where "execute demo_state [demo_transfer 1 2 30 0, demo_transfer 1 2 5 1] = Some cs"
    by blast
  then show ?thesis using execute_no_replay [OF demo_state_inv] by blast
qed

text \<open>C9: The fast path is the general path: when all senders and recipients of a body are
  different, executing it on the accounts loaded pairwise gives the same result, rejections
  included, as executing it on the state.\<close>

theorem execute_unique_equiv:
  assumes "distinct (participants ts)" "map (hm_get st) (participants ts) = map Some accounts"
    and "length ts * 2 \<le> usize_max"
  shows "execute_unique ts accounts = execute st ts"
  using assms by (rule execute_unique_eq)

theorem execute_unique_equiv_witness:
  "execute_unique [demo_transfer 1 2 30 0] [account_default, account_default] =
    execute demo_state [demo_transfer 1 2 30 0]"
  by (rule execute_unique_equiv)
    (simp_all add: participants_def demo_transfer_def demo_state_def usize_max_def)

text \<open>What a proposer includes, a verifier accepts: executing the transfers of a proposal
  succeeds and gives the proposal's changeset; the included transactions are a subsequence of the
  input with exactly these transfers, and every input transaction is included or reported
  invalid.\<close>

theorem propose_reexecutes:
  "execute st (transfers (propose c st ts)) = Some (out_changeset (propose c st ts)) \<and>
   map (prepare_transfer c) (valid (propose c st ts)) = map Some (transfers (propose c st ts)) \<and>
   subseq (valid (propose c st ts)) ts \<and>
   mset (valid (propose c st ts)) + mset (invalid (propose c st ts)) = mset ts"
  by (rule propose_facts)

end
