(* ===== verification/Consensus.thy ===== *)
theory Consensus
  imports Block Executor
begin

text \<open>
  The consensus application (\<open>crates/application/src/consensus\<close>): loading account state, executing
  proposals and bodies against the authenticated databases, checking the commitments of a header,
  and the propose, verify, apply and finalize entry points. The databases are QMDB of the
  commonware crates: the record \<open>qmdb\<close> holds the operations the code calls on its batches.
  Clock, randomness and task handles are the fields of \<open>runtime\<close>.
\<close>

section \<open>Environment\<close>

record bounds =
  inactivity_floor :: u64
  total_size :: u64

record ('sb, 'tb, 'sm, 'tm) qmdb =
  get_many :: "'sb \<Rightarrow> account_key list \<Rightarrow> account option list option"
  state_write :: "account_key \<Rightarrow> account option \<Rightarrow> 'sb \<Rightarrow> 'sb"
  txn_append :: "digest \<Rightarrow> 'tb \<Rightarrow> 'tb"
  with_inactivity_floor :: "u64 \<Rightarrow> 'tb \<Rightarrow> 'tb"
  state_merkleize :: "'sb \<Rightarrow> 'sm option"
  txn_merkleize :: "'tb \<Rightarrow> 'tm option"
  state_merkle_root :: "'sm \<Rightarrow> digest"
  state_bounds :: "'sm \<Rightarrow> bounds"
  txn_merkle_root :: "'tm \<Rightarrow> digest"
  txn_bounds :: "'tm \<Rightarrow> bounds"

record runtime =
  now_ms :: u64
  rng_seed :: nat
  signature_task_closed :: bool
  materialize_task_closed :: bool

text \<open>Why a block is refused, and where the code panics.\<close>

datatype reason =
    InvalidTimestamp
  | InvalidSignature
  | SignatureTaskClosed
  | MaterializeTaskClosed
  | MalformedTransaction
  | StaticInvalidTransaction
  | CommitmentMismatch

datatype failure = Reject reason | Panic string

section \<open>Timestamps and ranges\<close>

definition max_block_timestamp_ms :: u64 where
  "max_block_timestamp_ms = 7258118400000"

definition is_valid_child_timestamp :: "u64 \<Rightarrow> u64 \<Rightarrow> bool" where
  "is_valid_child_timestamp parent_ms child_ms \<longleftrightarrow>
    parent_ms < child_ms \<and> child_ms \<le> max_block_timestamp_ms"

definition parent_transactions_inactivity_floor :: "sealed_block \<Rightarrow> u64 option" where
  "parent_transactions_inactivity_floor parent =
    (case checked_sub (range_end (h_transactions_range (b_header (sealed_inner parent))))
        (word_of_nat (length (b_body (sealed_inner parent)))) of
       None \<Rightarrow> None
     | Some e \<Rightarrow> checked_sub e 1)"

text \<open>\<open>non_empty_range!\<close> panics on an empty range.\<close>

definition range_from_bounds :: "bounds \<Rightarrow> (failure, range) result" where
  "range_from_bounds b =
    (if inactivity_floor b < total_size b
     then Ok \<lparr>range_start = inactivity_floor b, range_end = total_size b\<rparr>
     else Err (Panic ''empty range''))"

section \<open>Batches\<close>

definition apply_changeset :: "('sb, 'tb, 'sm, 'tm) qmdb \<Rightarrow> 'sb \<Rightarrow> changeset \<Rightarrow> 'sb" where
  "apply_changeset db batch cs = fold (\<lambda>(k, a) b. state_write db k (Some a) b) cs batch"

definition apply_transaction_digests :: "('sb, 'tb, 'sm, 'tm) qmdb \<Rightarrow> 'tb \<Rightarrow> digest list \<Rightarrow> 'tb" where
  "apply_transaction_digests db batch ds = fold (\<lambda>d b. txn_append db d b) ds batch"

definition finalize_execution ::
    "('sb, 'tb, 'sm, 'tm) qmdb \<Rightarrow> 'sb \<Rightarrow> 'tb \<Rightarrow> ('sm \<times> 'tm) option" where
  "finalize_execution db sb tb =
    (case state_merkleize db sb of
       None \<Rightarrow> None
     | Some sm \<Rightarrow> map_option (\<lambda>tm. (sm, tm)) (txn_merkleize db tb))"

section \<open>Loading accounts\<close>

datatype loaded_state = Unique "account list" | Shared state

definition unwrap_or_default :: "account option \<Rightarrow> account" where
  "unwrap_or_default a = (case a of Some x \<Rightarrow> x | None \<Rightarrow> account_default)"

definition load_accounts ::
    "('sb, 'tb, 'sm, 'tm) qmdb \<Rightarrow> 'sb \<Rightarrow> account_key list \<Rightarrow> state option" where
  "load_accounts db batch ks =
    (if ks = [] then Some []
     else map_option (\<lambda>vs. zip ks (map unwrap_or_default vs)) (get_many db batch ks))"

text \<open>The hash set of keys is iterated in the order of first insertion; Rust leaves the order
  open, and \<open>execute_cong\<close> shows that it does not matter.\<close>

definition load_state ::
    "('sb, 'tb, 'sm, 'tm) qmdb \<Rightarrow> 'sb \<Rightarrow> prepared_transfer list \<Rightarrow> state option" where
  "load_state db batch ts =
    (if ts = [] then Some [] else load_accounts db batch (remdups (participants ts)))"

definition load_execution_state ::
    "('sb, 'tb, 'sm, 'tm) qmdb \<Rightarrow> 'sb \<Rightarrow> prepared_transfer list \<Rightarrow> loaded_state option" where
  "load_execution_state db batch ts =
    (if ts = [] then Some (Unique [])
     else
       let account_keys = participants ts; unique = remdups account_keys in
       if length unique = length account_keys
       then map_option (\<lambda>vs. Unique (map unwrap_or_default vs)) (get_many db batch account_keys)
       else map_option Shared (load_accounts db batch unique))"

definition execute_loaded :: "loaded_state \<Rightarrow> prepared_transfer list \<Rightarrow> changeset option" where
  "execute_loaded st ts =
    (case st of
       Unique accounts \<Rightarrow> execute_unique ts accounts
     | Shared accounts \<Rightarrow> execute accounts ts)"

section \<open>Executing blocks\<close>

record ('sm, 'tm) block_execution =
  ex_state :: 'sm
  ex_transactions :: 'tm
  ex_state_range :: range
  ex_transactions_range :: range
  ex_count :: nat

definition into_merkleized :: "('sm, 'tm) block_execution \<Rightarrow> 'sm \<times> 'tm" where
  "into_merkleized e = (ex_state e, ex_transactions e)"

definition transfer_digests :: "prepared_transfer list \<Rightarrow> digest list" where
  "transfer_digests ts = map pt_digest ts"

definition finalize_child ::
    "('sb, 'tb, 'sm, 'tm) qmdb \<Rightarrow> 'sb \<Rightarrow> 'tb \<Rightarrow> sealed_block \<Rightarrow> nat
      \<Rightarrow> (failure, ('sm, 'tm) block_execution) result" where
  "finalize_child db sb tb parent tx_count =
    bind_res (ok_or (parent_transactions_inactivity_floor parent)
      (Panic ''parent transaction range must include the parent commit'')) (\<lambda>floor.
    bind_res (ok_or (finalize_execution db sb (with_inactivity_floor db floor tb))
      (Panic ''database merkleization must succeed'')) (\<lambda>(sm, tm).
    bind_res (range_from_bounds (state_bounds db sm)) (\<lambda>state_range.
    bind_res (range_from_bounds (txn_bounds db tm)) (\<lambda>transactions_range.
      Ok \<lparr>ex_state = sm, ex_transactions = tm, ex_state_range = state_range,
          ex_transactions_range = transactions_range, ex_count = tx_count\<rparr>))))"

definition execute_proposal ::
    "('sb, 'tb, 'sm, 'tm) qmdb \<Rightarrow> 'sb \<Rightarrow> 'tb \<Rightarrow> sealed_block \<Rightarrow> proposal_input
      \<Rightarrow> prepared_transfer list
      \<Rightarrow> (failure, ('sm, 'tm) block_execution \<times> signed_transaction list) result" where
  "execute_proposal db sb tb parent input candidate_transfers =
    bind_res (ok_or (load_state db sb candidate_transfers)
      (Panic ''proposal state loading must succeed'')) (\<lambda>st.
      let out = propose_prepared st input;
          sb = apply_changeset db sb (out_changeset out);
          tb = apply_transaction_digests db tb (transfer_digests (transfers out))
      in bind_res (finalize_child db sb tb parent (length (valid out))) (\<lambda>e. Ok (e, valid out)))"

definition execute_body ::
    "'x tx_env_scheme \<Rightarrow> ('sb, 'tb, 'sm, 'tm) qmdb \<Rightarrow> 'sb \<Rightarrow> 'tb \<Rightarrow> sealed_block
      \<Rightarrow> lazy_transaction list \<Rightarrow> (failure, ('sm, 'tm) block_execution) result" where
  "execute_body c db sb tb parent body =
    bind_res (ok_or (collect_opt (map (\<lambda>lz. case lazy_get c lz of
          None \<Rightarrow> None | Some t \<Rightarrow> prepare_transfer c t) body))
      (Reject MalformedTransaction)) (\<lambda>ts.
    bind_res (ok_or (load_execution_state db sb ts)
      (Panic ''block state loading must succeed'')) (\<lambda>st.
    bind_res (ok_or (execute_loaded st ts) (Reject StaticInvalidTransaction)) (\<lambda>cs.
      finalize_child db (apply_changeset db sb cs)
        (apply_transaction_digests db tb (transfer_digests ts)) parent (length ts))))"

definition apply_prepared_body ::
    "('sb, 'tb, 'sm, 'tm) qmdb \<Rightarrow> 'sb \<Rightarrow> 'tb \<Rightarrow> u64 \<Rightarrow> prepared_transfer list
      \<Rightarrow> (failure, 'sm \<times> 'tm) result" where
  "apply_prepared_body db sb tb floor ts =
    bind_res (ok_or (load_execution_state db sb ts)
      (Panic ''state loading must succeed for certified apply'')) (\<lambda>st.
    bind_res (ok_or (execute_loaded st ts) (Reject StaticInvalidTransaction)) (\<lambda>cs.
      ok_or (finalize_execution db (apply_changeset db sb cs)
          (with_inactivity_floor db floor
            (apply_transaction_digests db tb (transfer_digests ts))))
        (Reject StaticInvalidTransaction)))"

definition commitments_match ::
    "('sb, 'tb, 'sm, 'tm) qmdb \<Rightarrow> header \<Rightarrow> ('sm, 'tm) block_execution \<Rightarrow> bool" where
  "commitments_match db h e =
    (if state_merkle_root db (ex_state e) \<noteq> h_state_root h then False
     else if ex_state_range e \<noteq> h_state_range h then False
     else if txn_merkle_root db (ex_transactions e) \<noteq> h_transactions_root h then False
     else if ex_transactions_range e \<noteq> h_transactions_range h then False
     else True)"

section \<open>Bodies\<close>

definition verify_signatures ::
    "'x tx_env_scheme \<Rightarrow> runtime \<Rightarrow> bytes \<Rightarrow> lazy_transaction list \<Rightarrow> (failure, unit) result" where
  "verify_signatures c rt namespace body =
    (if signature_task_closed rt then Err (Reject SignatureTaskClosed)
     else case preload_transaction_chunks c body of
       None \<Rightarrow> Err (Reject InvalidSignature)
     | Some txs \<Rightarrow>
         if verify_transaction_batch c namespace (rng_seed rt) txs then Ok ()
         else Err (Reject InvalidSignature))"

definition materialize_body ::
    "'x tx_env_scheme \<Rightarrow> runtime \<Rightarrow> lazy_transaction list
      \<Rightarrow> (failure, signed_transaction list) result" where
  "materialize_body c rt body =
    (if materialize_task_closed rt then Err (Reject MaterializeTaskClosed)
     else ok_or (materialize_transaction_chunks c body) (Reject MalformedTransaction))"

section \<open>Propose, verify, apply\<close>

text \<open>\<open>body\<close> is what the transaction source returned for this parent and context.\<close>

definition propose_child ::
    "'x block_env_scheme \<Rightarrow> ('sb, 'tb, 'sm, 'tm) qmdb \<Rightarrow> runtime \<Rightarrow> simplex_context \<Rightarrow> sealed_block
      \<Rightarrow> 'sb \<times> 'tb \<Rightarrow> signed_transaction list \<Rightarrow> (failure, sealed_block \<times> ('sm \<times> 'tm)) result" where
  "propose_child c db rt ctx parent batches body =
    (let input = prepare_proposal c body;
         candidate_transfers = map ptx_transfer (candidates input) in
     bind_res (execute_proposal db (fst batches) (snd batches) parent input candidate_transfers)
       (\<lambda>(e, body).
         let h = \<lparr>h_context = ctx, h_parent = seal parent,
               h_height = h_height (b_header (sealed_inner parent)) + 1, h_timestamp = now_ms rt,
               h_state_root = state_merkle_root db (ex_state e), h_state_range = ex_state_range e,
               h_transactions_root = txn_merkle_root db (ex_transactions e),
               h_transactions_range = ex_transactions_range e\<rparr>
         in Ok (block_seal c (block_new h body), into_merkleized e)))"

text \<open>The three futures of \<open>try_join!\<close> are the signatures, the execution and the wait for the
  block's timestamp; an error of the signatures is reported before one of the execution.\<close>

definition verify_child ::
    "'x block_env_scheme \<Rightarrow> ('sb, 'tb, 'sm, 'tm) qmdb \<Rightarrow> runtime \<Rightarrow> bytes \<Rightarrow> sealed_block
      \<Rightarrow> sealed_block \<Rightarrow> 'sb \<times> 'tb \<Rightarrow> (failure, 'sm \<times> 'tm) result" where
  "verify_child c db rt namespace block parent batches =
    (let h = b_header (sealed_inner block); body = b_body (sealed_inner block) in
     if \<not> is_valid_child_timestamp (h_timestamp (b_header (sealed_inner parent))) (h_timestamp h)
     then Err (Reject InvalidTimestamp)
     else
       bind_res (verify_signatures c rt namespace body) (\<lambda>_.
       bind_res (execute_body c db (fst batches) (snd batches) parent body) (\<lambda>e.
         if \<not> commitments_match db h e then Err (Reject CommitmentMismatch)
         else Ok (into_merkleized e))))"

text \<open>Every failure of \<open>apply_certified\<close> is a panic in the code.\<close>

definition apply_certified ::
    "'x block_env_scheme \<Rightarrow> ('sb, 'tb, 'sm, 'tm) qmdb \<Rightarrow> runtime \<Rightarrow> sealed_block \<Rightarrow> 'sb \<times> 'tb
      \<Rightarrow> (failure, 'sm \<times> 'tm) result" where
  "apply_certified c db rt block batches =
    bind_res (materialize_body c rt (b_body (sealed_inner block))) (\<lambda>txs.
    bind_res (ok_or (collect_opt (map (prepare_transfer c) txs)) (Reject MalformedTransaction)) (\<lambda>ts.
      apply_prepared_body db (fst batches) (snd batches)
        (range_start (h_transactions_range (b_header (sealed_inner block)))) ts))"

section \<open>The application object\<close>

record application =
  app_namespace :: bytes
  genesis_leader :: bytes
  genesis_parent :: digest
  genesis_state_root :: digest
  genesis_state_range :: range
  genesis_transactions_root :: digest
  genesis_leaf_count :: u64
  prune_cadence_blocks :: u64
  previous_prune_cadence_state_end :: u64
  has_finalized_hook :: bool

definition application_new ::
    "bytes \<Rightarrow> bytes \<Rightarrow> digest \<Rightarrow> digest \<times> range \<Rightarrow> digest \<times> u64 \<Rightarrow> u64 \<Rightarrow> bool \<Rightarrow> application" where
  "application_new namespace leader parent state_target transactions_target cadence hook =
    \<lparr>app_namespace = namespace, genesis_leader = leader, genesis_parent = parent,
     genesis_state_root = fst state_target, genesis_state_range = snd state_target,
     genesis_transactions_root = fst transactions_target,
     genesis_leaf_count = snd transactions_target, prune_cadence_blocks = cadence,
     previous_prune_cadence_state_end = range_end (snd state_target), has_finalized_hook = hook\<rparr>"

definition genesis_block_with_parent ::
    "'x block_env_scheme \<Rightarrow> digest \<Rightarrow> bytes \<Rightarrow> u64 \<times> digest \<Rightarrow> u64 \<Rightarrow> digest \<times> range \<Rightarrow> digest \<times> u64
      \<Rightarrow> sealed_block" where
  "genesis_block_with_parent c empty_digest leader parent timestamp state_target transactions_target =
    block_seal c (block_new
      \<lparr>h_context = \<lparr>ctx_epoch = 0, ctx_view = 0, ctx_leader = leader, ctx_parent_view = fst parent,
         ctx_parent_digest = snd parent\<rparr>,
       h_parent = empty_digest, h_height = 0, h_timestamp = timestamp,
       h_state_root = fst state_target, h_state_range = snd state_target,
       h_transactions_root = fst transactions_target,
       h_transactions_range = \<lparr>range_start = 0, range_end = snd transactions_target\<rparr>\<rparr> [])"

definition genesis_block ::
    "'x block_env_scheme \<Rightarrow> digest \<Rightarrow> digest \<Rightarrow> bytes \<Rightarrow> u64 \<Rightarrow> digest \<times> range \<Rightarrow> digest \<times> u64
      \<Rightarrow> sealed_block" where
  "genesis_block c empty_digest empty_commitment leader timestamp state_target transactions_target =
    genesis_block_with_parent c empty_digest leader (0, empty_commitment) timestamp state_target
      transactions_target"

definition app_genesis :: "'x block_env_scheme \<Rightarrow> digest \<Rightarrow> application \<Rightarrow> sealed_block" where
  "app_genesis c empty_digest app =
    genesis_block_with_parent c empty_digest (genesis_leader app) (0, genesis_parent app) 0
      (genesis_state_root app, genesis_state_range app)
      (genesis_transactions_root app, genesis_leaf_count app)"

definition header_range_to_target :: "digest \<Rightarrow> range \<Rightarrow> digest \<times> u64" where
  "header_range_to_target root r = (root, range_end r)"

definition sync_targets :: "sealed_block \<Rightarrow> (digest \<times> range) \<times> (digest \<times> u64)" where
  "sync_targets b =
    (let h = b_header (sealed_inner b) in
     ((h_state_root h, h_state_range h),
      header_range_to_target (h_transactions_root h) (h_transactions_range h)))"

text \<open>\<open>propose\<close> and \<open>verify\<close> take the blocks they need from the ancestry stream.\<close>

definition app_propose ::
    "'x block_env_scheme \<Rightarrow> ('sb, 'tb, 'sm, 'tm) qmdb \<Rightarrow> runtime \<Rightarrow> simplex_context \<Rightarrow> sealed_block list
      \<Rightarrow> 'sb \<times> 'tb \<Rightarrow> signed_transaction list
      \<Rightarrow> (failure, sealed_block \<times> ('sm \<times> 'tm)) result option" where
  "app_propose c db rt ctx ancestry batches body =
    (case ancestry of
       [] \<Rightarrow> None
     | parent # _ \<Rightarrow> Some (propose_child c db rt ctx parent batches body))"

definition app_verify ::
    "'x block_env_scheme \<Rightarrow> ('sb, 'tb, 'sm, 'tm) qmdb \<Rightarrow> runtime \<Rightarrow> application \<Rightarrow> sealed_block list
      \<Rightarrow> 'sb \<times> 'tb \<Rightarrow> (failure, 'sm \<times> 'tm) result option" where
  "app_verify c db rt app ancestry batches =
    (case ancestry of
       block # parent # _ \<Rightarrow> Some (verify_child c db rt (app_namespace app) block parent batches)
     | _ \<Rightarrow> None)"

definition should_prune_after_finalize :: "application \<Rightarrow> u64 \<Rightarrow> bool" where
  "should_prune_after_finalize app height \<longleftrightarrow> height \<noteq> 0 \<and> height mod prune_cadence_blocks app = 0"

text \<open>What finalization does besides updating the application: the hook, the pruning of blocks
  below a height, and the pruning of the state database to a location.\<close>

datatype finalize_effect = RunHook | PruneBlocks u64 | PruneState u64

definition finalized ::
    "sealed_block \<Rightarrow> u64 \<Rightarrow> application \<Rightarrow> application \<times> finalize_effect list" where
  "finalized b sync_boundary app =
    (let height = h_height (b_header (sealed_inner b));
         hook = (if has_finalized_hook app then [RunHook] else []) in
     if \<not> should_prune_after_finalize app height then (app, hook)
     else
       let cadence = prune_cadence_blocks app;
           prune_height = saturating_sub height cadence;
           state_prune_target = previous_prune_cadence_state_end app;
           app = app\<lparr>previous_prune_cadence_state_end :=
             range_end (h_state_range (b_header (sealed_inner b)))\<rparr>
       in (app, hook @ [PruneBlocks prune_height, PruneState (min state_prune_target sync_boundary)]))"

section \<open>What the databases promise\<close>

text \<open>Reading a batch answers each key from the batch's current contents, and a write replaces
  the value of one key. \<open>view\<close> names the contents.\<close>

definition qmdb_reads :: "('sb, 'tb, 'sm, 'tm) qmdb \<Rightarrow> ('sb \<Rightarrow> account_key \<Rightarrow> account option) \<Rightarrow> bool" where
  "qmdb_reads db view \<longleftrightarrow>
    (\<forall>sb ks. get_many db sb ks = Some (map (view sb) ks)) \<and>
    (\<forall>sb k v. view (state_write db k v sb) = (view sb)(k := v))"

text \<open>The inactivity floor that is set on a transaction batch is the one its bounds report.\<close>

definition qmdb_floor :: "('sb, 'tb, 'sm, 'tm) qmdb \<Rightarrow> bool" where
  "qmdb_floor db \<longleftrightarrow>
    (\<forall>f tb tm. txn_merkleize db (with_inactivity_floor db f tb) = Some tm \<longrightarrow>
      inactivity_floor (txn_bounds db tm) = f)"

section \<open>Both ways of loading state execute alike\<close>

text \<open>The accounts as the code sees them: an absent one is the default account.\<close>

definition accounts_of :: "(account_key \<Rightarrow> account option) \<Rightarrow> account_key list \<Rightarrow> state" where
  "accounts_of v ks = map (\<lambda>k. (k, unwrap_or_default (v k))) ks"

lemma hm_get_accounts_of: "k \<in> set ks \<Longrightarrow> hm_get (accounts_of v ks) k = Some (unwrap_or_default (v k))"
  by (induction ks) (auto simp: accounts_of_def)

lemma load_accounts_eq:
  "qmdb_reads db view \<Longrightarrow> load_accounts db sb ks = Some (accounts_of (view sb) ks)"
  by (simp add: load_accounts_def qmdb_reads_def accounts_of_def zip_map2 o_def)
    (simp add: zip_same_conv_map)

lemma load_state_eq:
  "qmdb_reads db view \<Longrightarrow>
    load_state db sb ts = Some (accounts_of (view sb) (remdups (participants ts)))"
  by (simp add: load_state_def load_accounts_eq) (simp add: participants_def accounts_of_def)

lemma execute_accounts_of:
  "set (participants ts) \<subseteq> set ks \<Longrightarrow> set (participants ts) \<subseteq> set ks' \<Longrightarrow>
    execute (accounts_of v ks) ts = execute (accounts_of v ks') ts"
  by (rule execute_cong) (auto simp: hm_get_accounts_of subset_iff)

lemma execute_loaded_eq:
  assumes db: "qmdb_reads db view" and size: "length ts * 2 \<le> usize_max"
  obtains st where "load_execution_state db sb ts = Some st"
    "execute_loaded st ts = execute (accounts_of (view sb) (participants ts)) ts"
proof (cases "ts = []")
  case True
  then show thesis
    using that [of "Unique []"]
    by (simp add: load_execution_state_def execute_loaded_def execute_unique_def execute_def
        overlay_new_def into_changeset_def saturating_mul_usize_def)
next
  case False
  have get: "get_many db sb ks = Some (map (view sb) ks)" for ks
    using db by (simp add: qmdb_reads_def)
  show thesis
  proof (cases "length (remdups (participants ts)) = length (participants ts)")
    case True
    then have d: "distinct (participants ts)" using length_remdups_eq by auto
    have "execute_unique ts (map (\<lambda>k. unwrap_or_default (view sb k)) (participants ts)) =
        execute (accounts_of (view sb) (participants ts)) ts"
      by (rule execute_unique_eq [OF d _ size]) (simp add: hm_get_accounts_of)
    with True False that show thesis
      by (simp add: load_execution_state_def execute_loaded_def get o_def)
  next
    case dup: False
    have "execute (accounts_of (view sb) (remdups (participants ts))) ts =
        execute (accounts_of (view sb) (participants ts)) ts"
      by (rule execute_accounts_of) auto
    with dup False that show thesis
      by (simp add: load_execution_state_def execute_loaded_def load_accounts_eq [OF db])
  qed
qed

section \<open>Inverting the entry points\<close>

lemma participants_subset: "set xs \<subseteq> set ys \<Longrightarrow> set (participants xs) \<subseteq> set (participants ys)"
  by (auto simp: participants_def)

lemma verify_signatures_Ok:
  assumes "tx_env_ok c"
  shows "verify_signatures c rt ns body = Ok () \<longleftrightarrow>
    \<not> signature_task_closed rt \<and> list_all (lazy_valid c ns) body"
proof -
  have "list_all (lazy_valid c ns) body \<Longrightarrow> list_all (signature_inputs_decode c) body"
    by (auto simp: list_all_iff dest: lazy_valid_decodes)
  then show ?thesis
    by (auto simp: verify_signatures_def preload_eq [OF assms] verify_transaction_batch_iff [OF assms]
        list.pred_map o_def)
qed

lemma commitments_match_iff:
  "commitments_match db h e \<longleftrightarrow>
    state_merkle_root db (ex_state e) = h_state_root h \<and> ex_state_range e = h_state_range h \<and>
    txn_merkle_root db (ex_transactions e) = h_transactions_root h \<and>
    ex_transactions_range e = h_transactions_range h"
  by (simp add: commitments_match_def)

text \<open>The transfers of a lazily encoded body.\<close>

definition body_transfers :: "'x tx_env_scheme \<Rightarrow> lazy_transaction list \<Rightarrow> prepared_transfer list option"
  where
  "body_transfers c body =
    collect_opt (map (\<lambda>lz. case lazy_get c lz of None \<Rightarrow> None | Some t \<Rightarrow> prepare_transfer c t) body)"

lemma execute_body_eq:
  assumes "qmdb_reads db view" "body_transfers c body = Some ts" "length body * 2 \<le> usize_max"
  shows "execute_body c db sb tb parent body =
    bind_res (ok_or (execute (accounts_of (view sb) (participants ts)) ts)
      (Reject StaticInvalidTransaction)) (\<lambda>cs.
      finalize_child db (apply_changeset db sb cs)
        (apply_transaction_digests db tb (transfer_digests ts)) parent (length ts))"
proof -
  have "length ts = length body"
    using assms(2) by (metis body_transfers_def collect_opt_Some_iff length_map)
  then obtain st where "load_execution_state db sb ts = Some st"
    "execute_loaded st ts = execute (accounts_of (view sb) (participants ts)) ts"
    using execute_loaded_eq [OF assms(1), of ts sb] assms(3) by auto
  then show ?thesis
    using assms(2) by (simp add: execute_body_def body_transfers_def)
qed

lemma finalize_child_Ok:
  "finalize_child db sb tb parent n = Ok e \<longleftrightarrow>
    (\<exists>f. parent_transactions_inactivity_floor parent = Some f \<and>
      state_merkleize db sb = Some (ex_state e) \<and>
      txn_merkleize db (with_inactivity_floor db f tb) = Some (ex_transactions e) \<and>
      range_from_bounds (state_bounds db (ex_state e)) = Ok (ex_state_range e) \<and>
      range_from_bounds (txn_bounds db (ex_transactions e)) = Ok (ex_transactions_range e) \<and>
      ex_count e = n)"
  by (cases e) (auto simp: finalize_child_def bind_res_Ok_iff ok_or_Ok_iff finalize_execution_def
      split: option.splits)

lemma range_from_bounds_Ok:
  "range_from_bounds b = Ok r \<Longrightarrow>
    range_start r = inactivity_floor b \<and> range_end r = total_size b \<and> range_start r < range_end r"
  by (auto simp: range_from_bounds_def split: if_splits)

lemma verify_child_Ok:
  assumes "tx_env_ok c" "qmdb_reads db view" "length (b_body (sealed_inner block)) * 2 \<le> usize_max"
    and "verify_child c db rt ns block parent (sb, tb) = Ok mk"
  obtains ts cs e where
    "is_valid_child_timestamp (h_timestamp (b_header (sealed_inner parent)))
      (h_timestamp (b_header (sealed_inner block)))"
    "list_all (lazy_valid c ns) (b_body (sealed_inner block))"
    "body_transfers c (b_body (sealed_inner block)) = Some ts"
    "execute (accounts_of (view sb) (participants ts)) ts = Some cs"
    "finalize_child db (apply_changeset db sb cs)
      (apply_transaction_digests db tb (transfer_digests ts)) parent (length ts) = Ok e"
    "commitments_match db (b_header (sealed_inner block)) e" "mk = into_merkleized e"
proof -
  let ?h = "b_header (sealed_inner block)" and ?body = "b_body (sealed_inner block)"
  from assms(4) obtain e where e: "verify_signatures c rt ns ?body = Ok ()"
    "is_valid_child_timestamp (h_timestamp (b_header (sealed_inner parent))) (h_timestamp ?h)"
    "execute_body c db sb tb parent ?body = Ok e" "commitments_match db ?h e" "mk = into_merkleized e"
    by (auto simp: verify_child_def Let_def bind_res_Ok_iff split: if_splits)
  from e(3) obtain ts where ts: "body_transfers c ?body = Some ts"
    by (auto simp: execute_body_def body_transfers_def bind_res_Ok_iff ok_or_Ok_iff)
  from e(3) obtain cs where "execute (accounts_of (view sb) (participants ts)) ts = Some cs"
    "finalize_child db (apply_changeset db sb cs)
      (apply_transaction_digests db tb (transfer_digests ts)) parent (length ts) = Ok e"
    by (auto simp: execute_body_eq [OF assms(2) ts assms(3)] bind_res_Ok_iff ok_or_Ok_iff)
  with e ts show thesis
    using that verify_signatures_Ok [OF assms(1)] by blast
qed

lemma execute_proposal_eq:
  assumes "qmdb_reads db view"
    and "out = propose c (accounts_of (view sb) (remdups (participants
      (map ptx_transfer (candidates (prepare_proposal c body)))))) body"
  shows "execute_proposal db sb tb parent (prepare_proposal c body)
      (map ptx_transfer (candidates (prepare_proposal c body))) =
    bind_res (finalize_child db (apply_changeset db sb (out_changeset out))
      (apply_transaction_digests db tb (transfer_digests (transfers out))) parent
      (length (valid out))) (\<lambda>e. Ok (e, valid out))"
  by (simp add: assms(2) execute_proposal_def load_state_eq [OF assms(1)] propose_def Let_def)

lemma propose_child_Ok:
  assumes "qmdb_reads db view" "propose_child c db rt ctx parent (sb, tb) body = Ok (blk, mk)"
  obtains out e where
    "out = propose c (accounts_of (view sb) (remdups (participants
        (map ptx_transfer (candidates (prepare_proposal c body)))))) body"
    "finalize_child db (apply_changeset db sb (out_changeset out))
      (apply_transaction_digests db tb (transfer_digests (transfers out))) parent (length (valid out))
      = Ok e"
    "mk = into_merkleized e" "b_body (sealed_inner blk) = map lazy_new (valid out)"
    "h_timestamp (b_header (sealed_inner blk)) = now_ms rt"
    "commitments_match db (b_header (sealed_inner blk)) e"
    "h_height (b_header (sealed_inner blk)) = h_height (b_header (sealed_inner parent)) + 1"
    "h_parent (b_header (sealed_inner blk)) = seal parent"
    "seal blk = header_hash_slow c (b_header (sealed_inner blk))"
proof -
  let ?st = "accounts_of (view sb) (remdups (participants
    (map ptx_transfer (candidates (prepare_proposal c body)))))"
  let ?out = "propose c ?st body"
  note execute_proposal_eq [OF assms(1) refl, of sb tb parent c body]
  with assms(2) obtain e where e: "finalize_child db (apply_changeset db sb (out_changeset ?out))
      (apply_transaction_digests db tb (transfer_digests (transfers ?out))) parent
      (length (valid ?out)) = Ok e"
    and blk: "mk = into_merkleized e" "blk = block_seal c (block_new
      \<lparr>h_context = ctx, h_parent = seal parent,
       h_height = h_height (b_header (sealed_inner parent)) + 1, h_timestamp = now_ms rt,
       h_state_root = state_merkle_root db (ex_state e), h_state_range = ex_state_range e,
       h_transactions_root = txn_merkle_root db (ex_transactions e),
       h_transactions_range = ex_transactions_range e\<rparr> (valid ?out))"
    unfolding propose_child_def Let_def fst_conv snd_conv
    by (auto simp: bind_res_Ok_iff)
  show thesis
    by (rule that [OF refl e])
      (simp_all add: blk block_seal_def block_new_def sealed_new_unchecked_def commitments_match_iff)
qed

lemma transfers_participants:
  "set (participants (transfers (propose c st ts))) \<subseteq>
    set (participants (map ptx_transfer (candidates (prepare_proposal c ts))))"
proof -
  obtain v w ov where s: "sift (\<lambda>p. attempt_transfer (ptx_transfer p))
      (candidates (prepare_proposal c ts)) (overlay_new st) = (v, w, ov)"
    and p: "transfers (propose c st ts) = map ptx_transfer v"
    by (rule propose_sift [of c ts st]) auto
  from sift_set [OF s] show ?thesis unfolding p by (intro participants_subset) auto
qed

section \<open>Proposals verify\<close>

lemma proposal_verifies_aux:
  assumes env: "block_env_ok c" and db: "qmdb_reads db view"
    and made: "propose_child c db rt ctx parent (sb, tb) body = Ok (blk, mk)"
    and time: "is_valid_child_timestamp (h_timestamp (b_header (sealed_inner parent))) (now_ms rt)"
    and sigs: "list_all (\<lambda>t. lazy_valid c ns (lazy_new t)) body"
    and task: "\<not> signature_task_closed rt'" and size: "length body * 2 \<le> usize_max"
  shows "verify_child c db rt' ns blk parent (sb, tb) = Ok mk"
proof -
  from propose_child_Ok [OF db made] obtain out e where
    out: "out = propose c (accounts_of (view sb) (remdups (participants
        (map ptx_transfer (candidates (prepare_proposal c body)))))) body" and
    e: "finalize_child db (apply_changeset db sb (out_changeset out))
      (apply_transaction_digests db tb (transfer_digests (transfers out))) parent (length (valid out))
      = Ok e" and
    blk: "mk = into_merkleized e" "b_body (sealed_inner blk) = map lazy_new (valid out)"
      "h_timestamp (b_header (sealed_inner blk)) = now_ms rt"
      "commitments_match db (b_header (sealed_inner blk)) e" by metis
  note facts = propose_facts [of "accounts_of (view sb) (remdups (participants
      (map ptx_transfer (candidates (prepare_proposal c body)))))" c body, folded out]
  have prep: "map (prepare_transfer c) (valid out) = map Some (transfers out)" using facts by blast
  have len: "length (valid out) = length (transfers out)" using prep by (metis length_map)
  have sub: "set (valid out) \<subseteq> set body" "length (valid out) \<le> length body"
    using facts by (auto dest: list_emb_set list_emb_length)
  have trs: "body_transfers c (b_body (sealed_inner blk)) = Some (transfers out)"
    using prep by (simp add: body_transfers_def blk(2) o_def collect_opt_Some_iff)
  have "execute (accounts_of (view sb) (participants (transfers out))) (transfers out) =
      execute (accounts_of (view sb) (remdups (participants
        (map ptx_transfer (candidates (prepare_proposal c body)))))) (transfers out)"
    by (rule execute_accounts_of) (use transfers_participants [of c _ body] out in auto)
  also have "\<dots> = Some (out_changeset out)" using facts by blast
  finally have "execute (accounts_of (view sb) (participants (transfers out))) (transfers out) =
      Some (out_changeset out)" .
  then have "execute_body c db sb tb parent (b_body (sealed_inner blk)) = Ok e"
    using e len sub(2) size by (subst execute_body_eq [OF db trs]) (simp_all add: blk(2))
  moreover have "verify_signatures c rt' ns (b_body (sealed_inner blk)) = Ok ()"
    using sigs sub(1) task verify_signatures_Ok [of c rt' ns] env
    by (auto simp: blk(2) list_all_iff)
  ultimately show ?thesis
    using time blk by (simp add: verify_child_def)
qed

lemma verify_apply_aux:
  assumes "tx_env_ok c" "qmdb_reads db view" "qmdb_floor db"
    and size: "length (b_body (sealed_inner block)) * 2 \<le> usize_max"
    and ver: "verify_child c db rt ns block parent (sb, tb) = Ok mk"
    and task: "\<not> materialize_task_closed rt'"
  shows "apply_certified c db rt' block (sb, tb) = Ok mk"
proof -
  from verify_child_Ok [OF assms(1,2) size ver] obtain ts cs e where
    v: "list_all (lazy_valid c ns) (b_body (sealed_inner block))"
      "body_transfers c (b_body (sealed_inner block)) = Some ts"
      "execute (accounts_of (view sb) (participants ts)) ts = Some cs"
    and fin: "finalize_child db (apply_changeset db sb cs)
      (apply_transaction_digests db tb (transfer_digests ts)) parent (length ts) = Ok e"
    and com: "commitments_match db (b_header (sealed_inner block)) e" and mk: "mk = into_merkleized e"
    by metis
  let ?body = "b_body (sealed_inner block)"
  have dec: "map (lazy_get c) ?body = map (\<lambda>lz. Some (the (lazy_get c lz))) ?body"
    using v(1) lazy_valid_decodes by (fastforce simp: list_all_iff)
  then have mat: "materialize_body c rt' ?body = Ok (map (\<lambda>lz. the (lazy_get c lz)) ?body)"
    using task by (simp add: materialize_body_def materialize_eq [OF assms(1)] del: map_eq_conv)
  have "map (\<lambda>lz. case lazy_get c lz of None \<Rightarrow> None | Some t \<Rightarrow> prepare_transfer c t) ?body =
      map (\<lambda>lz. prepare_transfer c (the (lazy_get c lz))) ?body"
    using v(1) by (auto simp: list_all_iff dest!: lazy_valid_decodes)
  with v(2) have col: "collect_opt (map (prepare_transfer c) (map (\<lambda>lz. the (lazy_get c lz)) ?body)) = Some ts"
    by (simp add: body_transfers_def o_def)
  have "length ts * 2 \<le> usize_max"
    using v(2) size by (metis body_transfers_def collect_opt_Some_iff length_map)
  then obtain st where st: "load_execution_state db sb ts = Some st" "execute_loaded st ts = Some cs"
    using execute_loaded_eq [OF assms(2), of ts sb] v(3) by metis
  from fin obtain f where f: "state_merkleize db (apply_changeset db sb cs) = Some (ex_state e)"
    "txn_merkleize db (with_inactivity_floor db f
      (apply_transaction_digests db tb (transfer_digests ts))) = Some (ex_transactions e)"
    "range_from_bounds (txn_bounds db (ex_transactions e)) = Ok (ex_transactions_range e)"
    by (auto simp: finalize_child_Ok)
  from f(2) assms(3) have "inactivity_floor (txn_bounds db (ex_transactions e)) = f"
    by (simp add: qmdb_floor_def)
  with range_from_bounds_Ok [OF f(3)] have "range_start (ex_transactions_range e) = f" by simp
  with com have "range_start (h_transactions_range (b_header (sealed_inner block))) = f"
    by (simp add: commitments_match_iff)
  with f st mat col mk show ?thesis
    by (simp add: apply_certified_def apply_prepared_body_def finalize_execution_def
        into_merkleized_def)
qed

section \<open>Writing a changeset\<close>

lemma apply_changeset_view:
  assumes "qmdb_reads db view" "distinct (map fst cs)"
  shows "view (apply_changeset db sb cs) k = (case map_of cs k of Some a \<Rightarrow> Some a | None \<Rightarrow> view sb k)"
  using assms(2)
proof (induction cs arbitrary: sb)
  case Nil
  show ?case by (simp add: apply_changeset_def)
next
  case (Cons x cs)
  have w: "view (state_write db k' v s) = (view s)(k' := v)" for k' v s
    using assms(1) by (simp add: qmdb_reads_def)
  obtain k' a where x: "x = (k', a)" by (cases x)
  with Cons.prems have "map_of cs k' = None" by (simp add: map_of_eq_None_iff)
  with Cons.IH [of "state_write db k' (Some a) sb"] Cons.prems x show ?case
    by (cases "k = k'") (simp_all add: apply_changeset_def w split: option.splits)
qed

text \<open>The balance the chain attributes to a key: an absent account counts as the default one.\<close>

definition effective :: "(account_key \<Rightarrow> account option) \<Rightarrow> account_key \<Rightarrow> account" where
  "effective v k = unwrap_or_default (v k)"

definition view_inv :: "(account_key \<Rightarrow> account option) \<Rightarrow> bool" where
  "view_inv v \<longleftrightarrow> (\<forall>k. nonce_inv (acct_nonce (effective v k)))"

lemma state_inv_accounts_of: "view_inv v \<Longrightarrow> state_inv (accounts_of v ks)"
  by (auto simp: state_inv_def view_inv_def effective_def accounts_of_def dest!: map_of_SomeD)

lemma accounts_of_dom: "dom (hm_get (accounts_of v ks)) = set ks"
  by (auto simp: accounts_of_def dom_map_of_conv_image_fst image_image)

lemma execute_effective:
  assumes "view_inv v" "execute (accounts_of v (participants ts)) ts = Some cs"
    and "finite K" "set (participants ts) \<subseteq> K"
    and after: "\<And>k. v' k = (case map_of cs k of Some a \<Rightarrow> Some a | None \<Rightarrow> v k)"
  shows "(\<Sum>k \<in> K. unat (balance (effective v' k))) = (\<Sum>k \<in> K. unat (balance (effective v k)))"
    and "view_inv v'" and "\<And>k. k \<notin> set (participants ts) \<Longrightarrow> v' k = v k"
proof -
  obtain ks where ks: "set ks = K" using finite_list [OF assms(3)] by blast
  let ?st = "accounts_of v ks"
  have ex: "execute ?st ts = Some cs"
    using assms(2,4) execute_accounts_of [of ts ks "participants ts" v] ks by simp
  note inv = state_inv_accounts_of [OF assms(1), of ks]
  from ex obtain ov where ov: "strict attempt_transfer ts (overlay_new ?st) = Some ov"
    "cs = into_changeset ov" "ov_base ov = ?st" "dom (hm_get (ov_writes ov)) = set (participants ts)"
    by (rule execute_Some)
  have oinv: "overlay_inv ov"
    by (rule transfers.strict_inv [OF overlay_inv_new [OF inv] _ ov(1)]) (simp add: list_all_iff)
  then have wf: "hm_wf (ov_writes ov)" by (simp add: overlay_inv_def)
  have eff: "Executor.after ?st cs k = Some (effective v' k)" if "k \<in> K" for k
    using that ks by (auto simp: Executor.after_def after effective_def hm_get_accounts_of
        unwrap_or_default_def split: option.splits)
  have old: "hm_get ?st k = Some (effective v k)" if "k \<in> K" for k
    using that ks by (simp add: hm_get_accounts_of effective_def)
  have "supply_after ?st cs = state_supply ?st" using execute_supply [OF inv ex] by blast
  moreover have "supply_after ?st cs = (\<Sum>k \<in> K. unat (balance (effective v' k)))"
    unfolding supply_after_def accounts_of_dom ks by (rule sum.cong) (simp_all add: eff)
  moreover have "state_supply ?st = (\<Sum>k \<in> K. unat (balance (effective v k)))"
    unfolding state_supply_def accounts_of_dom ks by (rule sum.cong) (simp_all add: old)
  ultimately show "(\<Sum>k \<in> K. unat (balance (effective v' k))) = (\<Sum>k \<in> K. unat (balance (effective v k)))"
    by simp
  have cs: "map_of cs = hm_get (ov_writes ov)" using changeset_props [OF wf] ov(2) by simp
  then show "v' k = v k" if "k \<notin> set (participants ts)" for k
    using that ov(4) by (auto simp: after split: option.splits)
  have "nonce_inv (acct_nonce (effective v' k))" for k
  proof (cases "map_of cs k")
    case None
    then show ?thesis using assms(1) by (simp add: view_inv_def effective_def after)
  next
    case (Some a)
    then have "overlay_get ov k = Some a" by (simp add: overlay_get_def cs)
    with oinv Some show ?thesis
      by (simp add: overlay_inv_def effective_def after unwrap_or_default_def)
  qed
  then show "view_inv v'" by (simp add: view_inv_def)
qed

section \<open>A database that satisfies the laws\<close>

type_synonym demo_state_batch = "(account_key \<times> account option) list"
type_synonym demo_txn_batch = "u64 \<times> digest list \<times> u64"

text \<open>The state is its log of writes, latest first; the transaction history is its size, the
  digests appended and the floor, and merkleizing appends the commit operation.\<close>

definition demo_db :: "(demo_state_batch, demo_txn_batch, demo_state_batch, demo_txn_batch) qmdb" where
  "demo_db =
    \<lparr>get_many = (\<lambda>sb ks. Some (map (\<lambda>k. Option.bind (map_of sb k) id) ks)),
     state_write = (\<lambda>k v sb. (k, v) # sb),
     txn_append = (\<lambda>d (n, ds, f). (n + 1, ds @ [d], f)),
     with_inactivity_floor = (\<lambda>f (n, ds, _). (n, ds, f)),
     state_merkleize = Some,
     txn_merkleize = (\<lambda>(n, ds, f). Some (n + 1, ds, f)),
     state_merkle_root = (\<lambda>sb. concat (map fst sb)),
     state_bounds = (\<lambda>sb. \<lparr>inactivity_floor = 0, total_size = 1\<rparr>),
     txn_merkle_root = (\<lambda>(n, ds, f). concat ds),
     txn_bounds = (\<lambda>(n, ds, f). \<lparr>inactivity_floor = f, total_size = n\<rparr>)\<rparr>"

definition demo_view :: "demo_state_batch \<Rightarrow> account_key \<Rightarrow> account option" where
  "demo_view sb k = Option.bind (map_of sb k) id"

lemma qmdb_reads_demo [simp]: "qmdb_reads demo_db demo_view"
  by (auto simp: qmdb_reads_def demo_db_def demo_view_def fun_eq_iff)

lemma qmdb_floor_demo [simp]: "qmdb_floor demo_db"
  by (auto simp: qmdb_floor_def demo_db_def split: prod.splits)

definition demo_parent :: sealed_block where
  "demo_parent = block_seal demo_block_env (block_new (demo_header 4 1000) [])"

definition demo_runtime :: runtime where
  "demo_runtime = \<lparr>now_ms = 2000, rng_seed = 0, signature_task_closed = False,
    materialize_task_closed = False\<rparr>"

lemma demo_parent_floor: "parent_transactions_inactivity_floor demo_parent = Some 3"
  by (simp add: parent_transactions_inactivity_floor_def demo_parent_def block_seal_def
      sealed_new_unchecked_def block_new_def demo_header_def checked_sub_def)

definition demo_proposal where
  "demo_proposal = propose_child demo_block_env demo_db demo_runtime (h_context (demo_header 5 0))
    demo_parent ([], (4, [], 0)) [demo_signed 7 8 50 0]"

lemma demo_prepare:
  "prepare_transfer demo_block_env (demo_signed a b v n) =
    Some \<lparr>pt_sender = replicate 32 a, pt_recipient = replicate 32 b, pt_value = v,
      pt_nonce = n, pt_digest = message_digest (demo_signed a b v n)\<rparr>"
  by (simp add: prepare_transfer_def account_key_from_sender_def demo_signed_value
      account_key_from_public_key_bytes_def pk_write_def pk_ed25519_def public_key_size_def
      account_key_size_def ed25519_scheme_def)

lemma demo_apply:
  assumes "k \<noteq> k'" "pt_sender t = k" "pt_recipient t = k'" "pt_value t = 50" "pt_nonce t = 0"
  shows "fst (apply_transfer t (overlay_new [(k, account_default), (k', account_default)]))"
  using assms
  by (simp add: apply_transfer_def overlay_get_def overlay_new_def account_default_def
      default_account_balance_def nonce_default_def nonce_eval)

lemma demo_propose:
  "valid (propose demo_block_env (accounts_of (demo_view []) [replicate 32 7, replicate 32 8])
    [demo_signed 7 8 50 0]) = [demo_signed 7 8 50 0]"
proof -
  define k k' :: bytes where "k = replicate 32 7" and "k' = replicate 32 8"
  have "k \<noteq> k'" by (simp add: k_def k'_def)
  let ?t = "\<lparr>pt_sender = k, pt_recipient = k', pt_value = 50, pt_nonce = 0,
    pt_digest = message_digest (demo_signed 7 8 50 0)\<rparr>"
  have p: "prepare_transfer demo_block_env (demo_signed 7 8 50 0) = Some ?t"
    by (simp only: demo_prepare k_def k'_def)
  have "fst (apply_transfer ?t (overlay_new [(k, account_default), (k', account_default)]))"
    by (rule demo_apply [OF \<open>k \<noteq> k'\<close>]) simp_all
  then show ?thesis
    unfolding k_def [symmetric] k'_def [symmetric]
    by (auto simp: propose_def propose_prepared_def prepare_proposal_def p accounts_of_def
        demo_view_def unwrap_or_default_def split: prod.splits)
qed

lemma demo_digests:
  "apply_transaction_digests demo_db (n, ds, f) xs = (n + word_of_nat (length xs), ds @ xs, f)"
  by (induction xs arbitrary: n ds) (simp_all add: apply_transaction_digests_def demo_db_def)

lemma demo_proposal_Ok:
  obtains blk mk where "demo_proposal = Ok (blk, mk)"
    "b_body (sealed_inner blk) = [lazy_new (demo_signed 7 8 50 0)]"
proof -
  let ?st = "accounts_of (demo_view []) [replicate 32 7, replicate 32 8]"
  let ?out = "propose demo_block_env ?st [demo_signed 7 8 50 0]"
  have "map (prepare_transfer demo_block_env) (valid ?out) = map Some (transfers ?out)"
    using propose_facts [of ?st demo_block_env "[demo_signed 7 8 50 0]"] by blast
  from arg_cong [OF this, of length] have len: "length (transfers ?out) = 1"
    by (simp only: length_map demo_propose) simp
  have ks: "remdups (participants (map ptx_transfer (candidates
      (prepare_proposal demo_block_env [demo_signed 7 8 50 0])))) = [replicate 32 7, replicate 32 8]"
    by (simp add: prepare_proposal_def demo_prepare participants_def)
  obtain ds where ds: "transfer_digests (transfers ?out) = [ds]"
    using len by (auto simp: transfer_digests_def length_Suc_conv)
  have "finalize_execution demo_db sb (with_inactivity_floor demo_db 3 (5, [ds], 0)) =
      Some (sb, (6, [ds], 3))" for sb
    by (simp add: finalize_execution_def demo_db_def)
  moreover have "range_from_bounds (state_bounds demo_db sb) = Ok \<lparr>range_start = 0, range_end = 1\<rparr>"
    "range_from_bounds (txn_bounds demo_db (6, [ds], 3)) = Ok \<lparr>range_start = 3, range_end = 6\<rparr>" for sb
    by (simp_all add: range_from_bounds_def demo_db_def)
  ultimately have fin: "finalize_child demo_db sb (5, [ds], 0) demo_parent 1 =
      Ok \<lparr>ex_state = sb, ex_transactions = (6, [ds], 3),
        ex_state_range = \<lparr>range_start = 0, range_end = 1\<rparr>,
        ex_transactions_range = \<lparr>range_start = 3, range_end = 6\<rparr>, ex_count = 1\<rparr>" for sb
    by (simp add: finalize_child_def demo_parent_floor)
  have tb: "apply_transaction_digests demo_db (4, [], 0) [ds] = (5, [ds], 0)"
    by (simp add: demo_digests)
  have "execute_proposal demo_db [] (4, [], 0) demo_parent
      (prepare_proposal demo_block_env [demo_signed 7 8 50 0])
      (map ptx_transfer (candidates (prepare_proposal demo_block_env [demo_signed 7 8 50 0]))) =
    bind_res (finalize_child demo_db (apply_changeset demo_db [] (out_changeset ?out))
      (5, [ds], 0) demo_parent 1) (\<lambda>e. Ok (e, [demo_signed 7 8 50 0]))"
    using execute_proposal_eq [OF qmdb_reads_demo refl, of "[]" "(4, [], 0)" demo_parent demo_block_env
        "[demo_signed 7 8 50 0]"]
    unfolding ks ds tb demo_propose by simp
  then have "\<exists>blk mk. demo_proposal = Ok (blk, mk) \<and>
      b_body (sealed_inner blk) = [lazy_new (demo_signed 7 8 50 0)]"
    unfolding demo_proposal_def propose_child_def Let_def fst_conv snd_conv fin
    by (simp add: block_seal_def block_new_def sealed_new_unchecked_def into_merkleized_def)
  then show thesis using that by blast
qed

section \<open>Pruning\<close>

text \<open>A finalized chain: the blocks of heights \<open>1\<close> to \<open>n\<close> in order, each with the sync boundary
  the state database reports when it is finalized.\<close>

definition heights_from_one :: "(sealed_block \<times> u64) list \<Rightarrow> bool" where
  "heights_from_one bs \<longleftrightarrow>
    (\<forall>i < length bs. unat (h_height (b_header (sealed_inner (fst (bs ! i))))) = i + 1)"

definition finalize_run :: "(sealed_block \<times> u64) list \<Rightarrow> application \<Rightarrow> application" where
  "finalize_run bs app = fold (\<lambda>(b, s) a. fst (finalized b s a)) bs app"

definition state_end_at :: "application \<Rightarrow> (sealed_block \<times> u64) list \<Rightarrow> nat \<Rightarrow> u64" where
  "state_end_at app bs n =
    (if n = 0 then previous_prune_cadence_state_end app
     else range_end (h_state_range (b_header (sealed_inner (fst (bs ! (n - 1)))))))"

lemma state_end_at_append: "n \<le> length bs \<Longrightarrow> state_end_at app (bs @ [x]) n = state_end_at app bs n"
  by (auto simp: state_end_at_def nth_append)

lemma finalized_cadence [simp]:
  "prune_cadence_blocks (fst (finalized b s app)) = prune_cadence_blocks app"
  by (simp add: finalized_def Let_def)

lemma finalize_run_snoc:
  "finalize_run (bs @ [(b, s)]) app = fst (finalized b s (finalize_run bs app))"
  by (simp add: finalize_run_def)

lemma finalize_run_cadence [simp]:
  "prune_cadence_blocks (finalize_run bs app) = prune_cadence_blocks app"
proof (induction bs rule: rev_induct)
  case (snoc x bs)
  then show ?case by (cases x) (simp add: finalize_run_snoc)
qed (simp add: finalize_run_def)

lemma heights_snoc:
  assumes "heights_from_one (bs @ [(b, s)])"
  shows "heights_from_one bs"
    and "unat (h_height (b_header (sealed_inner b))) = length bs + 1"
proof -
  show "heights_from_one bs"
    unfolding heights_from_one_def
  proof (intro allI impI)
    fix i
    assume "i < length bs"
    with assms show "unat (h_height (b_header (sealed_inner (fst (bs ! i))))) = i + 1"
      unfolding heights_from_one_def by (metis length_append_singleton less_SucI nth_append)
  qed
  show "unat (h_height (b_header (sealed_inner b))) = length bs + 1"
    using assms unfolding heights_from_one_def by (auto dest!: spec [of _ "length bs"])
qed

lemma should_prune_iff:
  assumes "prune_cadence_blocks app \<noteq> 0"
  shows "should_prune_after_finalize app h \<longleftrightarrow>
    unat h \<noteq> 0 \<and> unat h mod unat (prune_cadence_blocks app) = 0"
proof -
  have "h mod prune_cadence_blocks app = 0 \<longleftrightarrow> unat h mod unat (prune_cadence_blocks app) = 0"
    by (metis unat_0 unat_mod word_unat_eq_iff)
  then show ?thesis by (simp add: should_prune_after_finalize_def unat_eq_0)
qed

lemma div_step: "0 < k \<Longrightarrow> (n + 1) mod k \<noteq> 0 \<Longrightarrow> (n + 1) div k * k = n div k * k" for k n :: nat
  by (simp add: div_Suc split: if_splits)

lemma finalize_run_previous:
  assumes "prune_cadence_blocks app \<noteq> 0" "heights_from_one bs"
  shows "previous_prune_cadence_state_end (finalize_run bs app) =
    state_end_at app bs (length bs div unat (prune_cadence_blocks app) * unat (prune_cadence_blocks app))"
  using assms(2)
proof (induction bs rule: rev_induct)
  case Nil
  show ?case by (simp add: finalize_run_def state_end_at_def)
next
  case (snoc x bs)
  obtain b s where x: "x = (b, s)" by (cases x)
  let ?k = "unat (prune_cadence_blocks app)"
  have k: "0 < ?k" using assms(1) by (simp add: unat_gt_0)
  note h = heights_snoc [of bs b s]
  from snoc x have ih: "previous_prune_cadence_state_end (finalize_run bs app) =
      state_end_at app bs (length bs div ?k * ?k)" and hb: "unat (h_height (b_header (sealed_inner b))) = length bs + 1"
    using h by simp_all
  have c: "prune_cadence_blocks (finalize_run bs app) \<noteq> 0" using assms(1) by simp
  show ?case
  proof (cases "(length bs + 1) mod ?k = 0")
    case True
    then have "(length bs + 1) div ?k * ?k = length bs + 1" by (metis add.right_neutral div_mult_mod_eq)
    with True hb c show ?thesis
      by (simp add: x finalize_run_snoc finalized_def should_prune_iff [OF c] state_end_at_def)
  next
    case False
    have "length bs div ?k * ?k \<le> length bs" by (rule div_times_less_eq_dividend)
    then have "state_end_at app (bs @ [(b, s)]) (length bs div ?k * ?k) =
        state_end_at app bs (length bs div ?k * ?k)"
      by (rule state_end_at_append)
    moreover have "length (bs @ [x]) div ?k * ?k = length bs div ?k * ?k"
      using div_step [OF k False] by simp
    moreover have "finalize_run (bs @ [x]) app = finalize_run bs app"
      using False hb by (simp add: x finalize_run_snoc finalized_def should_prune_iff [OF c])
    ultimately show ?thesis using ih by (simp only: x)
  qed
qed

section \<open>Properties\<close>

text \<open>C2: What a leader proposes, every validator with the same parent and databases accepts:
  verifying the proposed block succeeds and gives the same merkleized databases, provided the
  clock of the proposer is after the parent's timestamp and not past the cutoff, and the
  transactions taken from the pool carry valid signatures.\<close>

theorem proposal_verifies:
  assumes "block_env_ok c" "qmdb_reads db view"
    and "propose_child c db rt ctx parent (sb, tb) body = Ok (blk, mk)"
    and "is_valid_child_timestamp (h_timestamp (b_header (sealed_inner parent))) (now_ms rt)"
    and "list_all (\<lambda>t. lazy_valid c ns (lazy_new t)) body"
    and "\<not> signature_task_closed rt'" "length body * 2 \<le> usize_max"
  shows "verify_child c db rt' ns blk parent (sb, tb) = Ok mk"
  using assms by (rule proposal_verifies_aux)

theorem proposal_verifies_witness:
  "\<exists>blk mk. demo_proposal = Ok (blk, mk) \<and>
    verify_child demo_block_env demo_db demo_runtime [] blk demo_parent ([], (4, [], 0)) = Ok mk"
proof -
  obtain blk mk where p: "demo_proposal = Ok (blk, mk)" by (rule demo_proposal_Ok)
  have "verify_child demo_block_env demo_db demo_runtime [] blk demo_parent ([], (4, [], 0)) = Ok mk"
  proof (rule proposal_verifies [OF block_env_ok_demo qmdb_reads_demo p [unfolded demo_proposal_def]])
    show "is_valid_child_timestamp (h_timestamp (b_header (sealed_inner demo_parent))) (now_ms demo_runtime)"
      by (simp add: is_valid_child_timestamp_def demo_parent_def block_seal_def block_new_def
          sealed_new_unchecked_def demo_header_def demo_runtime_def max_block_timestamp_ms_def)
  qed (simp_all add: demo_body_valid demo_runtime_def usize_max_def)
  with p show ?thesis by blast
qed

text \<open>C6: A verified block is sound: its timestamp is after the parent's and not past the cutoff,
  every transaction decodes and carries a valid signature of its sender, the transfers execute on
  the accounts of the batch, and the header commits to the databases that result: the state with
  exactly the executed writes, the history with the digests of exactly these transactions.\<close>

theorem verified_block_sound:
  assumes "tx_env_ok c" "qmdb_reads db view" "length (b_body (sealed_inner block)) * 2 \<le> usize_max"
    and "verify_child c db rt ns block parent (sb, tb) = Ok mk"
  shows "\<exists>ts cs floor.
    h_timestamp (b_header (sealed_inner parent)) < h_timestamp (b_header (sealed_inner block)) \<and>
    h_timestamp (b_header (sealed_inner block)) \<le> max_block_timestamp_ms \<and>
    list_all (lazy_valid c ns) (b_body (sealed_inner block)) \<and>
    body_transfers c (b_body (sealed_inner block)) = Some ts \<and>
    execute (accounts_of (view sb) (participants ts)) ts = Some cs \<and>
    state_merkleize db (apply_changeset db sb cs) = Some (fst mk) \<and>
    txn_merkleize db (with_inactivity_floor db floor
      (apply_transaction_digests db tb (map pt_digest ts))) = Some (snd mk) \<and>
    state_merkle_root db (fst mk) = h_state_root (b_header (sealed_inner block)) \<and>
    txn_merkle_root db (snd mk) = h_transactions_root (b_header (sealed_inner block))"
proof -
  from verify_child_Ok [OF assms] obtain ts cs e where
    v: "is_valid_child_timestamp (h_timestamp (b_header (sealed_inner parent)))
        (h_timestamp (b_header (sealed_inner block)))"
      "list_all (lazy_valid c ns) (b_body (sealed_inner block))"
      "body_transfers c (b_body (sealed_inner block)) = Some ts"
      "execute (accounts_of (view sb) (participants ts)) ts = Some cs"
    and fin: "finalize_child db (apply_changeset db sb cs)
      (apply_transaction_digests db tb (transfer_digests ts)) parent (length ts) = Ok e"
    and com: "commitments_match db (b_header (sealed_inner block)) e" and mk: "mk = into_merkleized e"
    by metis
  from fin obtain f where "state_merkleize db (apply_changeset db sb cs) = Some (ex_state e)"
    "txn_merkleize db (with_inactivity_floor db f
      (apply_transaction_digests db tb (transfer_digests ts))) = Some (ex_transactions e)"
    by (auto simp: finalize_child_Ok)
  with v com mk show ?thesis
    by (intro exI [of _ ts] exI [of _ cs] exI [of _ f])
      (simp add: is_valid_child_timestamp_def commitments_match_iff into_merkleized_def
        transfer_digests_def)
qed

lemma demo_verified:
  obtains blk mk where
    "b_body (sealed_inner blk) = [lazy_new (demo_signed 7 8 50 0)]"
    "verify_child demo_block_env demo_db demo_runtime [] blk demo_parent ([], (4, [], 0)) = Ok mk"
proof -
  obtain blk mk where p: "demo_proposal = Ok (blk, mk)"
    "b_body (sealed_inner blk) = [lazy_new (demo_signed 7 8 50 0)]" by (rule demo_proposal_Ok)
  have "verify_child demo_block_env demo_db demo_runtime [] blk demo_parent ([], (4, [], 0)) = Ok mk"
  proof (rule proposal_verifies_aux [OF block_env_ok_demo qmdb_reads_demo p(1) [unfolded demo_proposal_def]])
    show "is_valid_child_timestamp (h_timestamp (b_header (sealed_inner demo_parent))) (now_ms demo_runtime)"
      by (simp add: is_valid_child_timestamp_def demo_parent_def block_seal_def block_new_def
          sealed_new_unchecked_def demo_header_def demo_runtime_def max_block_timestamp_ms_def)
  qed (simp_all add: demo_body_valid demo_runtime_def usize_max_def)
  with p(2) that show thesis by blast
qed

theorem verified_block_sound_witness:
  "\<exists>blk mk ts cs. verify_child demo_block_env demo_db demo_runtime [] blk demo_parent ([], (4, [], 0))
      = Ok mk \<and> b_body (sealed_inner blk) = [lazy_new (demo_signed 7 8 50 0)] \<and>
    execute (accounts_of (demo_view []) (participants ts)) ts = Some cs"
proof -
  obtain blk mk where b: "b_body (sealed_inner blk) = [lazy_new (demo_signed 7 8 50 0)]"
    "verify_child demo_block_env demo_db demo_runtime [] blk demo_parent ([], (4, [], 0)) = Ok mk"
    by (rule demo_verified)
  have "length (b_body (sealed_inner blk)) * 2 \<le> usize_max" using b by (simp add: usize_max_def)
  from verified_block_sound [OF block_env_tx [OF block_env_ok_demo] qmdb_reads_demo this b(2)] b
  show ?thesis by blast
qed

text \<open>C7: Applying a certified block gives the databases that verifying it gave: the transactions
  floor taken from the header is the floor computed from the parent, so \<open>apply_certified\<close> does not
  panic and does not diverge from \<open>verify_child\<close>.\<close>

theorem apply_agrees_with_verify:
  assumes "tx_env_ok c" "qmdb_reads db view" "qmdb_floor db"
    and "length (b_body (sealed_inner block)) * 2 \<le> usize_max"
    and "verify_child c db rt ns block parent (sb, tb) = Ok mk" "\<not> materialize_task_closed rt'"
  shows "apply_certified c db rt' block (sb, tb) = Ok mk"
  using assms by (rule verify_apply_aux)

theorem apply_agrees_with_verify_witness:
  "\<exists>blk mk. b_body (sealed_inner blk) = [lazy_new (demo_signed 7 8 50 0)] \<and>
    apply_certified demo_block_env demo_db demo_runtime blk ([], (4, [], 0)) = Ok mk"
proof -
  obtain blk mk where b: "b_body (sealed_inner blk) = [lazy_new (demo_signed 7 8 50 0)]"
    "verify_child demo_block_env demo_db demo_runtime [] blk demo_parent ([], (4, [], 0)) = Ok mk"
    by (rule demo_verified)
  have "length (b_body (sealed_inner blk)) * 2 \<le> usize_max" using b by (simp add: usize_max_def)
  from apply_agrees_with_verify [OF block_env_tx [OF block_env_ok_demo] qmdb_reads_demo qmdb_floor_demo
      this b(2), of demo_runtime] b(1)
  show ?thesis by (intro exI conjI) (simp_all add: demo_runtime_def)
qed

text \<open>C5: A verified block conserves value: over every finite set of accounts that contains the
  block's senders and recipients, counting an account never written with the default balance, the
  sum of balances after the block's writes is the sum before; accounts outside the block keep
  their value, and the nonce invariant survives.\<close>

theorem verified_block_conserves:
  assumes "tx_env_ok c" "qmdb_reads db view" "length (b_body (sealed_inner block)) * 2 \<le> usize_max"
    and "verify_child c db rt ns block parent (sb, tb) = Ok mk" "view_inv (view sb)"
  shows "\<exists>ts cs. body_transfers c (b_body (sealed_inner block)) = Some ts \<and>
    state_merkleize db (apply_changeset db sb cs) = Some (fst mk) \<and>
    (\<forall>K. finite K \<longrightarrow> set (participants ts) \<subseteq> K \<longrightarrow>
      (\<Sum>k \<in> K. unat (balance (effective (view (apply_changeset db sb cs)) k))) =
      (\<Sum>k \<in> K. unat (balance (effective (view sb) k)))) \<and>
    (\<forall>k. k \<notin> set (participants ts) \<longrightarrow> view (apply_changeset db sb cs) k = view sb k) \<and>
    view_inv (view (apply_changeset db sb cs))"
proof -
  from verify_child_Ok [OF assms(1-4)] obtain ts cs e where
    v: "body_transfers c (b_body (sealed_inner block)) = Some ts"
      "execute (accounts_of (view sb) (participants ts)) ts = Some cs"
    and fin: "finalize_child db (apply_changeset db sb cs)
      (apply_transaction_digests db tb (transfer_digests ts)) parent (length ts) = Ok e"
    and mk: "mk = into_merkleized e"
    by metis
  from v(2) obtain ov where ov: "strict attempt_transfer ts
      (overlay_new (accounts_of (view sb) (participants ts))) = Some ov" "cs = into_changeset ov"
    by (rule execute_Some)
  have "overlay_inv ov"
    by (rule transfers.strict_inv [OF overlay_inv_new [OF state_inv_accounts_of [OF assms(5)]] _ ov(1)])
      (simp add: list_all_iff)
  then have "distinct (map fst cs)"
    using changeset_props [of ov] ov(2) by (simp add: overlay_inv_def)
  note after = apply_changeset_view [OF assms(2) this]
  have "state_merkleize db (apply_changeset db sb cs) = Some (fst mk)"
    using fin mk by (auto simp: finalize_child_Ok into_merkleized_def)
  with v(1) show ?thesis
    using execute_effective [OF assms(5) v(2) _ _ after] finite_set [of "participants ts"]
    by (intro exI [of _ ts] exI [of _ cs]) blast
qed

lemma demo_view_inv: "view_inv (demo_view [])"
  by (simp add: view_inv_def effective_def demo_view_def unwrap_or_default_def account_default_def)

theorem verified_block_conserves_witness:
  "\<exists>blk mk cs. verify_child demo_block_env demo_db demo_runtime [] blk demo_parent ([], (4, [], 0)) = Ok mk \<and>
    b_body (sealed_inner blk) = [lazy_new (demo_signed 7 8 50 0)] \<and>
    view_inv (demo_view (apply_changeset demo_db [] cs))"
proof -
  obtain blk mk where b: "b_body (sealed_inner blk) = [lazy_new (demo_signed 7 8 50 0)]"
    "verify_child demo_block_env demo_db demo_runtime [] blk demo_parent ([], (4, [], 0)) = Ok mk"
    by (rule demo_verified)
  have "length (b_body (sealed_inner blk)) * 2 \<le> usize_max" using b by (simp add: usize_max_def)
  from verified_block_conserves [OF block_env_tx [OF block_env_ok_demo] qmdb_reads_demo this b(2) demo_view_inv] b
  show ?thesis by blast
qed

text \<open>C13: Pruning stays one cadence behind: after finalizing the blocks of heights \<open>1\<close> to
  \<open>n\<close>, finalizing a block at a height that is a multiple of the cadence prunes blocks below the
  height one cadence earlier and prunes the state to the end of the state range of the block at
  that height (of the genesis target at height zero), capped at the sync boundary the database
  reports, so the prune cannot fail; at other heights nothing is pruned.\<close>

theorem pruning_one_cadence_behind:
  assumes "prune_cadence_blocks app \<noteq> 0" "heights_from_one (bs @ [(b, boundary)])"
  shows "case finalized b boundary (finalize_run bs app) of (_, effects) \<Rightarrow>
    (let n = length bs + 1; k = unat (prune_cadence_blocks app) in
     if n mod k = 0
     then (\<exists>h t. PruneBlocks h \<in> set effects \<and> unat h = n - k \<and>
        PruneState t \<in> set effects \<and> t = min (state_end_at app bs (n - k)) boundary)
     else \<forall>x. PruneBlocks x \<notin> set effects \<and> PruneState x \<notin> set effects)"
proof -
  let ?k = "unat (prune_cadence_blocks app)" and ?n = "length bs + 1"
  let ?h = "h_height (b_header (sealed_inner b))"
  have c: "prune_cadence_blocks (finalize_run bs app) \<noteq> 0" using assms(1) by simp
  have k: "0 < ?k" using assms(1) by (simp add: unat_gt_0)
  note h = heights_snoc [OF assms(2)]
  show ?thesis
  proof (cases "?n mod ?k = 0")
    case True
    then obtain q where q: "?n = q * ?k" by (metis mod_0_imp_dvd dvd_def mult.commute)
    then have "0 < q" by (cases q) auto
    then have kn: "?k \<le> ?n" using q by (cases q) auto
    have "length bs div ?k * ?k = ?n - ?k"
    proof -
      obtain r where r: "q = Suc r" using \<open>0 < q\<close> by (cases q) auto
      have "length bs = r * ?k + (?k - 1)" using q k by (simp add: r)
      then have "length bs div ?k = r" using k by (intro div_nat_eqI) (simp_all add: mult.commute)
      then show ?thesis using q by (simp add: r)
    qed
    then have prev: "previous_prune_cadence_state_end (finalize_run bs app) = state_end_at app bs (?n - ?k)"
      using finalize_run_previous [OF assms(1) h(1)] by simp
    have "unat (saturating_sub ?h (prune_cadence_blocks app)) = ?n - ?k"
      using h(2) kn by (simp add: saturating_sub_def word_le_nat_alt unat_sub)
    with True prev h(2) show ?thesis
      by (simp add: finalized_def should_prune_iff [OF c] Let_def)
  next
    case False
    with h(2) show ?thesis
      by (auto simp: finalized_def should_prune_iff [OF c] Let_def)
  qed
qed

theorem pruning_one_cadence_behind_witness:
  "\<exists>h t. {PruneBlocks h, PruneState t} \<subseteq>
    set (snd (finalized (block_seal demo_block_env (block_new (demo_header 1 9) [])) 77
      (finalize_run [] (application_new [] [] [] ([], \<lparr>range_start = 0, range_end = 9\<rparr>) ([], 1) 1 False))))"
proof -
  let ?app = "application_new [] [] [] ([], \<lparr>range_start = 0, range_end = 9\<rparr>) ([], 1) 1 False"
  let ?b = "block_seal demo_block_env (block_new (demo_header 1 9) [])"
  have c: "prune_cadence_blocks ?app = 1" by (simp add: application_new_def)
  have "heights_from_one ([] @ [(?b, 77)])"
    by (simp add: heights_from_one_def block_seal_def block_new_def sealed_new_unchecked_def demo_header_def)
  from pruning_one_cadence_behind [OF _ this, of ?app] show ?thesis
    unfolding c by (auto split: prod.splits)
qed

end
