(* ===== verification/Indexer.thy ===== *)
theory Indexer
  imports Block
begin

text \<open>
  The rows of the chain indexer (\<open>crates/indexer/src/publisher/sql.rs\<close>, \<open>publisher/block.rs\<close>,
  \<open>sql_schema.rs\<close> and the pure part of \<open>publisher/qmdb.rs\<close>): the SQL rows of a finalized block, the
  operations of the two QMDB logs, and the durable queue entry from which both are derived. Panics
  of the code are values of \<open>index_failure\<close>.
\<close>

section \<open>SQL rows\<close>

type_synonym i64 = "64 word"

datatype cell_value = CellUInt64 u64 | CellFixedBinary bytes | CellTimestamp i64 | CellUtf8 string

record sql_row =
  row_table :: string
  row_values :: "cell_value list"

record block_meta_row =
  bm_height :: u64
  bm_digest :: bytes
  bm_tx_count :: u64
  bm_transactions_root :: bytes
  bm_transactions_tip :: u64
  bm_view :: u64
  bm_finalized_ts_micros :: i64

record tx_meta_row =
  tm_digest :: bytes
  tm_qmdb_location :: u64
  tm_body :: bytes

datatype tx_activity_role = RoleSender | RoleReceiver

fun role_as_u64 :: "tx_activity_role \<Rightarrow> u64" where
  "role_as_u64 RoleSender = 0"
| "role_as_u64 RoleReceiver = 1"

record tx_activity_row =
  ta_account :: bytes
  ta_role :: tx_activity_role
  ta_height :: u64
  ta_index :: u32
  ta_digest :: bytes
  ta_counterparty :: bytes
  ta_value :: u64
  ta_nonce :: u64

record account_meta_row =
  am_account :: bytes
  am_balance :: u64
  am_nonce_base :: u64
  am_nonce_bitmap :: u64
  am_qmdb_location :: u64

definition block_meta_table :: string where
  "block_meta_table = ''block_meta''"

definition tx_meta_table :: string where
  "tx_meta_table = ''tx_meta''"

definition tx_activity_table :: string where
  "tx_activity_table = ''tx_activity''"

definition account_meta_table :: string where
  "account_meta_table = ''account_meta''"

definition hex_digits :: string where
  "hex_digits = ''0123456789abcdef''"

definition hex_lower :: "bytes \<Rightarrow> string" where
  "hex_lower bs = concat (map (\<lambda>b. [hex_digits ! unat (drop_bit 4 b), hex_digits ! unat (and b 0x0f)]) bs)"

definition encode_block_meta_row :: "block_meta_row \<Rightarrow> sql_row" where
  "encode_block_meta_row b =
    \<lparr>row_table = block_meta_table,
     row_values =
      [CellUInt64 (bm_height b), CellFixedBinary (bm_digest b), CellUInt64 (bm_tx_count b),
       CellFixedBinary (bm_transactions_root b), CellUInt64 (bm_transactions_tip b),
       CellUInt64 (bm_view b), CellTimestamp (bm_finalized_ts_micros b)]\<rparr>"

definition encode_tx_meta_row :: "tx_meta_row \<Rightarrow> sql_row" where
  "encode_tx_meta_row t =
    \<lparr>row_table = tx_meta_table,
     row_values =
      [CellFixedBinary (tm_digest t), CellUInt64 (tm_qmdb_location t), CellUtf8 (hex_lower (tm_body t))]\<rparr>"

definition encode_tx_activity_row :: "tx_activity_row \<Rightarrow> sql_row" where
  "encode_tx_activity_row t =
    \<lparr>row_table = tx_activity_table,
     row_values =
      [CellFixedBinary (ta_account t), CellUInt64 (ta_height t), CellUInt64 (ucast (ta_index t)),
       CellUInt64 (role_as_u64 (ta_role t)), CellFixedBinary (ta_digest t),
       CellFixedBinary (ta_counterparty t), CellUInt64 (ta_value t), CellUInt64 (ta_nonce t)]\<rparr>"

definition encode_account_meta_row :: "account_meta_row \<Rightarrow> sql_row" where
  "encode_account_meta_row a =
    \<lparr>row_table = account_meta_table,
     row_values =
      [CellFixedBinary (am_account a), CellUInt64 (am_balance a), CellUInt64 (am_nonce_base a),
       CellUInt64 (am_nonce_bitmap a), CellUInt64 (am_qmdb_location a)]\<rparr>"

section \<open>The schema\<close>

text \<open>Arrow data types and table declarations. \<open>build_meta_schema\<close> threads the schema of the SQL
  library through its \<open>table\<close> operation, which is the parameter \<open>add_table\<close>.\<close>

datatype data_type = DtUInt64 | DtFixedSizeBinary nat | DtTimestampMicrosecond | DtUtf8

record table_column =
  col_name :: string
  col_type :: data_type
  col_nullable :: bool

record table_decl =
  td_name :: string
  td_columns :: "table_column list"
  td_primary_key :: "string list"

definition column :: "string \<Rightarrow> data_type \<Rightarrow> table_column" where
  "column name ty = \<lparr>col_name = name, col_type = ty, col_nullable = False\<rparr>"

definition block_meta_decl :: table_decl where
  "block_meta_decl =
    \<lparr>td_name = block_meta_table,
     td_columns =
      [column ''height'' DtUInt64, column ''digest'' (DtFixedSizeBinary 32), column ''tx_count'' DtUInt64,
       column ''transactions_root'' (DtFixedSizeBinary 32), column ''transactions_tip'' DtUInt64,
       column ''view'' DtUInt64, column ''finalized_ts'' DtTimestampMicrosecond],
     td_primary_key = [''height'']\<rparr>"

definition tx_meta_decl :: table_decl where
  "tx_meta_decl =
    \<lparr>td_name = tx_meta_table,
     td_columns =
      [column ''tx_digest'' (DtFixedSizeBinary 32), column ''qmdb_location'' DtUInt64,
       column ''body_hex'' DtUtf8],
     td_primary_key = [''tx_digest'']\<rparr>"

definition tx_activity_decl :: table_decl where
  "tx_activity_decl =
    \<lparr>td_name = tx_activity_table,
     td_columns =
      [column ''account'' (DtFixedSizeBinary 32), column ''height'' DtUInt64, column ''index'' DtUInt64,
       column ''role'' DtUInt64, column ''tx_digest'' (DtFixedSizeBinary 32),
       column ''counterparty'' (DtFixedSizeBinary 32), column ''value'' DtUInt64, column ''nonce'' DtUInt64],
     td_primary_key = [''account'', ''height'', ''index'', ''role'']\<rparr>"

definition account_meta_decl :: table_decl where
  "account_meta_decl =
    \<lparr>td_name = account_meta_table,
     td_columns =
      [column ''account'' (DtFixedSizeBinary 32), column ''balance'' DtUInt64, column ''nonce_base'' DtUInt64,
       column ''nonce_bitmap'' DtUInt64, column ''qmdb_location'' DtUInt64],
     td_primary_key = [''account'']\<rparr>"

definition meta_tables :: "table_decl list" where
  "meta_tables = [block_meta_decl, tx_meta_decl, tx_activity_decl, account_meta_decl]"

fun add_tables :: "('s \<Rightarrow> table_decl \<Rightarrow> (string, 's) result) \<Rightarrow> table_decl list \<Rightarrow> 's \<Rightarrow> (string, 's) result" where
  "add_tables add_table [] s = Ok s"
| "add_tables add_table (t # ts) s = bind_res (add_table s t) (add_tables add_table ts)"

definition build_meta_schema ::
    "('s \<Rightarrow> table_decl \<Rightarrow> (string, 's) result) \<Rightarrow> 's \<Rightarrow> (string, 's) result" where
  "build_meta_schema add_table new = add_tables add_table meta_tables new"

section \<open>Failures\<close>

datatype publish_error =
    StoreEmptyPastGenesis u64
  | WriterOutOfSync u64 u64
  | CheckpointTooLarge u64
  | CommitterStopped u64
  | QmdbEmptyBatch
  | QmdbCorruptData string
  | SqlRowError string

datatype index_failure = Publish publish_error | IndexPanic string

definition expect :: "'a option \<Rightarrow> string \<Rightarrow> (index_failure, 'a) result" where
  "expect x msg = ok_or x (IndexPanic msg)"

section \<open>Block rows\<close>

record indexed_transaction =
  it_block_index :: nat
  it_digest :: digest
  it_bytes :: bytes
  it_sender :: account_key
  it_to :: bytes
  it_value :: u64
  it_nonce :: u64

record indexed_block_rows =
  ib_sql :: "sql_row list"
  ib_transaction_digests :: "digest list"

text \<open>\<open>read_u64\<close> of \<open>publisher/block.rs\<close>: exactly eight bytes, big-endian.\<close>

definition slice_read_u64 :: "bytes \<Rightarrow> u64 option" where
  "slice_read_u64 bs = (if length bs = 8 then Some (u64_from_be bs) else None)"

definition byte_slice :: "nat \<Rightarrow> nat \<Rightarrow> bytes \<Rightarrow> bytes" where
  "byte_slice a b bs = take (b - a) (drop a bs)"

text \<open>\<open>copy_from_slice\<close> into a \<open>[u8; 32]\<close> panics unless the lengths agree.\<close>

definition array32 :: "bytes \<Rightarrow> (index_failure, bytes) result" where
  "array32 bs = (if length bs = 32 then Ok bs else Err (IndexPanic ''source slice length''))"

definition index_transaction ::
    "'x tx_env_scheme \<Rightarrow> nat \<Rightarrow> lazy_transaction \<Rightarrow> (index_failure, indexed_transaction option) result" where
  "index_transaction c block_index lz =
    bind_res (expect (encoded_signed_transaction c lz) ''lazy signed transaction must have a value'')
      (\<lambda>signed_bytes.
      if length signed_bytes < transaction_size then Ok None
      else
        let transaction_bytes = take transaction_size signed_bytes in
        case account_key_from_public_key_bytes (sha256 c) (take public_key_size transaction_bytes) of
          None \<Rightarrow> Ok None
        | Some sender \<Rightarrow>
            let to_start = public_key_size; to_end = to_start + account_key_size;
                value_start = to_end; value_end = value_start + 8;
                nonce_start = value_end; nonce_end = nonce_start + 8 in
            bind_res (expect (slice_read_u64 (byte_slice value_start value_end transaction_bytes))
                ''transaction value slice has fixed width'') (\<lambda>value.
            if value = 0 then Ok None
            else
              bind_res (expect (slice_read_u64 (byte_slice nonce_start nonce_end transaction_bytes))
                  ''transaction nonce slice has fixed width'') (\<lambda>nonce.
              Ok (Some
                \<lparr>it_block_index = block_index, it_digest = hash c transaction_bytes,
                 it_bytes = signed_bytes, it_sender = sender,
                 it_to = byte_slice to_start to_end transaction_bytes, it_value = value, it_nonce = nonce\<rparr>))))"

fun index_body ::
    "'x tx_env_scheme \<Rightarrow> nat \<Rightarrow> lazy_transaction list \<Rightarrow> (index_failure, indexed_transaction list) result" where
  "index_body c i [] = Ok []"
| "index_body c i (lz # lzs) =
    bind_res (index_transaction c i lz) (\<lambda>entry.
    bind_res (index_body c (Suc i) lzs) (\<lambda>rest.
      Ok (case entry of None \<Rightarrow> rest | Some tx \<Rightarrow> tx # rest)))"

definition index_u32 :: "nat \<Rightarrow> (index_failure, u32) result" where
  "index_u32 i = (if i < 2 ^ 32 then Ok (word_of_nat i) else Err (IndexPanic ''transaction index fits u32''))"

definition activity_rows ::
    "u64 \<Rightarrow> u32 \<Rightarrow> bytes \<Rightarrow> bytes \<Rightarrow> indexed_transaction \<Rightarrow> sql_row list" where
  "activity_rows height idx digest sender tx =
    (let receiver = it_to tx in
     encode_tx_activity_row
       \<lparr>ta_account = sender, ta_role = RoleSender, ta_height = height, ta_index = idx, ta_digest = digest,
        ta_counterparty = receiver, ta_value = it_value tx, ta_nonce = it_nonce tx\<rparr> #
     (if receiver \<noteq> sender
      then [encode_tx_activity_row
        \<lparr>ta_account = receiver, ta_role = RoleReceiver, ta_height = height, ta_index = idx, ta_digest = digest,
         ta_counterparty = sender, ta_value = it_value tx, ta_nonce = it_nonce tx\<rparr>]
      else []))"

fun index_rows ::
    "u64 \<Rightarrow> u64 \<Rightarrow> nat \<Rightarrow> indexed_transaction list \<Rightarrow> (index_failure, sql_row list \<times> digest list) result" where
  "index_rows height append_start k [] = Ok ([], [])"
| "index_rows height append_start k (tx # txs) =
    bind_res (index_u32 (it_block_index tx)) (\<lambda>idx.
    bind_res (array32 (it_digest tx)) (\<lambda>digest.
    bind_res (array32 (it_sender tx)) (\<lambda>sender.
    bind_res (index_rows height append_start (Suc k) txs) (\<lambda>(sql, digests).
      Ok (encode_tx_meta_row
            \<lparr>tm_digest = digest, tm_qmdb_location = append_start + word_of_nat k, tm_body = it_bytes tx\<rparr> #
          activity_rows height idx digest sender tx @ sql,
          it_digest tx # digests)))))"

definition encode_indexed_block_rows_at ::
    "'x tx_env_scheme \<Rightarrow> sealed_block \<Rightarrow> i64 \<Rightarrow> (index_failure, indexed_block_rows) result" where
  "encode_indexed_block_rows_at c block finalized_ts_micros =
    (let h = b_header (sealed_inner block) in
     bind_res (array32 (seal block)) (\<lambda>block_digest.
     bind_res (array32 (h_transactions_root h)) (\<lambda>transactions_root.
     bind_res (index_body c 0 (b_body (sealed_inner block))) (\<lambda>indexed_txs.
     let tx_count = word_of_nat (length indexed_txs) in
     bind_res (expect (checked_sub (range_end (h_transactions_range h)) (tx_count + 1))
         ''transaction range includes appends plus commit'') (\<lambda>append_start.
     bind_res (index_rows (h_height h) append_start 0 indexed_txs) (\<lambda>(sql, digests).
       Ok \<lparr>ib_sql =
             encode_block_meta_row
               \<lparr>bm_height = h_height h, bm_digest = block_digest, bm_tx_count = tx_count,
                bm_transactions_root = transactions_root,
                bm_transactions_tip = range_end (h_transactions_range h) - 1, bm_view = 0,
                bm_finalized_ts_micros = finalized_ts_micros\<rparr> # sql,
           ib_transaction_digests = digests\<rparr>))))))"

section \<open>Operations of the QMDB logs\<close>

text \<open>The operations of the unordered account log, over accounts in the local database and over
  their fixed-width encodings in the Store, and of the keyless transaction log.\<close>

datatype 'v state_operation =
    OpDelete account_key
  | OpUpdate account_key 'v
  | OpCommitFloor "'v option" u64

datatype transaction_operation = OpAppend digest | OpCommit "digest option" u64

definition encode_account :: "'x codec_scheme \<Rightarrow> account \<Rightarrow> bytes" where
  "encode_account c a = account_write c a"

fun encode_account_operation :: "'x codec_scheme \<Rightarrow> account state_operation \<Rightarrow> bytes state_operation" where
  "encode_account_operation c (OpDelete k) = OpDelete k"
| "encode_account_operation c (OpUpdate k a) = OpUpdate k (encode_account c a)"
| "encode_account_operation c (OpCommitFloor a floor) = OpCommitFloor (map_option (encode_account c) a) floor"

definition account_value_balance :: "bytes \<Rightarrow> u64" where
  "account_value_balance v = u64_from_be (byte_slice 0 8 v)"

definition account_value_nonce_base :: "bytes \<Rightarrow> u64" where
  "account_value_nonce_base v = u64_from_be (byte_slice 8 16 v)"

definition account_value_nonce_bitmap :: "bytes \<Rightarrow> u64" where
  "account_value_nonce_bitmap v = u64_from_be (byte_slice 16 24 v)"

fun account_rows_from :: "u64 \<Rightarrow> nat \<Rightarrow> bytes state_operation list \<Rightarrow> sql_row list" where
  "account_rows_from start offset [] = []"
| "account_rows_from start offset (OpUpdate key account # delta) =
    encode_account_meta_row
      \<lparr>am_account = key, am_balance = account_value_balance account,
       am_nonce_base = account_value_nonce_base account,
       am_nonce_bitmap = account_value_nonce_bitmap account,
       am_qmdb_location = start + word_of_nat offset\<rparr> #
    account_rows_from start (Suc offset) delta"
| "account_rows_from start offset (_ # delta) = account_rows_from start (Suc offset) delta"

definition account_rows :: "bytes state_operation list \<Rightarrow> u64 \<Rightarrow> sql_row list" where
  "account_rows delta start = account_rows_from start 0 delta"

definition transaction_ops_from_digests ::
    "sealed_block \<Rightarrow> u64 \<Rightarrow> digest list \<Rightarrow> (index_failure, transaction_operation list) result" where
  "transaction_ops_from_digests block writer_next digests =
    (let range = h_transactions_range (b_header (sealed_inner block));
         ops = (if writer_next = 0 then [OpCommit None 0] else []) @ map OpAppend digests
           @ [OpCommit None (range_start range)] in
     bind_res (expect (checked_sub (range_end range) (word_of_nat (length ops)))
         ''block transaction range must include this batch'') (\<lambda>block_start.
       if writer_next \<noteq> block_start then Err (Publish (WriterOutOfSync writer_next block_start))
       else Ok ops))"

definition build_transaction_upload_from_digests ::
    "sealed_block \<Rightarrow> u64 \<Rightarrow> digest list \<Rightarrow> (index_failure, transaction_operation list) result" where
  "build_transaction_upload_from_digests block writer_next digests =
    (let height = h_height (b_header (sealed_inner block)) in
     if writer_next = 0 \<and> 1 < height then Err (Publish (StoreEmptyPastGenesis height))
     else transaction_ops_from_digests block writer_next digests)"

section \<open>Cursors\<close>

definition validate_writer_range :: "u64 \<Rightarrow> u64 \<Rightarrow> u64 \<Rightarrow> (index_failure, unit) result" where
  "validate_writer_range writer_next block_end height =
    (if writer_next = 0 \<and> 1 < height then Err (Publish (StoreEmptyPastGenesis height))
     else if block_end < writer_next then Err (Publish (WriterOutOfSync writer_next block_end))
     else Ok ())"

definition transaction_upload_end :: "u64 \<Rightarrow> sealed_block \<Rightarrow> (index_failure, u64) result" where
  "transaction_upload_end writer_next block =
    (let h = b_header (sealed_inner block) in
     if writer_next = 0 \<and> 1 < h_height h then Err (Publish (StoreEmptyPastGenesis (h_height h)))
     else
       let tx_count = word_of_nat (length (b_body (sealed_inner block))) in
       bind_res (expect (checked_add tx_count 1) ''transaction operation count does not overflow'') (\<lambda>op_count.
       bind_res
         (if writer_next = 0
          then expect (checked_add op_count 1) ''genesis transaction operation count does not overflow''
          else Ok op_count) (\<lambda>op_count.
       bind_res (expect (checked_sub (range_end (h_transactions_range h)) op_count)
           ''block transaction range must include this batch'') (\<lambda>block_start.
         if writer_next \<noteq> block_start then Err (Publish (WriterOutOfSync writer_next block_start))
         else expect (checked_add writer_next op_count)
           ''transaction writer reservation does not overflow''))))"

section \<open>Queue entries\<close>

record queued_upload =
  qu_block :: sealed_block
  qu_finalized_ts_micros :: i64
  qu_state_start :: u64
  qu_transaction_start :: u64
  qu_state_delta :: "bytes state_operation list"

definition upload_height :: "queued_upload \<Rightarrow> u64" where
  "upload_height u = h_height (b_header (sealed_inner (qu_block u)))"

definition upload_state_end :: "queued_upload \<Rightarrow> u64" where
  "upload_state_end u = range_end (h_state_range (b_header (sealed_inner (qu_block u))))"

text \<open>\<open>transaction_end\<close> panics when the cursor is not the validated one.\<close>

definition upload_transaction_end :: "queued_upload \<Rightarrow> (index_failure, u64) result" where
  "upload_transaction_end u =
    (case transaction_upload_end (qu_transaction_start u) (qu_block u) of
       Ok e \<Rightarrow> Ok e
     | Err _ \<Rightarrow> Err (IndexPanic ''queued finalized upload stores a validated transaction cursor''))"

record queued_upload_cfg =
  quc_block :: block_cfg
  quc_state_ops :: "nat \<times> nat"

definition queued_upload_cfg_default :: queued_upload_cfg where
  "queued_upload_cfg_default = \<lparr>quc_block = block_cfg_default, quc_state_ops = (0, usize_max)\<rparr>"

text \<open>The commonware codecs of \<open>i64\<close> and of vectors of account operations.\<close>

record upload_lib =
  write_i64 :: "i64 \<Rightarrow> bytes"
  read_i64 :: "i64 reader"
  state_ops_write :: "bytes state_operation list \<Rightarrow> bytes"
  state_ops_read :: "nat \<times> nat \<Rightarrow> bytes state_operation list reader"

definition queued_upload_write :: "'x block_env_scheme \<Rightarrow> upload_lib \<Rightarrow> queued_upload \<Rightarrow> bytes option" where
  "queued_upload_write c lib u =
    map_option (\<lambda>block. block @ write_i64 lib (qu_finalized_ts_micros u) @ write_u64 c (qu_state_start u)
        @ write_u64 c (qu_transaction_start u) @ state_ops_write lib (qu_state_delta u))
      (block_write c (sealed_inner (qu_block u)))"

definition queued_upload_encode_size :: "'x block_env_scheme \<Rightarrow> upload_lib \<Rightarrow> queued_upload \<Rightarrow> nat option" where
  "queued_upload_encode_size c lib u =
    map_option (\<lambda>block. length block + length (write_i64 lib (qu_finalized_ts_micros u)) + 8 + 8
        + length (state_ops_write lib (qu_state_delta u)))
      (block_write c (sealed_inner (qu_block u)))"

definition queued_upload_read ::
    "'x block_env_scheme \<Rightarrow> upload_lib \<Rightarrow> queued_upload_cfg \<Rightarrow> queued_upload reader" where
  "queued_upload_read c lib cfg bs =
    bind_res (sealed_block_read c (quc_block cfg) bs) (\<lambda>(block, bs).
    bind_res (read_i64 lib bs) (\<lambda>(ts, bs).
    bind_res (read_u64 c bs) (\<lambda>(state_start, bs).
    bind_res (read_u64 c bs) (\<lambda>(transaction_start, bs).
    bind_res (state_ops_read lib (quc_state_ops cfg) bs) (\<lambda>(state_delta, bs).
      Ok (\<lparr>qu_block = block, qu_finalized_ts_micros = ts, qu_state_start = state_start,
           qu_transaction_start = transaction_start, qu_state_delta = state_delta\<rparr>, bs))))))"

text \<open>\<open>historical_proof\<close> of the local state database, by end, start and number of operations.\<close>

type_synonym historical_proof = "u64 \<Rightarrow> u64 \<Rightarrow> u64 \<Rightarrow> (string, account state_operation list) result"

definition load_state_ops ::
    "'x codec_scheme \<Rightarrow> historical_proof \<Rightarrow> u64 \<Rightarrow> u64 \<Rightarrow> (index_failure, bytes state_operation list) result" where
  "load_state_ops c proof_of start end_loc =
    (case checked_sub end_loc start of
       None \<Rightarrow> Err (Publish QmdbEmptyBatch)
     | Some n \<Rightarrow>
         if n = 0 then Err (Publish QmdbEmptyBatch)
         else
           case proof_of end_loc start n of
             Err e \<Rightarrow> Err (Publish (QmdbCorruptData e))
           | Ok ops \<Rightarrow> Ok (map (encode_account_operation c) ops))"

definition build_state_delta ::
    "'x codec_scheme \<Rightarrow> historical_proof \<Rightarrow> u64 \<Rightarrow> sealed_block \<Rightarrow> (index_failure, bytes state_operation list) result" where
  "build_state_delta c proof_of writer_next block =
    (let h = b_header (sealed_inner block) in
     if writer_next = 0 \<and> 1 < h_height h then Err (Publish (StoreEmptyPastGenesis (h_height h)))
     else load_state_ops c proof_of writer_next (range_end (h_state_range h)))"

text \<open>\<open>as_micros() as i64\<close> keeps the low 64 bits; a clock before the epoch gives 0.\<close>

definition current_time_micros :: "nat option \<Rightarrow> i64" where
  "current_time_micros since_epoch = (case since_epoch of Some us \<Rightarrow> word_of_nat us | None \<Rightarrow> 0)"

definition build_queued_finalized_upload ::
    "'x codec_scheme \<Rightarrow> historical_proof \<Rightarrow> nat option \<Rightarrow> u64 \<Rightarrow> u64 \<Rightarrow> sealed_block
      \<Rightarrow> (index_failure, queued_upload) result" where
  "build_queued_finalized_upload c proof_of clock state_writer_next transaction_writer_next block =
    (let h = b_header (sealed_inner block) in
     bind_res (validate_writer_range state_writer_next (range_end (h_state_range h)) (h_height h)) (\<lambda>_.
     bind_res (transaction_upload_end transaction_writer_next block) (\<lambda>_.
     bind_res (build_state_delta c proof_of state_writer_next block) (\<lambda>state_delta.
       Ok \<lparr>qu_block = block, qu_finalized_ts_micros = current_time_micros clock,
          qu_state_start = state_writer_next, qu_transaction_start = transaction_writer_next,
          qu_state_delta = state_delta\<rparr>))))"

section \<open>Expanding an entry\<close>

record pending_upload =
  pu_height :: u64
  pu_upload :: queued_upload
  pu_completion :: nat

record expanded_upload =
  ex_height :: u64
  ex_block_rows :: indexed_block_rows
  ex_state_delta :: "bytes state_operation list"
  ex_account_rows :: "sql_row list"
  ex_transaction_ops :: "transaction_operation list"
  ex_completion :: nat

definition expand_queued_finalized_upload ::
    "'x tx_env_scheme \<Rightarrow> pending_upload \<Rightarrow> (index_failure, expanded_upload) result" where
  "expand_queued_finalized_upload c p =
    (let u = pu_upload p in
     bind_res (encode_indexed_block_rows_at c (qu_block u) (qu_finalized_ts_micros u)) (\<lambda>block_rows.
     bind_res (build_transaction_upload_from_digests (qu_block u) (qu_transaction_start u)
         (ib_transaction_digests block_rows)) (\<lambda>ops.
       Ok \<lparr>ex_height = pu_height p, ex_block_rows = block_rows, ex_state_delta = qu_state_delta u,
          ex_account_rows = account_rows (qu_state_delta u) (qu_state_start u),
          ex_transaction_ops = ops, ex_completion = pu_completion p\<rparr>)))"

definition expanded_sql :: "expanded_upload \<Rightarrow> sql_row list" where
  "expanded_sql e = ib_sql (ex_block_rows e) @ ex_account_rows e"

section \<open>What is indexed\<close>

definition digest32 :: "'x tx_env_scheme \<Rightarrow> bool" where
  "digest32 c \<longleftrightarrow> (\<forall>bs. length (hash c bs) = 32)"

definition sender_key :: "'x crypto_scheme \<Rightarrow> signed_transaction \<Rightarrow> account_key option" where
  "sender_key c t = account_key_from_public_key_bytes (sha256 c) (tx_sender (st_value t))"

text \<open>The entry that a transaction with a sender key should have.\<close>

definition indexed_entry :: "'x tx_env_scheme \<Rightarrow> nat \<Rightarrow> signed_transaction \<Rightarrow> indexed_transaction" where
  "indexed_entry c i t =
    \<lparr>it_block_index = i, it_digest = message_digest t, it_bytes = signed_transaction_write c t,
     it_sender = the (sender_key c t), it_to = tx_to (st_value t),
     it_value = tx_value (st_value t), it_nonce = tx_nonce (st_value t)\<rparr>"

lemma expect_simps [simp]: "expect (Some x) m = Ok x" "expect None m = Err (IndexPanic m)"
  by (simp_all add: expect_def)

lemma expect_Ok_iff: "expect x m = Ok y \<longleftrightarrow> x = Some y"
  by (simp add: expect_def ok_or_Ok_iff)

lemma sender_key_length:
  "crypto_ok c \<Longrightarrow> sender_key c t = Some k \<Longrightarrow> length k = 32"
  by (auto simp: sender_key_def account_key_from_public_key_bytes_def crypto_ok_def public_key_size_def
      account_key_size_def split: if_splits)

lemma valid_sender_key:
  assumes "tx_env_ok c" "lazy_valid c ns lz" "lazy_get c lz = Some t"
  shows "\<exists>k. sender_key c t = Some k"
proof -
  from assms(2,3) obtain pk where pk: "transaction_sender c (st_value t) = Some pk"
    by (auto simp: lazy_valid_def split: option.splits)
  with assms(1) have "pk_read c (tx_sender (st_value t)) = Ok (pk, [])"
    unfolding transaction_sender_def tx_env_ok_def by blast
  then have "pk_wf c pk" "tx_sender (st_value t) = pk_write pk"
    using pk_read_Ok [of c _ pk "[]"] assms(1) by auto
  then show ?thesis
    using account_key_of_wf [of c pk] assms(1)
    by (simp add: sender_key_def account_key_from_public_key_def pk_write_def)
qed

lemma transaction_slices:
  assumes "tx_env_ok c" "transaction_wf t"
  shows "take public_key_size (transaction_write c t) = tx_sender t"
    and "byte_slice public_key_size (public_key_size + account_key_size) (transaction_write c t) = tx_to t"
    and "slice_read_u64 (byte_slice (public_key_size + account_key_size) (public_key_size + account_key_size + 8)
      (transaction_write c t)) = Some (tx_value t)"
    and "slice_read_u64 (byte_slice (public_key_size + account_key_size + 8)
      (public_key_size + account_key_size + 8 + 8) (transaction_write c t)) = Some (tx_nonce t)"
proof -
  have c: "codec_ok c" using assms(1) by (simp add: tx_env_ok_def crypto_ok_def)
  have l: "length (tx_sender t) = public_key_size" "length (tx_to t) = account_key_size"
    using assms(2) by (simp_all add: transaction_wf_def account_key_wf_def)
  show "take public_key_size (transaction_write c t) = tx_sender t"
    "byte_slice public_key_size (public_key_size + account_key_size) (transaction_write c t) = tx_to t"
    "slice_read_u64 (byte_slice (public_key_size + account_key_size) (public_key_size + account_key_size + 8)
      (transaction_write c t)) = Some (tx_value t)"
    "slice_read_u64 (byte_slice (public_key_size + account_key_size + 8)
      (public_key_size + account_key_size + 8 + 8) (transaction_write c t)) = Some (tx_nonce t)"
    by (simp_all add: transaction_write_def account_key_write_def byte_slice_def slice_read_u64_def l
        write_u64_eq [OF c])
qed

lemma index_transaction_entry:
  assumes "tx_env_ok c" "lazy_wf c lz" "lazy_get c lz = Some t" "sender_key c t = Some k"
  shows "index_transaction c i lz = Ok (Some (indexed_entry c i t))"
proof -
  have e: "signed_transaction_wf c t" "encoded_signed_transaction c lz = Some (signed_transaction_write c t)"
    using lazy_get_wf [OF assms(1-3)] by simp_all
  then have wf: "transaction_wf (st_value t)" "message_digest t = hash c (transaction_write c (st_value t))"
    by (simp_all add: signed_transaction_wf_def transaction_hash_slow_def)
  have w: "signed_transaction_write c t = transaction_write c (st_value t) @ sig_write (st_signature t)"
    by (simp add: signed_transaction_write_def sealed_write_def)
  have len: "length (transaction_write c (st_value t)) = transaction_size"
    by (rule transaction_write_length [OF assms(1) wf(1)])
  then have "take transaction_size (signed_transaction_write c t) = transaction_write c (st_value t)"
    "\<not> length (signed_transaction_write c t) < transaction_size" by (simp_all add: w)
  moreover have "tx_value (st_value t) \<noteq> 0" using wf(1) by (simp add: transaction_wf_def)
  ultimately show ?thesis
    using assms(4) [unfolded sender_key_def]
    by (simp add: index_transaction_def e(2) transaction_slices [OF assms(1) wf(1)]
        transaction_slices(4) [OF assms(1) wf(1), simplified] Let_def indexed_entry_def wf(2) sender_key_def)
qed

lemma index_body_entries:
  assumes "tx_env_ok c" "list_all (lazy_wf c) lzs" "map (lazy_get c) lzs = map Some ts"
    and "\<forall>t\<in>set ts. sender_key c t \<noteq> None"
  shows "index_body c i lzs = Ok (map (\<lambda>(j, t). indexed_entry c j t) (enumerate i ts))"
  using assms(2-4)
proof (induction lzs arbitrary: ts i)
  case (Cons lz lzs)
  then obtain t ts' where ts: "ts = t # ts'" by (cases ts) auto
  with Cons.prems obtain k where "sender_key c t = Some k" by auto
  with Cons.prems ts have "index_transaction c i lz = Ok (Some (indexed_entry c i t))"
    by (intro index_transaction_entry [OF assms(1)]) auto
  with Cons ts show ?case by auto
qed simp

text \<open>The rows of one transaction.\<close>

definition entry_rows :: "u64 \<Rightarrow> u64 \<Rightarrow> nat \<Rightarrow> indexed_transaction \<Rightarrow> sql_row list" where
  "entry_rows height append_start k tx =
    encode_tx_meta_row
      \<lparr>tm_digest = it_digest tx, tm_qmdb_location = append_start + word_of_nat k, tm_body = it_bytes tx\<rparr> #
    activity_rows height (word_of_nat (it_block_index tx)) (it_digest tx) (it_sender tx) tx"

lemma index_rows_entries:
  assumes "\<forall>tx\<in>set txs. it_block_index tx < 2 ^ 32 \<and> length (it_digest tx) = 32 \<and> length (it_sender tx) = 32"
  shows "index_rows height append_start k txs =
    Ok (concat (map (\<lambda>(j, tx). entry_rows height append_start j tx) (enumerate k txs)), map it_digest txs)"
  using assms
  by (induction txs arbitrary: k) (auto simp: index_u32_def array32_def entry_rows_def)

text \<open>A finalized block: its body decodes to validly signed transactions, as verification
  established, and its digests have the width of the SQL columns.\<close>

definition indexable :: "'x tx_env_scheme \<Rightarrow> bytes \<Rightarrow> sealed_block \<Rightarrow> signed_transaction list \<Rightarrow> bool" where
  "indexable c ns block ts \<longleftrightarrow>
    list_all (lazy_wf c) (b_body (sealed_inner block)) \<and>
    list_all (lazy_valid c ns) (b_body (sealed_inner block)) \<and>
    map (lazy_get c) (b_body (sealed_inner block)) = map Some ts \<and> length ts < 2 ^ 32 \<and>
    length (seal block) = 32 \<and> length (h_transactions_root (b_header (sealed_inner block))) = 32"

lemma indexable_sender:
  assumes "tx_env_ok c" "indexable c ns block ts" "t \<in> set ts"
  shows "\<exists>k. sender_key c t = Some k" "signed_transaction_wf c t"
proof -
  obtain lz where lz: "lz \<in> set (b_body (sealed_inner block))" "lazy_get c lz = Some t"
  proof -
    have "Some t \<in> set (map (lazy_get c) (b_body (sealed_inner block)))"
      using assms(2,3) by (simp add: indexable_def)
    then show thesis using that by auto
  qed
  moreover have "lazy_valid c ns lz" "lazy_wf c lz"
    using assms(2) lz(1) by (auto simp: indexable_def list_all_iff)
  ultimately show "\<exists>k. sender_key c t = Some k" "signed_transaction_wf c t"
    using valid_sender_key [OF assms(1)] lazy_get_wf [OF assms(1)] by blast+
qed

lemma entry_widths:
  assumes "tx_env_ok c" "digest32 c" "indexable c ns block ts"
    and "tx \<in> set (map (\<lambda>(j, t). indexed_entry c j t) (enumerate 0 ts))"
  shows "it_block_index tx < 2 ^ 32 \<and> length (it_digest tx) = 32 \<and> length (it_sender tx) = 32"
proof -
  obtain j where j: "j < length ts" "tx = indexed_entry c j (ts ! j)"
    using assms(4) by (auto simp: in_set_conv_nth nth_enumerate_eq)
  then have "ts ! j \<in> set ts" by simp
  from indexable_sender [OF assms(1,3) this] obtain k where k: "sender_key c (ts ! j) = Some k"
    "signed_transaction_wf c (ts ! j)" by blast
  then have "message_digest (ts ! j) = hash c (transaction_write c (st_value (ts ! j)))"
    by (simp add: signed_transaction_wf_def transaction_hash_slow_def)
  with assms(2) have "length (message_digest (ts ! j)) = 32" by (simp add: digest32_def)
  moreover have "length k = 32" by (rule sender_key_length [OF _ k(1)]) (simp add: assms(1))
  moreover have "j < 2 ^ 32" using j(1) assms(3) by (simp add: indexable_def)
  ultimately show ?thesis by (simp add: j(2) indexed_entry_def k(1))
qed

definition block_rows :: "'x tx_env_scheme \<Rightarrow> sealed_block \<Rightarrow> i64 \<Rightarrow> u64 \<Rightarrow> signed_transaction list \<Rightarrow> sql_row list" where
  "block_rows c block ts_micros append_start ts =
    (let h = b_header (sealed_inner block) in
     encode_block_meta_row
       \<lparr>bm_height = h_height h, bm_digest = seal block, bm_tx_count = word_of_nat (length ts),
        bm_transactions_root = h_transactions_root h,
        bm_transactions_tip = range_end (h_transactions_range h) - 1, bm_view = 0,
        bm_finalized_ts_micros = ts_micros\<rparr> #
     concat (map (\<lambda>(j, t). entry_rows (h_height h) append_start j (indexed_entry c j t)) (enumerate 0 ts)))"

lemma enumerate_map_enumerate:
  "enumerate k (map (\<lambda>(j, t). f j t) (enumerate k ts)) = map (\<lambda>(j, t). (j, f j t)) (enumerate k ts)"
  by (induction ts arbitrary: k) simp_all

lemma encode_rows_Ok:
  assumes "tx_env_ok c" "digest32 c" "indexable c ns block ts"
    and "checked_sub (range_end (h_transactions_range (b_header (sealed_inner block))))
      (word_of_nat (length ts) + 1) = Some append_start"
  shows "encode_indexed_block_rows_at c block us =
    Ok \<lparr>ib_sql = block_rows c block us append_start ts, ib_transaction_digests = map message_digest ts\<rparr>"
proof -
  let ?es = "map (\<lambda>(j, t). indexed_entry c j t) (enumerate 0 ts)"
  have "index_body c 0 (b_body (sealed_inner block)) = Ok ?es"
    using assms(3) indexable_sender(1) [OF assms(1,3)]
    by (intro index_body_entries [OF assms(1)]) (auto simp: indexable_def)
  moreover have "index_rows height append_start 0 ?es =
      Ok (concat (map (\<lambda>(j, tx). entry_rows height append_start j tx) (enumerate 0 ?es)), map it_digest ?es)"
    for height using entry_widths [OF assms(1-3)] by (intro index_rows_entries) blast
  moreover have "map it_digest ?es = map message_digest ts"
    by (simp add: list_eq_iff_nth_eq nth_enumerate_eq indexed_entry_def)
  moreover have "array32 (seal block) = Ok (seal block)"
    "array32 (h_transactions_root (b_header (sealed_inner block))) =
      Ok (h_transactions_root (b_header (sealed_inner block)))"
    using assms(3) by (simp_all add: array32_def indexable_def)
  ultimately show ?thesis
    by (simp add: encode_indexed_block_rows_at_def assms(4) Let_def block_rows_def
        enumerate_map_enumerate comp_def) (simp add: split_def)
qed

section \<open>Uploads expand\<close>

text \<open>Operations in front of the appends: the first upload also carries the initial commit.\<close>

definition genesis_ops :: "u64 \<Rightarrow> nat" where
  "genesis_ops start = (if start = 0 then 1 else 0)"

lemma unat_word_of_small: "n < 2 ^ 33 \<Longrightarrow> unat (word_of_nat n :: u64) = n"
  by (subst unat_of_nat) simp

text \<open>The number of operations an upload takes, as the code adds it up.\<close>

definition op_count :: "u64 \<Rightarrow> nat \<Rightarrow> u64" where
  "op_count start n = word_of_nat n + 1 + (if start = 0 then 1 else 0)"

lemma unat_op_count: "n < 2 ^ 32 \<Longrightarrow> unat (op_count start n) = genesis_ops start + n + 1"
  using unat_word_of_small [of "n + 1"] unat_word_of_small [of "n + 2"]
  by (simp add: op_count_def genesis_ops_def add.commute)

lemma op_count_checked:
  assumes "n < 2 ^ 32"
  shows "checked_add (word_of_nat n :: u64) 1 = Some (op_count 1 n)"
    and "checked_add (op_count 1 n) 1 = Some (op_count 0 n)"
  using assms unat_word_of_small [of n] unat_op_count [of n 1]
  by (simp_all add: checked_add_def genesis_ops_def) (simp_all add: op_count_def)

lemma transaction_upload_end_eq:
  assumes "length (b_body (sealed_inner block)) = n" "n < 2 ^ 32" "b_header (sealed_inner block) = h"
  shows "transaction_upload_end start block =
    (if start = 0 \<and> 1 < h_height h then Err (Publish (StoreEmptyPastGenesis (h_height h)))
     else bind_res (expect (checked_sub (range_end (h_transactions_range h)) (op_count start n))
         ''block transaction range must include this batch'') (\<lambda>block_start.
       if start \<noteq> block_start then Err (Publish (WriterOutOfSync start block_start))
       else expect (checked_add start (op_count start n)) ''transaction writer reservation does not overflow''))"
proof -
  have "(if start = 0 then expect (checked_add (op_count 1 n) 1) m else Ok (op_count 1 n)) = Ok (op_count start n)"
    for m using op_count_checked(2) [OF assms(2)] by (simp add: op_count_def)
  then show ?thesis
    unfolding transaction_upload_end_def assms(1,3) Let_def op_count_checked(1) [OF assms(2)]
    by simp
qed

lemma transaction_upload_end_Ok:
  assumes "transaction_upload_end start block = Ok e" "length (b_body (sealed_inner block)) = n" "n < 2 ^ 32"
    and "b_header (sealed_inner block) = h"
  shows "e = range_end (h_transactions_range h)" "checked_sub e (op_count start n) = Some start"
    and "unat e = unat start + genesis_ops start + n + 1"
    and "\<not> (start = 0 \<and> 1 < h_height h)"
proof -
  note eq = assms(1) [unfolded transaction_upload_end_eq [OF assms(2-4)]]
  show g: "\<not> (start = 0 \<and> 1 < h_height h)" using eq by (auto split: if_splits)
  have s: "checked_sub (range_end (h_transactions_range h)) (op_count start n) = Some start"
    and a: "checked_add start (op_count start n) = Some e"
    using eq g by (auto simp: bind_res_Ok_iff expect_Ok_iff split: if_splits)
  show e: "e = range_end (h_transactions_range h)"
    using s a unfolding checked_sub_Some_iff checked_add_Some_iff by (metis diff_add_cancel)
  show "checked_sub e (op_count start n) = Some start" using s e by simp
  show "unat e = unat start + genesis_ops start + n + 1"
    using checked_add_unat [OF a] unat_op_count [OF assms(3), of start] by simp
qed

lemma ops_from_digests:
  assumes "transaction_upload_end start block = Ok e" "length (b_body (sealed_inner block)) = length ds"
    and "length ds < 2 ^ 32"
  shows "build_transaction_upload_from_digests block start ds =
    Ok (replicate (genesis_ops start) (OpCommit None 0) @ map OpAppend ds
      @ [OpCommit None (range_start (h_transactions_range (b_header (sealed_inner block))))])"
proof -
  note u = transaction_upload_end_Ok [OF assms(1,2,3) refl]
  have "word_of_nat (length ((if start = 0 then [OpCommit None 0] else []) @ map OpAppend ds
      @ [OpCommit None (range_start (h_transactions_range (b_header (sealed_inner block))))])) = op_count start (length ds)"
    by (simp add: op_count_def)
  with u(2,4) show ?thesis
    unfolding build_transaction_upload_from_digests_def transaction_ops_from_digests_def Let_def u(1)
    by (simp add: genesis_ops_def)
qed

lemma append_start_eq:
  assumes "checked_sub e (op_count start n) = Some start" "n < 2 ^ 32"
  shows "checked_sub e (word_of_nat n + 1) = Some (start + word_of_nat (genesis_ops start))"
proof -
  have le: "op_count start n \<le> e" and start: "start = e - op_count start n"
    using assms(1) by (auto simp: checked_sub_Some_iff)
  have "e - op_count start n + word_of_nat (genesis_ops start) = e - (word_of_nat n + 1)"
    by (simp add: op_count_def genesis_ops_def)
  with start have "e - (word_of_nat n + 1) = start + word_of_nat (genesis_ops start)" by simp
  moreover have "unat (word_of_nat n + 1 :: u64) = n + 1"
    using unat_op_count [OF assms(2), of 1] by (simp add: op_count_def genesis_ops_def)
  then have "word_of_nat n + 1 \<le> e"
    using le unat_op_count [OF assms(2), of start] by (simp add: word_le_nat_alt)
  ultimately show ?thesis by (simp add: checked_sub_def)
qed

definition upload_ops :: "queued_upload \<Rightarrow> signed_transaction list \<Rightarrow> transaction_operation list" where
  "upload_ops u ts =
    replicate (genesis_ops (qu_transaction_start u)) (OpCommit None 0) @ map (OpAppend \<circ> message_digest) ts
    @ [OpCommit None (range_start (h_transactions_range (b_header (sealed_inner (qu_block u)))))]"

lemma upload_transaction_end_Ok:
  "upload_transaction_end u = Ok e \<longleftrightarrow> transaction_upload_end (qu_transaction_start u) (qu_block u) = Ok e"
  by (auto simp: upload_transaction_end_def split: result.splits)

lemma indexable_length: "indexable c ns block ts \<Longrightarrow> length (b_body (sealed_inner block)) = length ts"
  unfolding indexable_def by (metis length_map)

lemma expand_Ok:
  assumes "tx_env_ok c" "digest32 c" "indexable c ns (qu_block (pu_upload p)) ts"
    and "upload_transaction_end (pu_upload p) = Ok e"
  shows "expand_queued_finalized_upload c p =
    Ok \<lparr>ex_height = pu_height p,
       ex_block_rows =
        \<lparr>ib_sql = block_rows c (qu_block (pu_upload p)) (qu_finalized_ts_micros (pu_upload p))
           (qu_transaction_start (pu_upload p) + word_of_nat (genesis_ops (qu_transaction_start (pu_upload p)))) ts,
         ib_transaction_digests = map message_digest ts\<rparr>,
       ex_state_delta = qu_state_delta (pu_upload p),
       ex_account_rows = account_rows (qu_state_delta (pu_upload p)) (qu_state_start (pu_upload p)),
       ex_transaction_ops = upload_ops (pu_upload p) ts, ex_completion = pu_completion p\<rparr>"
proof -
  have l: "length (b_body (sealed_inner (qu_block (pu_upload p)))) = length ts" "length ts < 2 ^ 32"
    using indexable_length [OF assms(3)] assms(3) by (simp_all add: indexable_def)
  note end_ok = assms(4) [unfolded upload_transaction_end_Ok]
  note u = transaction_upload_end_Ok [OF end_ok l refl]
  have "encode_indexed_block_rows_at c (qu_block (pu_upload p)) us =
    Ok \<lparr>ib_sql = block_rows c (qu_block (pu_upload p)) us
       (qu_transaction_start (pu_upload p) + word_of_nat (genesis_ops (qu_transaction_start (pu_upload p)))) ts,
      ib_transaction_digests = map message_digest ts\<rparr>" for us
    by (rule encode_rows_Ok [OF assms(1-3)]) (use append_start_eq [OF u(2) l(2)] u(1) in simp)
  moreover have "build_transaction_upload_from_digests (qu_block (pu_upload p)) (qu_transaction_start (pu_upload p))
      (map message_digest ts) = Ok (upload_ops (pu_upload p) ts)"
    using ops_from_digests [OF end_ok, of "map message_digest ts"] l by (simp add: upload_ops_def)
  ultimately show ?thesis by (simp add: expand_queued_finalized_upload_def Let_def)
qed

lemma entry_rows_shift: "entry_rows h (s + word_of_nat g) k tx = entry_rows h s (g + k) tx"
  by (simp add: entry_rows_def add.assoc)

lemma block_rows_entry:
  assumes "i < length ts"
  shows "set (entry_rows (h_height (b_header (sealed_inner block))) a i (indexed_entry c i (ts ! i)))
    \<subseteq> set (block_rows c block us a ts)"
proof -
  have "(i, ts ! i) \<in> set (enumerate 0 ts)" using assms by (simp add: in_set_enumerate_eq)
  then show ?thesis unfolding block_rows_def Let_def by fastforce
qed

section \<open>Account rows\<close>

lemma account_value_slices:
  assumes "codec_ok c"
  shows "account_value_balance (account_write c a) = balance a"
    and "account_value_nonce_base (account_write c a) = base (acct_nonce a)"
    and "account_value_nonce_bitmap (account_write c a) = bitmap (acct_nonce a)"
  by (simp_all add: account_value_balance_def account_value_nonce_base_def account_value_nonce_bitmap_def
      byte_slice_def account_write_def nonce_write_def write_u64_eq [OF assms])

text \<open>The row of an account as the log holds it.\<close>

definition account_row :: "u64 \<Rightarrow> account_key \<Rightarrow> account \<Rightarrow> sql_row" where
  "account_row location k a =
    encode_account_meta_row
      \<lparr>am_account = k, am_balance = balance a, am_nonce_base = base (acct_nonce a),
       am_nonce_bitmap = bitmap (acct_nonce a), am_qmdb_location = location\<rparr>"

fun operation_row :: "u64 \<Rightarrow> nat \<times> account state_operation \<Rightarrow> sql_row list" where
  "operation_row start (i, OpUpdate k a) = [account_row (start + word_of_nat i) k a]"
| "operation_row start (i, _) = []"

lemma account_rows_from_encoded:
  assumes "codec_ok c"
  shows "account_rows_from start off (map (encode_account_operation c) ops) =
    concat (map (operation_row start) (enumerate off ops))"
proof (induction ops arbitrary: off)
  case (Cons x ops)
  then show ?case
    by (cases x) (simp_all add: account_row_def encode_account_def account_value_slices [OF assms])
qed simp

lemma account_rows_nth:
  assumes "codec_ok c" "i < length ops" "ops ! i = OpUpdate k a"
  shows "account_row (start + word_of_nat i) k a \<in> set (account_rows (map (encode_account_operation c) ops) start)"
proof -
  have "(i, OpUpdate k a) \<in> set (enumerate 0 ops)" using assms(2,3) by (simp add: in_set_enumerate_eq)
  then show ?thesis
    unfolding account_rows_def account_rows_from_encoded [OF assms(1)] by force
qed

section \<open>Rows and columns\<close>

fun cell_fits :: "cell_value \<Rightarrow> data_type \<Rightarrow> bool" where
  "cell_fits (CellUInt64 _) ty \<longleftrightarrow> ty = DtUInt64"
| "cell_fits (CellFixedBinary b) ty \<longleftrightarrow> ty = DtFixedSizeBinary (length b)"
| "cell_fits (CellTimestamp _) ty \<longleftrightarrow> ty = DtTimestampMicrosecond"
| "cell_fits (CellUtf8 _) ty \<longleftrightarrow> ty = DtUtf8"

definition row_fits :: "sql_row \<Rightarrow> table_decl \<Rightarrow> bool" where
  "row_fits row t \<longleftrightarrow> row_table row = td_name t \<and>
    list_all2 (\<lambda>v col. cell_fits v (col_type col)) (row_values row) (td_columns t)"

definition fits_schema :: "sql_row \<Rightarrow> bool" where
  "fits_schema row \<longleftrightarrow> list_ex (row_fits row) meta_tables"

lemmas fits_defs = fits_schema_def row_fits_def meta_tables_def block_meta_decl_def tx_meta_decl_def
  tx_activity_decl_def account_meta_decl_def column_def

lemma encoded_rows_fit:
  "length (bm_digest b) = 32 \<Longrightarrow> length (bm_transactions_root b) = 32 \<Longrightarrow> fits_schema (encode_block_meta_row b)"
  "length (tm_digest t) = 32 \<Longrightarrow> fits_schema (encode_tx_meta_row t)"
  "length (ta_account a) = 32 \<Longrightarrow> length (ta_digest a) = 32 \<Longrightarrow> length (ta_counterparty a) = 32 \<Longrightarrow>
    fits_schema (encode_tx_activity_row a)"
  "length (am_account m) = 32 \<Longrightarrow> fits_schema (encode_account_meta_row m)"
  by (simp_all add: fits_defs encode_block_meta_row_def encode_tx_meta_row_def encode_tx_activity_row_def
      encode_account_meta_row_def)

lemma entry_rows_fit:
  assumes "length (it_digest tx) = 32" "length (it_sender tx) = 32" "length (it_to tx) = 32"
  shows "list_all fits_schema (entry_rows h a k tx)"
  using assms by (simp add: entry_rows_def activity_rows_def Let_def encoded_rows_fit)

lemma account_rows_fit:
  "\<forall>k v. OpUpdate k v \<in> set delta \<longrightarrow> length k = 32 \<Longrightarrow> list_all fits_schema (account_rows_from s off delta)"
proof (induction delta arbitrary: off)
  case (Cons x delta)
  then have "list_all fits_schema (account_rows_from s (Suc off) delta)" by auto
  with Cons.prems show ?case by (cases x) (simp_all add: encoded_rows_fit)
qed simp

lemma block_rows_fit:
  assumes "tx_env_ok c" "digest32 c" "indexable c ns block ts"
  shows "list_all fits_schema (block_rows c block us a ts)"
proof -
  have "list_all fits_schema (entry_rows h a j (indexed_entry c j t))" if jt: "(j, t) \<in> set (enumerate 0 ts)" for h j t
  proof (rule entry_rows_fit)
    have "indexed_entry c j t \<in> set (map (\<lambda>(j, t). indexed_entry c j t) (enumerate 0 ts))" using jt by force
    from entry_widths [OF assms this]
    show "length (it_digest (indexed_entry c j t)) = 32" "length (it_sender (indexed_entry c j t)) = 32" by simp_all
    have "t \<in> set ts" using jt by (auto simp: in_set_enumerate_eq)
    from indexable_sender(2) [OF assms(1,3) this]
    show "length (it_to (indexed_entry c j t)) = 32"
      by (simp add: indexed_entry_def signed_transaction_wf_def transaction_wf_def account_key_wf_def account_key_size_def)
  qed
  then show ?thesis
    using assms(3) by (auto simp: block_rows_def Let_def indexable_def list_all_iff intro!: encoded_rows_fit)
qed

section \<open>The durable queue\<close>

text \<open>Keys and values have the fixed width of their types.\<close>

fun operation_wf :: "bytes state_operation \<Rightarrow> bool" where
  "operation_wf (OpDelete k) \<longleftrightarrow> length k = account_key_size"
| "operation_wf (OpUpdate k v) \<longleftrightarrow> length k = account_key_size \<and> length v = account_size"
| "operation_wf (OpCommitFloor v _) \<longleftrightarrow> (case v of None \<Rightarrow> True | Some v \<Rightarrow> length v = account_size)"

definition upload_lib_ok :: "upload_lib \<Rightarrow> bool" where
  "upload_lib_ok lib \<longleftrightarrow>
    (\<forall>x rest. read_i64 lib (write_i64 lib x @ rest) = Ok (x, rest)) \<and>
    (\<forall>ops lo hi rest. list_all operation_wf ops \<longrightarrow> lo \<le> length ops \<longrightarrow> length ops \<le> hi \<longrightarrow> length ops < 2 ^ 32 \<longrightarrow>
      state_ops_read lib (lo, hi) (state_ops_write lib ops @ rest) = Ok (ops, rest))"

text \<open>The entry as it comes back from the queue: the transactions of the body are not decoded.\<close>

definition requeued :: "'x block_env_scheme \<Rightarrow> header \<Rightarrow> signed_transaction list \<Rightarrow> queued_upload \<Rightarrow> queued_upload" where
  "requeued c h ts u = u\<lparr>qu_block := block_seal c \<lparr>b_header = h, b_body = deferred_body c ts\<rparr>\<rparr>"

lemma queued_upload_read_write:
  assumes "block_env_ok c" "upload_lib_ok lib" "header_wf c h" "list_all (signed_transaction_wf c) ts"
    and "length ts < 2 ^ 32" "length (qu_state_delta u) < 2 ^ 32" "qu_block u = block_seal c (block_new h ts)"
    and "list_all operation_wf (qu_state_delta u)"
  obtains w where "queued_upload_write c lib u = Some w" "queued_upload_encode_size c lib u = Some (length w)"
    "queued_upload_read c lib queued_upload_cfg_default (w @ rest) = Ok (requeued c h ts u, rest)"
proof -
  have c: "codec_ok c" using assms(1) by (simp add: block_env_ok_def tx_env_ok_def crypto_ok_def)
  let ?tail = "write_i64 lib (qu_finalized_ts_micros u) @ write_u64 c (qu_state_start u)
    @ write_u64 c (qu_transaction_start u) @ state_ops_write lib (qu_state_delta u)"
  have "max_transactions block_cfg_default = (0, usize_max)" "length ts \<le> usize_max"
    using assms(5) by (simp_all add: block_cfg_default_def usize_max_def)
  from block_read_write [OF assms(1,3,4) this(1) _ this(2) assms(5), of "?tail @ rest"] obtain w where
    w: "block_write c (block_new h ts) = Some w"
      "block_read c block_cfg_default (w @ ?tail @ rest) =
        Ok (\<lparr>b_header = h, b_body = deferred_body c ts\<rparr>, ?tail @ rest)" by auto
  have ops: "state_ops_read lib (0, usize_max) (state_ops_write lib (qu_state_delta u) @ rest) =
      Ok (qu_state_delta u, rest)"
    using assms(2,6,8) by (simp add: upload_lib_ok_def usize_max_def)
  have i64: "read_i64 lib (write_i64 lib x @ r) = Ok (x, r)" for x r
    using assms(2) by (simp add: upload_lib_ok_def)
  have b: "sealed_inner (qu_block u) = block_new h ts"
    by (simp add: assms(7) block_seal_def sealed_new_unchecked_def)
  show thesis
  proof (rule that)
    show "queued_upload_write c lib u = Some (w @ ?tail)" by (simp add: queued_upload_write_def b w(1))
    show "queued_upload_encode_size c lib u = Some (length (w @ ?tail))"
      by (simp add: queued_upload_encode_size_def b w(1) c)
    show "queued_upload_read c lib queued_upload_cfg_default ((w @ ?tail) @ rest) = Ok (requeued c h ts u, rest)"
      using w(2) ops c
      by (simp add: queued_upload_read_def queued_upload_cfg_default_def sealed_block_read_def sealed_read_def
          i64 requeued_def)
  qed
qed

lemma lazy_valid_get: "lazy_get c a = lazy_get c b \<Longrightarrow> lazy_valid c ns a = lazy_valid c ns b"
  by (simp add: lazy_valid_def)

lemma indexable_sealed:
  assumes "digest32 c" "length ts < 2 ^ 32" "length (h_transactions_root h) = 32"
    and "list_all (\<lambda>t. lazy_valid c ns (lazy_new t)) ts"
    and "list_all (lazy_wf c) body" "map (lazy_get c) body = map Some ts"
  shows "indexable c ns (block_seal c \<lparr>b_header = h, b_body = body\<rparr>) ts"
proof -
  have "lazy_valid c ns lz" if "lz \<in> set body" for lz
  proof -
    from that obtain i where i: "i < length body" "lz = body ! i" by (auto simp: in_set_conv_nth)
    have "length body = length ts" using assms(6) by (metis length_map)
    with i assms(6) have "i < length ts" "lazy_get c lz = lazy_get c (lazy_new (ts ! i))"
      by (simp_all add: list_eq_iff_nth_eq)
    with assms(4) show ?thesis using lazy_valid_get [of c lz "lazy_new (ts ! i)" ns] by (auto simp: list_all_iff)
  qed
  with assms show ?thesis
    by (simp add: indexable_def block_seal_def sealed_new_unchecked_def header_hash_slow_def digest32_def list_all_iff)
qed

lemma indexable_new:
  assumes "digest32 c" "length ts < 2 ^ 32" "length (h_transactions_root h) = 32"
    and "list_all (signed_transaction_wf c) ts" "list_all (\<lambda>t. lazy_valid c ns (lazy_new t)) ts"
  shows "indexable c ns (block_seal c (block_new h ts)) ts"
  unfolding block_new_def using assms
  by (intro indexable_sealed) (auto simp: list_all_iff lazy_wf_constructors)

lemma indexable_requeued:
  assumes "tx_env_ok c" "digest32 c" "length ts < 2 ^ 32" "length (h_transactions_root h) = 32"
    and "list_all (signed_transaction_wf c) ts" "list_all (\<lambda>t. lazy_valid c ns (lazy_new t)) ts"
  shows "indexable c ns (qu_block (requeued c h ts u)) ts"
  using assms lazy_write_new(3) [OF assms(1)]
  by (simp add: requeued_def)
    (intro indexable_sealed, auto simp: list_all_iff deferred_body_def lazy_wf_constructors)

lemma requeued_fields [simp]:
  "qu_finalized_ts_micros (requeued c h ts u) = qu_finalized_ts_micros u"
  "qu_state_start (requeued c h ts u) = qu_state_start u"
  "qu_transaction_start (requeued c h ts u) = qu_transaction_start u"
  "qu_state_delta (requeued c h ts u) = qu_state_delta u"
  "b_header (sealed_inner (qu_block (requeued c h ts u))) = h"
  "length (b_body (sealed_inner (qu_block (requeued c h ts u)))) = length ts"
  by (simp_all add: requeued_def block_seal_def sealed_new_unchecked_def deferred_body_def)

section \<open>Captured uploads\<close>

text \<open>The proof of the local database holds as many operations as were asked for.\<close>

definition proof_exact :: "historical_proof \<Rightarrow> bool" where
  "proof_exact proof_of \<longleftrightarrow> (\<forall>e s n ops. proof_of e s n = Ok ops \<longrightarrow> length ops = unat n)"

lemma build_queued_Ok:
  assumes "build_queued_finalized_upload c proof_of clock s t block = Ok u"
  shows "qu_block u = block" "qu_state_start u = s" "qu_transaction_start u = t"
    "s < upload_state_end u" "is_ok (upload_transaction_end u)"
    "\<exists>ops. proof_of (upload_state_end u) s (upload_state_end u - s) = Ok ops \<and>
      qu_state_delta u = map (encode_account_operation c) ops"
proof -
  let ?h = "b_header (sealed_inner block)" and ?e = "range_end (h_state_range (b_header (sealed_inner block)))"
  obtain e delta where b: "transaction_upload_end t block = Ok e" "build_state_delta c proof_of s block = Ok delta"
    "u = \<lparr>qu_block = block, qu_finalized_ts_micros = current_time_micros clock, qu_state_start = s,
       qu_transaction_start = t, qu_state_delta = delta\<rparr>"
    using assms by (auto simp: build_queued_finalized_upload_def Let_def bind_res_Ok_iff)
  have load: "load_state_ops c proof_of s ?e = Ok delta"
    using b(2) by (auto simp: build_state_delta_def Let_def split: if_splits)
  then have le: "s \<le> ?e" "?e - s \<noteq> 0"
    by (auto simp: load_state_ops_def checked_sub_def split: if_splits)
  with load show "\<exists>ops. proof_of (upload_state_end u) s (upload_state_end u - s) = Ok ops \<and>
      qu_state_delta u = map (encode_account_operation c) ops"
    by (auto simp: load_state_ops_def checked_sub_def b(3) upload_state_end_def split: result.splits)
  from le show "s < upload_state_end u" by (auto simp: b(3) upload_state_end_def less_le)
  show "qu_block u = block" "qu_state_start u = s" "qu_transaction_start u = t" by (simp_all add: b(3))
  show "is_ok (upload_transaction_end u)" using b(1) by (simp add: b(3) upload_transaction_end_def)
qed

section \<open>Properties\<close>

text \<open>C27: The index points into the log: for a queued finalized block whose transactions were
  verified, the expansion does not fail, the operations fill exactly the span the upload reserved,
  the digest of the \<open>i\<close>-th transaction is appended at the location that its \<open>tx_meta\<close> row names, and
  the row of the sender carries the receiver, value and nonce of the transfer.\<close>

theorem rows_locate_operations:
  assumes "tx_env_ok c" "digest32 c" "indexable c ns (qu_block u) ts" "upload_transaction_end u = Ok e"
  shows "\<exists>x. expand_queued_finalized_upload c \<lparr>pu_height = upload_height u, pu_upload = u, pu_completion = k\<rparr> = Ok x \<and>
    unat e = unat (qu_transaction_start u) + length (ex_transaction_ops x) \<and>
    (\<forall>i < length ts. \<exists>j key.
      ex_transaction_ops x ! j = OpAppend (message_digest (ts ! i)) \<and>
      encode_tx_meta_row
        \<lparr>tm_digest = message_digest (ts ! i), tm_qmdb_location = qu_transaction_start u + word_of_nat j,
         tm_body = signed_transaction_write c (ts ! i)\<rparr> \<in> set (expanded_sql x) \<and>
      sender_key c (ts ! i) = Some key \<and>
      encode_tx_activity_row
        \<lparr>ta_account = key, ta_role = RoleSender, ta_height = upload_height u, ta_index = word_of_nat i,
         ta_digest = message_digest (ts ! i), ta_counterparty = tx_to (st_value (ts ! i)),
         ta_value = tx_value (st_value (ts ! i)), ta_nonce = tx_nonce (st_value (ts ! i))\<rparr> \<in> set (expanded_sql x))"
proof -
  let ?p = "\<lparr>pu_height = upload_height u, pu_upload = u, pu_completion = k\<rparr>"
  let ?g = "genesis_ops (qu_transaction_start u)"
  obtain x where x: "expand_queued_finalized_upload c ?p = Ok x" "ex_transaction_ops x = upload_ops u ts"
    "set (block_rows c (qu_block u) (qu_finalized_ts_micros u) (qu_transaction_start u + word_of_nat ?g) ts)
      \<subseteq> set (expanded_sql x)"
    using expand_Ok [of c ns ?p ts e] assms by (auto simp: expanded_sql_def)
  have l: "length (b_body (sealed_inner (qu_block u))) = length ts" "length ts < 2 ^ 32"
    using indexable_length [OF assms(3)] assms(3) by (simp_all add: indexable_def)
  have "unat e = unat (qu_transaction_start u) + length (ex_transaction_ops x)"
    using transaction_upload_end_Ok(3) [OF assms(4) [unfolded upload_transaction_end_Ok] l refl]
    by (simp add: x(2) upload_ops_def)
  moreover have "\<exists>j key. ex_transaction_ops x ! j = OpAppend (message_digest (ts ! i)) \<and>
      encode_tx_meta_row
        \<lparr>tm_digest = message_digest (ts ! i), tm_qmdb_location = qu_transaction_start u + word_of_nat j,
         tm_body = signed_transaction_write c (ts ! i)\<rparr> \<in> set (expanded_sql x) \<and>
      sender_key c (ts ! i) = Some key \<and>
      encode_tx_activity_row
        \<lparr>ta_account = key, ta_role = RoleSender, ta_height = upload_height u, ta_index = word_of_nat i,
         ta_digest = message_digest (ts ! i), ta_counterparty = tx_to (st_value (ts ! i)),
         ta_value = tx_value (st_value (ts ! i)), ta_nonce = tx_nonce (st_value (ts ! i))\<rparr> \<in> set (expanded_sql x)"
    if i: "i < length ts" for i
  proof -
    obtain key where key: "sender_key c (ts ! i) = Some key"
      using indexable_sender(1) [OF assms(1,3)] i by force
    have "set (entry_rows (upload_height u) (qu_transaction_start u) (?g + i) (indexed_entry c i (ts ! i)))
        \<subseteq> set (expanded_sql x)"
      using block_rows_entry [OF i, of "qu_block u" "qu_transaction_start u + word_of_nat ?g" c] x(3)
      by (simp add: entry_rows_shift upload_height_def) blast
    moreover have "ex_transaction_ops x ! (?g + i) = OpAppend (message_digest (ts ! i))"
      using i by (simp add: x(2) upload_ops_def nth_append)
    ultimately show ?thesis using key
      by (intro exI [of _ "?g + i"] exI [of _ key])
        (simp add: entry_rows_def activity_rows_def Let_def indexed_entry_def)
  qed
  ultimately show ?thesis using x(1) by blast
qed

definition demo_indexed :: sealed_block where
  "demo_indexed = block_seal demo_block_env (block_new (demo_header 4 1000) [demo_signed 7 8 50 0])"

definition demo_upload :: queued_upload where
  "demo_upload =
    \<lparr>qu_block = demo_indexed, qu_finalized_ts_micros = 5, qu_state_start = 3, qu_transaction_start = 2,
     qu_state_delta = [OpUpdate (replicate 32 9) (replicate 24 1), OpCommitFloor None 3]\<rparr>"

lemma digest32_demo: "digest32 demo_block_env"
  by (auto simp: digest32_def demo_block_env_def tx_env.extend_def block_env.fields_def min_def)

lemma demo_root: "length (h_transactions_root (demo_header h t)) = 32"
  by (simp add: demo_header_def)

lemma demo_indexable: "indexable demo_block_env ns demo_indexed [demo_signed 7 8 50 0]"
  unfolding demo_indexed_def
  by (rule indexable_new [OF digest32_demo _ demo_root])
    (simp_all add: demo_signed_wf_block demo_body_valid)

lemma demo_upload_end: "upload_transaction_end demo_upload = Ok 4"
  by (simp add: upload_transaction_end_def transaction_upload_end_def demo_upload_def demo_indexed_def
      block_seal_def sealed_new_unchecked_def block_new_def demo_header_def checked_add_def checked_sub_def Let_def)

theorem rows_locate_operations_witness:
  "\<exists>x. expand_queued_finalized_upload demo_block_env
      \<lparr>pu_height = upload_height demo_upload, pu_upload = demo_upload, pu_completion = 0\<rparr> = Ok x \<and>
    length (ex_transaction_ops x) = 2"
proof -
  have "indexable demo_block_env [] (qu_block demo_upload) [demo_signed 7 8 50 0]"
    using demo_indexable by (simp add: demo_upload_def)
  from rows_locate_operations [OF _ digest32_demo this demo_upload_end, of 0]
  show ?thesis by (auto simp: demo_upload_def)
qed

text \<open>The durable queue loses nothing: an entry written to the queue is read back, takes
  \<open>encode_size\<close> bytes, and expands to the same rows and operations, so uploading after a restart
  sends what would have been sent before it.\<close>

theorem queue_entry_survives:
  assumes "block_env_ok c" "upload_lib_ok lib" "digest32 c" "header_wf c h" "length (h_transactions_root h) = 32"
    and "list_all (signed_transaction_wf c) ts" "list_all (\<lambda>t. lazy_valid c ns (lazy_new t)) ts"
    and "length ts < 2 ^ 32" "length (qu_state_delta u) < 2 ^ 32" "list_all operation_wf (qu_state_delta u)"
    and "qu_block u = block_seal c (block_new h ts)" "upload_transaction_end u = Ok e"
  shows "\<exists>w u'. queued_upload_write c lib u = Some w \<and> queued_upload_encode_size c lib u = Some (length w) \<and>
    queued_upload_read c lib queued_upload_cfg_default (w @ rest) = Ok (u', rest) \<and>
    upload_height u' = upload_height u \<and> upload_state_end u' = upload_state_end u \<and>
    upload_transaction_end u' = Ok e \<and>
    is_ok (expand_queued_finalized_upload c \<lparr>pu_height = n, pu_upload = u', pu_completion = k\<rparr>) \<and>
    expand_queued_finalized_upload c \<lparr>pu_height = n, pu_upload = u', pu_completion = k\<rparr> =
      expand_queued_finalized_upload c \<lparr>pu_height = n, pu_upload = u, pu_completion = k\<rparr>"
proof -
  let ?u = "requeued c h ts u"
  obtain w where w: "queued_upload_write c lib u = Some w" "queued_upload_encode_size c lib u = Some (length w)"
    "queued_upload_read c lib queued_upload_cfg_default (w @ rest) = Ok (?u, rest)"
    using queued_upload_read_write [OF assms(1,2,4,6,8,9,11,10)] by blast
  have tx: "tx_env_ok c" using assms(1) by simp
  have ix: "indexable c ns (qu_block u) ts" "indexable c ns (qu_block ?u) ts"
    using indexable_new [OF assms(3,8,5,6,7)] indexable_requeued [OF tx assms(3,8,5,6,7)] assms(11) by simp_all
  have hdr: "b_header (sealed_inner (qu_block u)) = h" "length (b_body (sealed_inner (qu_block u))) = length ts"
    by (simp_all add: assms(11) block_seal_def sealed_new_unchecked_def block_new_def)
  have "transaction_upload_end s (qu_block ?u) = transaction_upload_end s (qu_block u)" for s
    by (simp add: transaction_upload_end_def hdr)
  then have e: "upload_transaction_end ?u = Ok e" using assms(12) by (simp add: upload_transaction_end_def)
  have "block_rows c (qu_block ?u) us a ts = block_rows c (qu_block u) us a ts" for us a
    by (simp add: block_rows_def hdr) (simp add: requeued_def assms(11) block_seal_def sealed_new_unchecked_def block_new_def)
  moreover have "upload_ops ?u ts = upload_ops u ts" by (simp add: upload_ops_def hdr)
  ultimately have x: "is_ok (expand_queued_finalized_upload c \<lparr>pu_height = n, pu_upload = ?u, pu_completion = k\<rparr>)"
    "expand_queued_finalized_upload c \<lparr>pu_height = n, pu_upload = ?u, pu_completion = k\<rparr> =
      expand_queued_finalized_upload c \<lparr>pu_height = n, pu_upload = u, pu_completion = k\<rparr>"
    using expand_Ok [OF tx assms(3), of ns "\<lparr>pu_height = n, pu_upload = ?u, pu_completion = k\<rparr>" ts e]
      expand_Ok [OF tx assms(3), of ns "\<lparr>pu_height = n, pu_upload = u, pu_completion = k\<rparr>" ts e] ix e assms(12)
    by simp_all
  show ?thesis
    using w e x by (intro exI [of _ w] exI [of _ ?u]) (simp add: upload_height_def upload_state_end_def hdr)
qed

text \<open>A concrete codec for the operations.\<close>

fun demo_op_write :: "bytes state_operation \<Rightarrow> bytes" where
  "demo_op_write (OpDelete k) = 0 # k"
| "demo_op_write (OpUpdate k v) = 1 # k @ v"
| "demo_op_write (OpCommitFloor None f) = 2 # u64_to_be f"
| "demo_op_write (OpCommitFloor (Some v) f) = 3 # v @ u64_to_be f"

fun demo_op_read :: "bytes state_operation reader" where
  "demo_op_read [] = Err EndOfBuffer"
| "demo_op_read (t # bs) =
    (if t = 0 then bind_res (take_bytes account_key_size bs) (\<lambda>(k, bs). Ok (OpDelete k, bs))
     else if t = 1 then
       bind_res (take_bytes account_key_size bs) (\<lambda>(k, bs).
       bind_res (take_bytes account_size bs) (\<lambda>(v, bs). Ok (OpUpdate k v, bs)))
     else if t = 2 then bind_res (take_bytes 8 bs) (\<lambda>(f, bs). Ok (OpCommitFloor None (u64_from_be f), bs))
     else
       bind_res (take_bytes account_size bs) (\<lambda>(v, bs).
       bind_res (take_bytes 8 bs) (\<lambda>(f, bs). Ok (OpCommitFloor (Some v) (u64_from_be f), bs))))"

definition demo_upload_lib :: upload_lib where
  "demo_upload_lib =
    \<lparr>write_i64 = u64_to_be, read_i64 = (\<lambda>bs. bind_res (take_bytes 8 bs) (\<lambda>(x, bs). Ok (u64_from_be x, bs))),
     state_ops_write = (\<lambda>ops. write_len be_codec (length ops) @ concat (map demo_op_write ops)),
     state_ops_read = (\<lambda>(lo, hi) bs. bind_res (read_len be_codec lo hi bs) (\<lambda>(n, bs). read_many demo_op_read n bs))\<rparr>"

lemma demo_op_codec: "operation_wf x \<Longrightarrow> demo_op_read (demo_op_write x @ rest) = Ok (x, rest)"
  by (cases x rule: demo_op_write.cases) simp_all

lemma upload_lib_ok_demo: "upload_lib_ok demo_upload_lib"
proof -
  have "read_many demo_op_read (length ops) (concat (map demo_op_write ops) @ rest) = Ok (ops, rest)"
    if "list_all operation_wf ops" for ops rest
    by (rule read_many_all2) (use that in \<open>simp add: list_all2_conv_all_nth list_all_length demo_op_codec\<close>)
  moreover have "read_len be_codec lo hi (write_len be_codec n @ r) = Ok (n, r)"
    if "lo \<le> n" "n \<le> hi" "n < 2 ^ 32" for lo n hi r
    using that by (intro read_len_write) simp_all
  ultimately show ?thesis by (simp add: upload_lib_ok_def demo_upload_lib_def)
qed

theorem queue_entry_survives_witness:
  "\<exists>w u'. queued_upload_write demo_block_env demo_upload_lib demo_upload = Some w \<and>
    queued_upload_read demo_block_env demo_upload_lib queued_upload_cfg_default (w @ [1]) = Ok (u', [1]) \<and>
    is_ok (expand_queued_finalized_upload demo_block_env \<lparr>pu_height = 4, pu_upload = u', pu_completion = 0\<rparr>)"
proof -
  have "\<exists>w u'. queued_upload_write demo_block_env demo_upload_lib demo_upload = Some w \<and>
    queued_upload_encode_size demo_block_env demo_upload_lib demo_upload = Some (length w) \<and>
    queued_upload_read demo_block_env demo_upload_lib queued_upload_cfg_default (w @ [1]) = Ok (u', [1]) \<and>
    upload_height u' = upload_height demo_upload \<and> upload_state_end u' = upload_state_end demo_upload \<and>
    upload_transaction_end u' = Ok 4 \<and>
    is_ok (expand_queued_finalized_upload demo_block_env \<lparr>pu_height = 4, pu_upload = u', pu_completion = 0\<rparr>) \<and>
    expand_queued_finalized_upload demo_block_env \<lparr>pu_height = 4, pu_upload = u', pu_completion = 0\<rparr> =
      expand_queued_finalized_upload demo_block_env \<lparr>pu_height = 4, pu_upload = demo_upload, pu_completion = 0\<rparr>"
    by (rule queue_entry_survives [OF block_env_ok_demo upload_lib_ok_demo digest32_demo demo_header_wf demo_root,
          of "[demo_signed 7 8 50 0]" "[]", OF _ _ _ _ _ _ demo_upload_end])
      (simp_all add: demo_signed_wf_block demo_body_valid demo_upload_def demo_indexed_def account_key_size_def
        account_size_def nonce_size_def)
  then show ?thesis by blast
qed

text \<open>C30: Every row fits its table: each row of an expanded upload goes to a table of the schema, has one
  cell per column, and every cell has the column's type and width.\<close>

theorem rows_fit_schema:
  assumes "tx_env_ok c" "digest32 c" "indexable c ns (qu_block (pu_upload p)) ts"
    and "upload_transaction_end (pu_upload p) = Ok e" "list_all operation_wf (qu_state_delta (pu_upload p))"
  shows "\<exists>x. expand_queued_finalized_upload c p = Ok x \<and> list_all fits_schema (expanded_sql x)"
proof -
  have "\<forall>k v. OpUpdate k v \<in> set (qu_state_delta (pu_upload p)) \<longrightarrow> length k = 32"
    using assms(5) by (auto simp: list_all_iff account_key_size_def)
  then show ?thesis
    using expand_Ok [OF assms(1-4)] block_rows_fit [OF assms(1-3)]
    by (simp add: expanded_sql_def account_rows_def account_rows_fit)
qed

theorem rows_fit_schema_witness:
  "\<exists>x. expand_queued_finalized_upload demo_block_env \<lparr>pu_height = 4, pu_upload = demo_upload, pu_completion = 0\<rparr>
      = Ok x \<and> list_all fits_schema (expanded_sql x)"
  by (rule rows_fit_schema [OF _ digest32_demo, of "[]" _ "[demo_signed 7 8 50 0]" 4])
    (simp_all add: demo_upload_end, simp_all add: demo_upload_def demo_indexable account_key_size_def
      account_size_def nonce_size_def)

text \<open>What is captured before pruning is complete: the delta holds exactly the operations from the
  cursor to the end of the block's state range, and each account update among them has an
  \<open>account_meta\<close> row with its balance and nonce window at its location in the log.\<close>

theorem captured_delta_complete:
  assumes "codec_ok c" "proof_exact proof_of" "build_queued_finalized_upload c proof_of clock s t block = Ok u"
  shows "\<exists>ops. proof_of (upload_state_end u) s (upload_state_end u - s) = Ok ops \<and>
    qu_state_delta u = map (encode_account_operation c) ops \<and>
    unat (upload_state_end u) = unat s + length ops \<and>
    (\<forall>i k a. i < length ops \<longrightarrow> ops ! i = OpUpdate k a \<longrightarrow>
      account_row (s + word_of_nat i) k a \<in> set (account_rows (qu_state_delta u) (qu_state_start u)))"
proof -
  note b = build_queued_Ok [OF assms(3)]
  from b(6) obtain ops where ops: "proof_of (upload_state_end u) s (upload_state_end u - s) = Ok ops"
    "qu_state_delta u = map (encode_account_operation c) ops" by blast
  have "length ops = unat (upload_state_end u - s)" using assms(2) ops(1) by (auto simp: proof_exact_def)
  with b(4) have "unat (upload_state_end u) = unat s + length ops"
    by (simp add: unat_sub less_imp_le word_less_nat_alt word_le_nat_alt)
  with ops account_rows_nth [OF assms(1), of _ ops] show ?thesis
    by (intro exI [of _ ops]) (simp add: b(2))
qed

definition demo_proof :: historical_proof where
  "demo_proof e s n = Ok (replicate (unat n) (OpUpdate (replicate 32 7) account_default))"

theorem captured_delta_complete_witness:
  "\<exists>u. build_queued_finalized_upload demo_block_env demo_proof (Some 5) 3 2 demo_indexed = Ok u \<and>
    account_row 4 (replicate 32 7) account_default \<in> set (account_rows (qu_state_delta u) (qu_state_start u))"
proof -
  have "transaction_upload_end 2 demo_indexed = Ok 4" "range_end (h_state_range (b_header (sealed_inner demo_indexed))) = 5"
    "h_height (b_header (sealed_inner demo_indexed)) = 4"
    using demo_upload_end
    by (simp_all add: upload_transaction_end_Ok demo_upload_def)
      (simp_all add: demo_indexed_def block_seal_def sealed_new_unchecked_def block_new_def demo_header_def)
  then obtain u where u: "build_queued_finalized_upload demo_block_env demo_proof (Some 5) 3 2 demo_indexed = Ok u"
    by (simp add: build_queued_finalized_upload_def validate_writer_range_def build_state_delta_def load_state_ops_def
        checked_sub_def demo_proof_def Let_def)
  have "codec_ok demo_block_env" "proof_exact demo_proof"
    using block_env_tx [OF block_env_ok_demo] by (simp_all add: tx_env_ok_def crypto_ok_def proof_exact_def demo_proof_def)
  from captured_delta_complete [OF this u] obtain ops where ops:
    "demo_proof (upload_state_end u) 3 (upload_state_end u - 3) = Ok ops" "unat (upload_state_end u) = 3 + length ops"
    "\<forall>i k a. i < length ops \<longrightarrow> ops ! i = OpUpdate k a \<longrightarrow>
      account_row (3 + word_of_nat i) k a \<in> set (account_rows (qu_state_delta u) (qu_state_start u))" by auto
  have "upload_state_end u = 5" using build_queued_Ok(1) [OF u]
    by (simp add: upload_state_end_def demo_indexed_def block_seal_def sealed_new_unchecked_def block_new_def demo_header_def)
  with ops(1,2) have "length ops = 2" "ops ! 1 = OpUpdate (replicate 32 7) account_default"
    by (auto simp: demo_proof_def)
  with ops(3) [rule_format, of 1] u show ?thesis by auto
qed

end
