(* ===== verification/Uploads.thy ===== *)
theory Uploads
  imports Indexer Machines
begin

text \<open>
  The path of a finalized block into the indexer's Store: the cursors and the durable queue of the
  validator (\<open>bin/validator/src/run.rs\<close>) and the admission of queued uploads by the publisher
  (\<open>enqueue_queued_finalized\<close> of \<open>crates/indexer/src/publisher/qmdb.rs\<close>). Loops that retry after an
  error are functions of the list of answers that the environment gives, and return \<open>None\<close> while
  they are still retrying.
\<close>

section \<open>Cursors\<close>

record upload_cursor =
  state_next :: u64
  transaction_next :: u64

type_synonym metadata = "u64 \<Rightarrow> u64 option"

abbreviation cursor_state_key :: u64 where
  "cursor_state_key \<equiv> 0"

abbreviation cursor_transaction_key :: u64 where
  "cursor_transaction_key \<equiv> 1"

definition cursor_default :: upload_cursor where
  "cursor_default = \<lparr>state_next = 0, transaction_next = 0\<rparr>"

definition cursor_from_parts :: "u64 option \<Rightarrow> u64 option \<Rightarrow> upload_cursor option" where
  "cursor_from_parts s t =
    (case (s, t) of (Some s, Some t) \<Rightarrow> Some \<lparr>state_next = s, transaction_next = t\<rparr> | _ \<Rightarrow> None)"

definition cursor_from_metadata :: "metadata \<Rightarrow> upload_cursor option" where
  "cursor_from_metadata m = cursor_from_parts (m cursor_state_key) (m cursor_transaction_key)"

definition cursor_from_upload :: "queued_upload \<Rightarrow> (index_failure, upload_cursor) result" where
  "cursor_from_upload u =
    bind_res (upload_transaction_end u) (\<lambda>t. Ok \<lparr>state_next = upload_state_end u, transaction_next = t\<rparr>)"

definition cursor_max :: "upload_cursor \<Rightarrow> upload_cursor \<Rightarrow> upload_cursor" where
  "cursor_max a b =
    (if state_next a < state_next b \<or> state_next b = state_next a \<and> transaction_next a < transaction_next b
     then b else a)"

definition recovered_finalized_upload_cursor :: "upload_cursor option \<Rightarrow> upload_cursor option \<Rightarrow> upload_cursor" where
  "recovered_finalized_upload_cursor m q =
    cursor_max (case m of Some a \<Rightarrow> a | None \<Rightarrow> cursor_default) (case q of Some a \<Rightarrow> a | None \<Rightarrow> cursor_default)"

text \<open>Both keys are put and synced together.\<close>

definition put_cursor :: "upload_cursor \<Rightarrow> metadata \<Rightarrow> metadata" where
  "put_cursor a m = m(cursor_state_key \<mapsto> state_next a, cursor_transaction_key \<mapsto> transaction_next a)"

fun persist_finalized_cursor :: "bool list \<Rightarrow> upload_cursor \<Rightarrow> metadata \<Rightarrow> metadata option" where
  "persist_finalized_cursor [] a m = None"
| "persist_finalized_cursor (synced # oks) a m =
    (let m = put_cursor a m in if synced then Some m else persist_finalized_cursor oks a m)"

text \<open>The scan reads every entry that is not acknowledged and keeps the cursor of the last one.\<close>

fun scan_finalized_queue_cursor ::
    "upload_cursor option \<Rightarrow> queued_upload list \<Rightarrow> (index_failure, upload_cursor option) result" where
  "scan_finalized_queue_cursor cur [] = Ok cur"
| "scan_finalized_queue_cursor cur (u # us) =
    bind_res (cursor_from_upload u) (\<lambda>a. scan_finalized_queue_cursor (Some a) us)"

section \<open>The producer\<close>

record producer =
  dq :: "queued_upload list"
  cursor_metadata :: metadata
  cursor :: upload_cursor

text \<open>What the environment answers to one iteration: the proof of the state database, the clock, the
  locations of the remote Store, whether the queue accepts the entry, and the answers to syncing
  the cursor.\<close>

record attempt_env =
  ae_proof :: historical_proof
  ae_clock :: "nat option"
  ae_remote :: "u64 \<times> u64"
  ae_enqueue :: bool
  ae_sync :: "bool list"

datatype attempt = Queued producer | Retry producer | Syncing | Aborted string

definition producer_attempt :: "'x codec_scheme \<Rightarrow> attempt_env \<Rightarrow> sealed_block \<Rightarrow> producer \<Rightarrow> attempt" where
  "producer_attempt c env block p =
    (case build_queued_finalized_upload c (ae_proof env) (ae_clock env) (state_next (cursor p))
        (transaction_next (cursor p)) block of
       Ok upload \<Rightarrow>
         (case cursor_from_upload upload of
            Ok next_cursor \<Rightarrow>
              if ae_enqueue env
              then
                (case persist_finalized_cursor (ae_sync env) next_cursor (cursor_metadata p) of
                   Some m \<Rightarrow> Queued \<lparr>dq = dq p @ [upload], cursor_metadata = m, cursor = next_cursor\<rparr>
                 | None \<Rightarrow> Syncing)
              else Retry p
          | Err (IndexPanic msg) \<Rightarrow> Aborted msg
          | Err _ \<Rightarrow> Retry p)
     | Err (Publish (StoreEmptyPastGenesis _)) \<Rightarrow>
         if state_next (cursor p) = 0
         then
           (let (s, t) = ae_remote env in
            if s = 0 \<and> t = 0 then Retry p
            else Retry (p\<lparr>cursor := \<lparr>state_next = s, transaction_next = t\<rparr>\<rparr>))
         else Retry p
     | Err (Publish _) \<Rightarrow> Retry p
     | Err (IndexPanic msg) \<Rightarrow> Aborted msg)"

fun producer_enqueue ::
    "'x codec_scheme \<Rightarrow> attempt_env list \<Rightarrow> sealed_block \<Rightarrow> producer \<Rightarrow> producer option" where
  "producer_enqueue c [] block p = None"
| "producer_enqueue c (env # envs) block p =
    (case producer_attempt c env block p of
       Queued p \<Rightarrow> Some p
     | Retry p \<Rightarrow> producer_enqueue c envs block p
     | Syncing \<Rightarrow> None
     | Aborted _ \<Rightarrow> None)"

section \<open>The publisher\<close>

record publisher =
  state_next_location :: u64
  transaction_next_location :: u64
  prepare_queue :: "pending_upload list"

datatype upload_completion = CompletedUpload | AwaitUpload nat

definition next_writer_location :: "u64 option \<Rightarrow> u64" where
  "next_writer_location w = (case w of Some l \<Rightarrow> l + 1 | None \<Rightarrow> 0)"

abbreviation max_buffered_qmdb_uploads :: nat where
  "max_buffered_qmdb_uploads \<equiv> 64"

text \<open>Recovery of a writer: \<open>fetch\<close> reads the checkpoint of at most \<open>u32::MAX\<close> operations.\<close>

definition recover_writer_state ::
    "u64 option \<Rightarrow> (u64 \<Rightarrow> u32 \<Rightarrow> (publish_error, 'w) result) \<Rightarrow> 'w \<Rightarrow> (publish_error, 'w) result" where
  "recover_writer_state watermark fetch empty_state =
    (case watermark of
       None \<Rightarrow> Ok empty_state
     | Some w \<Rightarrow>
         bind_res (ok_or (checked_add w 1) (CheckpointTooLarge (- 1))) (\<lambda>locations.
           if unat locations < 2 ^ 32 then fetch w (ucast locations)
           else Err (CheckpointTooLarge locations)))"

definition publisher_connect :: "u64 option \<Rightarrow> u64 option \<Rightarrow> publisher" where
  "publisher_connect state_watermark transaction_watermark =
    \<lparr>state_next_location = next_writer_location state_watermark,
     transaction_next_location = next_writer_location transaction_watermark, prepare_queue = []\<rparr>"

definition next_locations :: "publisher \<Rightarrow> u64 \<times> u64" where
  "next_locations pb = (state_next_location pb, transaction_next_location pb)"

definition enqueue_queued_finalized ::
    "bool \<Rightarrow> queued_upload \<Rightarrow> publisher \<Rightarrow> (index_failure, upload_completion) result \<times> publisher" where
  "enqueue_queued_finalized channel_open u pb =
    (case upload_transaction_end u of
       Err f \<Rightarrow> (Err f, pb)
     | Ok transaction_end \<Rightarrow>
         if upload_state_end u \<le> state_next_location pb \<and> transaction_end \<le> transaction_next_location pb
         then (Ok CompletedUpload, pb)
         else if state_next_location pb \<noteq> qu_state_start u
         then (Err (Publish (WriterOutOfSync (state_next_location pb) (qu_state_start u))), pb)
         else if transaction_next_location pb \<noteq> qu_transaction_start u
         then (Err (Publish (WriterOutOfSync (transaction_next_location pb) (qu_transaction_start u))), pb)
         else if \<not> channel_open then (Err (Publish (CommitterStopped (upload_height u))), pb)
         else
           (Ok (AwaitUpload (length (prepare_queue pb))),
            \<lparr>state_next_location = upload_state_end u, transaction_next_location = transaction_end,
             prepare_queue = prepare_queue pb @
               [\<lparr>pu_height = upload_height u, pu_upload = u, pu_completion = length (prepare_queue pb)\<rparr>]\<rparr>))"

section \<open>Spans\<close>

text \<open>An upload covers the operations from its start cursor to its end cursor.\<close>

definition start_cursor :: "queued_upload \<Rightarrow> upload_cursor" where
  "start_cursor u = \<lparr>state_next = qu_state_start u, transaction_next = qu_transaction_start u\<rparr>"

definition end_cursor :: "queued_upload \<Rightarrow> upload_cursor" where
  "end_cursor u = (case cursor_from_upload u of Ok a \<Rightarrow> a | Err _ \<Rightarrow> cursor_default)"

definition upload_ok :: "queued_upload \<Rightarrow> bool" where
  "upload_ok u \<longleftrightarrow> is_ok (upload_transaction_end u) \<and> qu_state_start u < upload_state_end u"

lemma upload_okE:
  assumes "upload_ok u"
  obtains e where "upload_transaction_end u = Ok e" "cursor_from_upload u = Ok (end_cursor u)"
    "end_cursor u = \<lparr>state_next = upload_state_end u, transaction_next = e\<rparr>"
    "state_next (start_cursor u) < state_next (end_cursor u)"
proof -
  obtain e where "upload_transaction_end u = Ok e"
    using assms by (cases "upload_transaction_end u") (auto simp: upload_ok_def)
  with assms show thesis
    by (intro that [of e]) (simp_all add: end_cursor_def cursor_from_upload_def start_cursor_def upload_ok_def)
qed

lemma transaction_upload_end_less: "transaction_upload_end t b = Ok e \<Longrightarrow> t < e"
proof -
  assume "transaction_upload_end t b = Ok e"
  then obtain n m where n: "checked_add (word_of_nat (length (b_body (sealed_inner b)))) 1 = Some n"
    "(if t = 0 then checked_add n 1 else Some n) = Some m" "checked_add t m = Some e"
    by (cases "t = 0") (auto simp: transaction_upload_end_def Let_def bind_res_Ok_iff expect_Ok_iff split: if_splits)
  have "0 < unat n" using checked_add_unat [OF n(1)] by simp
  moreover have "unat n \<le> unat m" using n(2) by (auto split: if_splits dest: checked_add_unat)
  ultimately show "t < e" using checked_add_unat [OF n(3)] by (simp add: word_less_nat_alt)
qed

lemma upload_ok_less:
  assumes "upload_ok u"
  shows "state_next (start_cursor u) < state_next (end_cursor u)"
    "transaction_next (start_cursor u) < transaction_next (end_cursor u)"
proof -
  from assms obtain e where e: "upload_transaction_end u = Ok e"
    "end_cursor u = \<lparr>state_next = upload_state_end u, transaction_next = e\<rparr>"
    "state_next (start_cursor u) < state_next (end_cursor u)" by (rule upload_okE)
  then show "state_next (start_cursor u) < state_next (end_cursor u)" by simp
  show "transaction_next (start_cursor u) < transaction_next (end_cursor u)"
    using transaction_upload_end_less e(1,2) by (simp add: upload_transaction_end_Ok start_cursor_def)
qed

text \<open>An entry follows another when it continues it or covers the same span again.\<close>

definition follows :: "queued_upload \<Rightarrow> queued_upload \<Rightarrow> bool" where
  "follows u v \<longleftrightarrow> start_cursor v = end_cursor u \<or> start_cursor v = start_cursor u \<and> end_cursor v = end_cursor u"

definition gapless :: "queued_upload list \<Rightarrow> bool" where
  "gapless q \<longleftrightarrow> list_all upload_ok q \<and> successively follows q \<and> (q \<noteq> [] \<longrightarrow> start_cursor (hd q) = cursor_default)"

definition behind :: "queued_upload \<Rightarrow> queued_upload \<Rightarrow> bool" where
  "behind u v \<longleftrightarrow> start_cursor u = start_cursor v \<and> end_cursor u = end_cursor v \<or> end_cursor u = start_cursor v \<or>
    state_next (end_cursor u) < state_next (start_cursor v)"

lemma behind_trans: "upload_ok v \<Longrightarrow> behind u v \<Longrightarrow> behind v w \<Longrightarrow> behind u w"
  using upload_ok_less(1) [of v] unfolding behind_def by (elim disjE conjE) auto

lemma gapless_behind:
  assumes "gapless q" "u \<in> set q"
  shows "u = last q \<or> behind u (last q)"
proof -
  have ok: "upload_ok v" if "v \<in> set q" for v using assms(1) that by (auto simp: gapless_def list_all_iff)
  have "follows v w \<Longrightarrow> behind v w" for v w by (auto simp: follows_def behind_def)
  then have "successively behind q"
    using assms(1) successively_mono [of follows q behind] by (auto simp: gapless_def)
  then have "sorted_wrt behind q"
    using ok by (subst (asm) successively_iff_sorted_wrt_strong) (auto intro: behind_trans)
  moreover have "q = butlast q @ [last q]" using assms(2) by (cases q) simp_all
  ultimately have "\<forall>v \<in> set (butlast q). behind v (last q)" by (metis sorted_wrt_append list.set_intros(1))
  moreover have "u \<in> set (butlast q) \<or> u = last q"
    using assms(2) \<open>q = butlast q @ [last q]\<close> by (metis Un_iff empty_iff insert_iff list.set set_append)
  ultimately show ?thesis by blast
qed

lemma gapless_snoc:
  "gapless (q @ [u]) \<longleftrightarrow> gapless q \<and> upload_ok u \<and>
    (if q = [] then start_cursor u = cursor_default else follows (last q) u)"
  by (auto simp: gapless_def successively_append_iff)

section \<open>Crashes\<close>

text \<open>
  The producer with its durable state, step by step: an entry is written to the queue, then the
  cursor is persisted; the consumer acknowledges entries in any order; a crash may come between any
  two steps and may lose acknowledgements that were not synced. \<open>D\<close> is the set of finalized blocks
  that are delivered.
\<close>

record index_node = producer +
  unsaved :: "upload_cursor option"
  acked :: "nat set"

definition unacked :: "index_node \<Rightarrow> nat set \<Rightarrow> queued_upload list" where
  "unacked n kept = map (\<lambda>i. dq n ! i) (filter (\<lambda>i. i \<notin> kept) [0..<length (dq n)])"

definition index_node_new :: index_node where
  "index_node_new = \<lparr>dq = [], cursor_metadata = Map.empty, cursor = cursor_default, unsaved = None, acked = {}\<rparr>"

definition recover_node :: "nat set \<Rightarrow> index_node \<Rightarrow> (index_failure, index_node) result" where
  "recover_node kept n =
    bind_res (scan_finalized_queue_cursor None (unacked n kept)) (\<lambda>q.
      let a = recovered_finalized_upload_cursor (cursor_from_metadata (cursor_metadata n)) q in
      Ok (n\<lparr>cursor_metadata := if cursor_from_metadata (cursor_metadata n) \<noteq> Some a
              then put_cursor a (cursor_metadata n) else cursor_metadata n,
            cursor := a, unsaved := None, acked := kept\<rparr>))"

inductive index_step :: "'x codec_scheme \<Rightarrow> sealed_block set \<Rightarrow> index_node \<Rightarrow> index_node \<Rightarrow> bool"
  for c D where
  enqueue: "unsaved n = None \<Longrightarrow> block \<in> D \<Longrightarrow>
    build_queued_finalized_upload c proof_of clock (state_next (cursor n)) (transaction_next (cursor n)) block = Ok u \<Longrightarrow>
    cursor_from_upload u = Ok a \<Longrightarrow>
    index_step c D n (n\<lparr>dq := dq n @ [u], unsaved := Some a\<rparr>)"
| persist: "unsaved n = Some a \<Longrightarrow> persist_finalized_cursor oks a (cursor_metadata n) = Some m \<Longrightarrow>
    index_step c D n (n\<lparr>cursor_metadata := m, cursor := a, unsaved := None\<rparr>)"
| ack: "i < length (dq n) \<Longrightarrow> index_step c D n (n\<lparr>acked := insert i (acked n)\<rparr>)"
| crash: "kept \<subseteq> acked n \<Longrightarrow> recover_node kept n = Ok n' \<Longrightarrow> index_step c D n n'"

inductive index_reachable :: "'x codec_scheme \<Rightarrow> sealed_block set \<Rightarrow> index_node \<Rightarrow> bool" for c D where
  fresh: "index_reachable c D index_node_new"
| after_step: "index_reachable c D n \<Longrightarrow> index_step c D n n' \<Longrightarrow> index_reachable c D n'"

text \<open>No two delivered blocks start at the same location of the transaction log.\<close>

definition own_span :: "sealed_block set \<Rightarrow> bool" where
  "own_span D \<longleftrightarrow> (\<forall>b \<in> D. \<forall>b' \<in> D. \<forall>t. is_ok (transaction_upload_end t b) \<longrightarrow>
    is_ok (transaction_upload_end t b') \<longrightarrow> b = b')"

definition saved_cursor :: "metadata \<Rightarrow> upload_cursor" where
  "saved_cursor m = (case cursor_from_metadata m of Some a \<Rightarrow> a | None \<Rightarrow> cursor_default)"

definition index_inv :: "sealed_block set \<Rightarrow> index_node \<Rightarrow> bool" where
  "index_inv D n \<longleftrightarrow> gapless (dq n) \<and> qu_block ` set (dq n) \<subseteq> D \<and> saved_cursor (cursor_metadata n) = cursor n \<and>
    (dq n = [] \<longrightarrow> cursor n = cursor_default \<and> unsaved n = None) \<and>
    (dq n \<noteq> [] \<longrightarrow> cursor n \<in> {start_cursor (last (dq n)), end_cursor (last (dq n))}) \<and>
    (\<forall>a. unsaved n = Some a \<longrightarrow> a = end_cursor (last (dq n)) \<and> cursor n = start_cursor (last (dq n)))"

lemma cursor_from_put [simp]: "cursor_from_metadata (put_cursor a m) = Some a"
  by (simp add: cursor_from_metadata_def put_cursor_def cursor_from_parts_def)

lemma persist_put: "persist_finalized_cursor oks a m = Some m' \<Longrightarrow> cursor_from_metadata m' = Some a"
  by (induction oks arbitrary: m) (auto simp: Let_def split: if_splits)

lemma scan_ok:
  "list_all upload_ok us \<Longrightarrow>
    scan_finalized_queue_cursor cur us = Ok (if us = [] then cur else Some (end_cursor (last us)))"
  by (induction us arbitrary: cur) (auto elim: upload_okE)

lemma cursor_max_default [simp]: "cursor_max a cursor_default = a"
  by (simp add: cursor_max_def cursor_default_def)

lemma cursor_max_last:
  assumes "upload_ok v" "cur \<in> {start_cursor v, end_cursor v}" "u = v \<or> behind u v"
  shows "cursor_max cur (end_cursor u) \<in> {start_cursor v, end_cursor v}"
  using assms(2,3) upload_ok_less(1) [OF assms(1)] unfolding behind_def cursor_max_def by auto

lemma built_upload:
  assumes "build_queued_finalized_upload c proof_of clock s t block = Ok u"
  shows "upload_ok u" "start_cursor u = \<lparr>state_next = s, transaction_next = t\<rparr>" "qu_block u = block"
    "is_ok (transaction_upload_end t block)"
  using build_queued_Ok [OF assms]
  by (auto simp: upload_ok_def start_cursor_def upload_transaction_end_def split: result.splits)

lemma same_block_end:
  "qu_block u = qu_block v \<Longrightarrow> start_cursor u = start_cursor v \<Longrightarrow> end_cursor u = end_cursor v"
  by (simp add: end_cursor_def cursor_from_upload_def upload_transaction_end_def upload_state_end_def start_cursor_def)

lemma index_inv_enqueue:
  assumes "own_span D" "index_inv D n" "unsaved n = None" "block \<in> D"
    and "build_queued_finalized_upload c proof_of clock (state_next (cursor n)) (transaction_next (cursor n)) block = Ok u"
    and "cursor_from_upload u = Ok a"
  shows "index_inv D (n\<lparr>dq := dq n @ [u], unsaved := Some a\<rparr>)"
proof -
  note b = built_upload [OF assms(5)]
  have cur: "start_cursor u = cursor n" using b(2) by simp
  have a: "a = end_cursor u" using assms(6) by (simp add: end_cursor_def)
  have "gapless (dq n @ [u])"
  proof (cases "dq n = []")
    case True
    with assms(2) b(1) cur show ?thesis by (simp add: index_inv_def gapless_def)
  next
    case False
    let ?v = "last (dq n)"
    have v: "?v \<in> set (dq n)" "upload_ok ?v" "qu_block ?v \<in> D"
      using False assms(2) by (auto simp: index_inv_def gapless_def list_all_iff)
    have "follows ?v u"
    proof (cases "cursor n = end_cursor ?v")
      case False
      then have st: "start_cursor u = start_cursor ?v" using assms(2) \<open>dq n \<noteq> []\<close> cur by (auto simp: index_inv_def)
      have "is_ok (transaction_upload_end (qu_transaction_start ?v) (qu_block ?v))"
        using v(2) by (auto simp: upload_ok_def upload_transaction_end_def split: result.splits)
      moreover have "qu_transaction_start ?v = transaction_next (cursor n)"
        using st cur by (simp add: start_cursor_def) (metis upload_cursor.select_convs(2))
      ultimately have "qu_block ?v = block" using assms(1,4) v(3) b(4) unfolding own_span_def by metis
      then show ?thesis using st same_block_end [of u ?v] b(3) by (simp add: follows_def)
    qed (simp add: follows_def cur)
    with False assms(2) b(1) show ?thesis by (simp add: gapless_snoc index_inv_def)
  qed
  with assms(2,4) a cur b(3) show ?thesis by (auto simp: index_inv_def)
qed

lemma recover_node_Ok:
  assumes "index_inv D n"
  shows "\<exists>n'. recover_node kept n = Ok n' \<and> index_inv D n' \<and> dq n' = dq n"
proof -
  let ?us = "unacked n kept"
  have sub: "set ?us \<subseteq> set (dq n)" by (auto simp: unacked_def)
  have ok: "list_all upload_ok (dq n)" using assms by (simp add: index_inv_def gapless_def)
  with sub have "list_all upload_ok ?us" by (auto simp: list_all_iff)
  then have scan: "scan_finalized_queue_cursor None ?us = Ok (if ?us = [] then None else Some (end_cursor (last ?us)))"
    by (rule scan_ok)
  let ?a = "cursor_max (cursor n) (if ?us = [] then cursor_default else end_cursor (last ?us))"
  have rec: "recovered_finalized_upload_cursor (cursor_from_metadata (cursor_metadata n))
      (if ?us = [] then None else Some (end_cursor (last ?us))) = ?a"
    using assms by (simp add: recovered_finalized_upload_cursor_def index_inv_def saved_cursor_def)
  have a: "dq n \<noteq> [] \<longrightarrow> ?a \<in> {start_cursor (last (dq n)), end_cursor (last (dq n))}"
    "dq n = [] \<longrightarrow> ?a = cursor_default"
  proof (goal_cases)
    case 1
    show ?case
    proof (cases "?us = []")
      case False
      show ?thesis
      proof
        assume ne: "dq n \<noteq> []"
        have "last ?us \<in> set (dq n)" using False sub last_in_set by blast
        then have "last ?us = last (dq n) \<or> behind (last ?us) (last (dq n))"
          using assms gapless_behind by (auto simp: index_inv_def)
        moreover have "upload_ok (last (dq n))" using ok ne by (simp add: list_all_iff)
        moreover have "cursor n \<in> {start_cursor (last (dq n)), end_cursor (last (dq n))}"
          using assms ne by (simp add: index_inv_def)
        ultimately have "cursor_max (cursor n) (end_cursor (last ?us)) \<in> {start_cursor (last (dq n)), end_cursor (last (dq n))}"
          by (intro cursor_max_last)
        with False show "?a \<in> {start_cursor (last (dq n)), end_cursor (last (dq n))}" by simp
      qed
    qed (use assms in \<open>auto simp: index_inv_def\<close>)
  next
    case 2
    then show ?case using assms by (simp add: index_inv_def unacked_def)
  qed
  let ?m = "if cursor_from_metadata (cursor_metadata n) \<noteq> Some ?a then put_cursor ?a (cursor_metadata n) else cursor_metadata n"
  have "saved_cursor ?m = ?a" by (simp add: saved_cursor_def)
  with assms a have "index_inv D (n\<lparr>cursor_metadata := ?m, cursor := ?a, unsaved := None, acked := kept\<rparr>)"
    unfolding index_inv_def by simp
  moreover have "recover_node kept n = Ok (n\<lparr>cursor_metadata := ?m, cursor := ?a, unsaved := None, acked := kept\<rparr>)"
    unfolding recover_node_def scan bind_res.simps Let_def rec ..
  ultimately show ?thesis by simp
qed

lemma index_reachable_inv:
  assumes "own_span D" "index_reachable c D n"
  shows "index_inv D n"
  using assms(2)
proof induction
  case fresh
  show ?case
    by (simp add: index_inv_def index_node_new_def gapless_def saved_cursor_def cursor_from_metadata_def
        cursor_from_parts_def)
next
  case (after_step n n')
  from after_step.hyps(2) show ?case
  proof cases
    case (enqueue block proof_of clock u a)
    then show ?thesis using index_inv_enqueue [OF assms(1) after_step.IH] by simp
  next
    case (persist a oks m)
    have "saved_cursor m = a" using persist_put [OF persist(3)] by (simp add: saved_cursor_def)
    with persist after_step.IH show ?thesis by (auto simp: index_inv_def)
  next
    case (ack i)
    with after_step.IH show ?thesis by (simp add: index_inv_def)
  next
    case (crash kept)
    with recover_node_Ok [OF after_step.IH, of kept] show ?thesis by auto
  qed
qed

section \<open>Draining the queue\<close>

definition location :: "publisher \<Rightarrow> upload_cursor" where
  "location pb = \<lparr>state_next = state_next_location pb, transaction_next = transaction_next_location pb\<rparr>"

definition covers :: "upload_cursor \<Rightarrow> queued_upload \<Rightarrow> bool" where
  "covers a u \<longleftrightarrow> state_next (end_cursor u) \<le> state_next a \<and> transaction_next (end_cursor u) \<le> transaction_next a"

fun enqueue_all ::
    "queued_upload list \<Rightarrow> publisher \<Rightarrow> (index_failure, upload_completion) result list \<times> publisher" where
  "enqueue_all [] pb = ([], pb)"
| "enqueue_all (u # us) pb =
    (let (r, pb) = enqueue_queued_finalized True u pb; (rs, pb) = enqueue_all us pb in (r # rs, pb))"

fun contiguous :: "upload_cursor \<Rightarrow> queued_upload list \<Rightarrow> bool" where
  "contiguous a [] \<longleftrightarrow> True"
| "contiguous a (u # us) \<longleftrightarrow> start_cursor u = a \<and> contiguous (end_cursor u) us"

lemma enqueue_covered:
  assumes "upload_ok u" "covers (location pb) u"
  shows "enqueue_queued_finalized b u pb = (Ok CompletedUpload, pb)"
proof -
  from assms(1) obtain e where "upload_transaction_end u = Ok e"
    "end_cursor u = \<lparr>state_next = upload_state_end u, transaction_next = e\<rparr>" by (rule upload_okE)
  with assms(2) show ?thesis by (simp add: enqueue_queued_finalized_def covers_def location_def)
qed

lemma enqueue_next:
  assumes "upload_ok u" "location pb = start_cursor u"
  obtains pb' where "enqueue_queued_finalized True u pb = (Ok (AwaitUpload (length (prepare_queue pb))), pb')"
    "location pb' = end_cursor u" "map pu_upload (prepare_queue pb') = map pu_upload (prepare_queue pb) @ [u]"
proof -
  from assms(1) obtain e where e: "upload_transaction_end u = Ok e"
    "end_cursor u = \<lparr>state_next = upload_state_end u, transaction_next = e\<rparr>"
    "state_next (start_cursor u) < state_next (end_cursor u)" by (rule upload_okE)
  have "state_next_location pb = qu_state_start u" "transaction_next_location pb = qu_transaction_start u"
    using assms(2) by (simp_all add: location_def start_cursor_def)
  with e assms(1) have "enqueue_queued_finalized True u pb = (Ok (AwaitUpload (length (prepare_queue pb))),
      \<lparr>state_next_location = upload_state_end u, transaction_next_location = e,
       prepare_queue = prepare_queue pb @
         [\<lparr>pu_height = upload_height u, pu_upload = u, pu_completion = length (prepare_queue pb)\<rparr>]\<rparr>)"
    by (auto simp: enqueue_queued_finalized_def upload_ok_def)
  from that [OF this] e(2) show thesis by (simp add: location_def)
qed

definition frontier :: "queued_upload list \<Rightarrow> nat \<Rightarrow> upload_cursor" where
  "frontier q k = (if k = 0 then cursor_default else end_cursor (q ! (k - 1)))"

lemma gapless_covers:
  assumes "gapless q" "j < k" "k \<le> length q"
  shows "covers (frontier q k) (q ! j)"
proof -
  let ?le = "\<lambda>u v. covers (end_cursor v) u"
  have ok: "upload_ok (q ! i)" if "i < length q" for i using assms(1) that by (auto simp: gapless_def list_all_length)
  have "?le (q ! i) (q ! Suc i)" if "Suc i < length q" for i
  proof -
    have "follows (q ! i) (q ! Suc i)" using assms(1) that by (simp add: gapless_def successively_conv_nth)
    with upload_ok_less [OF ok [OF that]] show ?thesis by (auto simp: follows_def covers_def)
  qed
  then have "sorted_wrt ?le q"
    by (subst successively_iff_sorted_wrt_strong [symmetric]) (auto simp: successively_conv_nth covers_def)
  moreover have "?le u u" for u by (simp add: covers_def)
  ultimately show ?thesis
    using assms(2,3) sorted_wrt_nth_less [of ?le q j "k - 1"] by (cases "j = k - 1") (auto simp: frontier_def)
qed

lemma queue_drains_aux:
  assumes "gapless q" "j \<le> k" "k \<le> length q" "location pb = frontier q k"
  shows "\<exists>rs pb' sent. enqueue_all (drop j q) pb = (rs, pb') \<and> list_all is_ok rs \<and>
    location pb' = frontier q (length q) \<and>
    map pu_upload (prepare_queue pb') = map pu_upload (prepare_queue pb) @ sent \<and> contiguous (location pb) sent"
  using assms(2-4)
proof (induction "length q - j" arbitrary: j k pb)
  case 0
  then have "k = length q" by simp
  with 0 show ?case by simp
next
  case (Suc m)
  let ?u = "q ! j"
  have m: "m = length q - Suc j" using Suc.hyps(2) by simp
  have j: "j < length q" and d: "drop j q = ?u # drop (Suc j) q"
    using Suc.hyps(2) by (simp_all add: Cons_nth_drop_Suc)
  have ok: "upload_ok ?u" using assms(1) j by (auto simp: gapless_def list_all_length)
  have skip: ?case if c: "covers (location pb) ?u" and k': "Suc j \<le> k'" "k' \<le> length q" "location pb = frontier q k'" for k'
  proof -
    from Suc.hyps(1) [OF m k'] obtain rs pb' sent where
      "enqueue_all (drop (Suc j) q) pb = (rs, pb')" "list_all is_ok rs" "location pb' = frontier q (length q)"
      "map pu_upload (prepare_queue pb') = map pu_upload (prepare_queue pb) @ sent" "contiguous (location pb) sent" by blast
    with enqueue_covered [OF ok c, of True] d show ?thesis by simp
  qed
  show ?case
  proof (cases "j < k")
    case True
    with skip [of k] gapless_covers [OF assms(1) True Suc.prems(2)] Suc.prems show ?thesis by simp
  next
    case False
    then have k: "k = j" using Suc.prems(1) by simp
    have f: "frontier q (Suc j) = end_cursor ?u" by (simp add: frontier_def)
    consider (next_up) "location pb = start_cursor ?u" | (again) "location pb = end_cursor ?u"
    proof (cases j)
      case 0
      then have "location pb = cursor_default" "?u = hd q" using Suc.prems(3) k j by (simp_all add: frontier_def hd_conv_nth)
      moreover have "start_cursor (hd q) = cursor_default" using assms(1) j by (cases q) (simp_all add: gapless_def)
      ultimately show thesis using that(1) by simp
    next
      case (Suc i)
      then have "follows (q ! i) ?u" using assms(1) j by (simp add: gapless_def successively_conv_nth)
      moreover have "location pb = end_cursor (q ! i)" using Suc.prems(3) k Suc by (simp add: frontier_def)
      ultimately show thesis using that by (auto simp: follows_def)
    qed
    then show ?thesis
    proof cases
      case again
      then show ?thesis using skip [of "Suc j"] f j by (simp add: covers_def)
    next
      case next_up
      obtain pb1 where pb1: "enqueue_queued_finalized True ?u pb = (Ok (AwaitUpload (length (prepare_queue pb))), pb1)"
        "location pb1 = end_cursor ?u" "map pu_upload (prepare_queue pb1) = map pu_upload (prepare_queue pb) @ [?u]"
        using enqueue_next [OF ok next_up] by blast
      have "location pb1 = frontier q (Suc j)" "Suc j \<le> length q" using f pb1(2) j by simp_all
      from Suc.hyps(1) [OF m order_refl this(2,1)] obtain rs pb' sent where
        "enqueue_all (drop (Suc j) q) pb1 = (rs, pb')" "list_all is_ok rs" "location pb' = frontier q (length q)"
        "map pu_upload (prepare_queue pb') = map pu_upload (prepare_queue pb1) @ sent" "contiguous (location pb1) sent" by blast
      with pb1 next_up d show ?thesis by (intro exI [of _ "Ok (AwaitUpload (length (prepare_queue pb))) # rs"] exI [of _ pb'] exI [of _ "?u # sent"]) simp
    qed
  qed
qed

section \<open>The producer takes these steps\<close>

lemma producer_attempt_Queued:
  assumes "producer_attempt c env block p = Queued p'"
  obtains u a m where
    "build_queued_finalized_upload c (ae_proof env) (ae_clock env) (state_next (cursor p))
      (transaction_next (cursor p)) block = Ok u"
    "cursor_from_upload u = Ok a" "persist_finalized_cursor (ae_sync env) a (cursor_metadata p) = Some m"
    "p' = \<lparr>dq = dq p @ [u], cursor_metadata = m, cursor = a\<rparr>"
  using assms unfolding producer_attempt_def
  by (auto split: result.splits index_failure.splits publish_error.splits option.splits if_splits prod.splits)

lemma producer_attempt_steps:
  assumes "producer_attempt c env block (producer.truncate n) = Queued p'" "unsaved n = None" "block \<in> D"
  shows "\<exists>n1 n2. index_step c D n n1 \<and> index_step c D n1 n2 \<and> producer.truncate n2 = p' \<and> unsaved n2 = None"
proof -
  have tr: "dq (producer.truncate n) = dq n" "cursor (producer.truncate n) = cursor n"
    "cursor_metadata (producer.truncate n) = cursor_metadata n" by (simp_all add: producer.truncate_def)
  from assms(1) obtain u a m where q:
    "build_queued_finalized_upload c (ae_proof env) (ae_clock env) (state_next (cursor n))
      (transaction_next (cursor n)) block = Ok u"
    "cursor_from_upload u = Ok a" "persist_finalized_cursor (ae_sync env) a (cursor_metadata n) = Some m"
    "p' = \<lparr>dq = dq n @ [u], cursor_metadata = m, cursor = a\<rparr>"
    by (rule producer_attempt_Queued) (simp add: tr)
  let ?n1 = "n\<lparr>dq := dq n @ [u], unsaved := Some a\<rparr>"
  let ?n2 = "?n1\<lparr>cursor_metadata := m, cursor := a, unsaved := None\<rparr>"
  have "index_step c D n ?n1" by (rule index_step.enqueue [OF assms(2,3) q(1,2)])
  moreover have "index_step c D ?n1 ?n2" by (rule index_step.persist) (use q(3) in simp_all)
  moreover have "producer.truncate ?n2 = p'" by (simp add: q(4) producer.truncate_def)
  ultimately show ?thesis by (intro exI [of _ ?n1] exI [of _ ?n2]) simp
qed

text \<open>A block whose upload is already queued is refused: with the cursor at its end there is nothing
  left to capture.\<close>

lemma queued_block_refused:
  assumes "upload_ok u" "cursor p = end_cursor u"
  shows "producer_attempt c env (qu_block u) p \<noteq> Queued p'"
proof
  assume "producer_attempt c env (qu_block u) p = Queued p'"
  then obtain v where v: "build_queued_finalized_upload c (ae_proof env) (ae_clock env) (state_next (cursor p))
      (transaction_next (cursor p)) (qu_block u) = Ok v"
    by (rule producer_attempt_Queued)
  have "upload_state_end v = upload_state_end u" using build_queued_Ok(1) [OF v] by (simp add: upload_state_end_def)
  moreover have "state_next (cursor p) < upload_state_end v" using build_queued_Ok(4) [OF v] .
  moreover have "state_next (cursor p) = upload_state_end u"
    using assms by (auto elim: upload_okE)
  ultimately show False by simp
qed

section \<open>Properties\<close>


definition demo_first_block :: sealed_block where
  "demo_first_block =
    block_seal demo_block_env (block_new (demo_header 1 9) [demo_signed 7 8 50 0, demo_signed 7 8 50 1])"

definition demo_first_upload :: queued_upload where
  "demo_first_upload =
    \<lparr>qu_block = demo_first_block, qu_finalized_ts_micros = 5, qu_state_start = 0, qu_transaction_start = 0,
     qu_state_delta = map (encode_account_operation demo_block_env) (replicate 5 (OpUpdate (replicate 32 7) account_default))\<rparr>"

lemma demo_first_fields:
  "b_header (sealed_inner demo_first_block) = demo_header 1 9" "length (b_body (sealed_inner demo_first_block)) = 2"
  by (simp_all add: demo_first_block_def block_seal_def sealed_new_unchecked_def block_new_def)

lemma demo_first_end: "transaction_upload_end 0 demo_first_block = Ok 4"
  unfolding transaction_upload_end_def demo_first_fields
  by (simp add: demo_header_def checked_add_def checked_sub_def Let_def)

lemma demo_first_built:
  "build_queued_finalized_upload demo_block_env demo_proof (Some 5) 0 0 demo_first_block = Ok demo_first_upload"
  unfolding build_queued_finalized_upload_def demo_first_end build_state_delta_def demo_first_fields
  by (simp add: validate_writer_range_def load_state_ops_def demo_header_def checked_sub_def demo_proof_def
      demo_first_upload_def current_time_micros_def Let_def)

lemma demo_first_cursor: "cursor_from_upload demo_first_upload = Ok \<lparr>state_next = 5, transaction_next = 4\<rparr>"
  using demo_first_end
  by (simp add: cursor_from_upload_def upload_transaction_end_def upload_state_end_def demo_first_upload_def
      demo_first_fields demo_header_def)

definition demo_index_node :: index_node where
  "demo_index_node = index_node_new\<lparr>dq := [demo_first_upload], unsaved := Some \<lparr>state_next = 5, transaction_next = 4\<rparr>\<rparr>"

lemma own_span_demo: "own_span {demo_first_block}"
  by (simp add: own_span_def)

lemma demo_index_reachable: "index_reachable demo_block_env {demo_first_block} demo_index_node"
proof -
  have "index_step demo_block_env {demo_first_block} index_node_new
      (index_node_new\<lparr>dq := dq index_node_new @ [demo_first_upload], unsaved := Some \<lparr>state_next = 5, transaction_next = 4\<rparr>\<rparr>)"
    by (rule index_step.enqueue [OF _ _ _ demo_first_cursor, of _ demo_first_block _ _ demo_proof "Some 5"])
      (simp_all add: index_node_new_def cursor_default_def demo_first_built)
  then have "index_step demo_block_env {demo_first_block} index_node_new demo_index_node"
    by (simp add: demo_index_node_def index_node_new_def)
  then show ?thesis by (rule index_reachable.after_step [OF index_reachable.fresh])
qed




end
