(* ===== verification/Committer.thy ===== *)
theory Committer
  imports Uploads
begin

text \<open>
  The commit pipeline of the indexer (\<open>run_qmdb_committer\<close> and its helpers in
  \<open>crates/indexer/src/publisher/qmdb.rs\<close>) and the consumer of the durable queue
  (\<open>run_finalized_upload_consumer\<close> in \<open>bin/validator/src/run.rs\<close>). Commits to the Store run
  concurrently and finish in any order, so the pipeline is a step relation. The two QMDB writers are
  a parameter: a prepared upload is represented by its latest location, a prepared watermark by the
  location it publishes.
\<close>

section \<open>Retries\<close>

abbreviation retry_backoff_initial :: nat where
  "retry_backoff_initial \<equiv> 100"

abbreviation retry_backoff_max :: nat where
  "retry_backoff_max \<equiv> 2000"

text \<open>Milliseconds; \<open>factor\<close> is \<open>1u32 << attempt.min(5)\<close>.\<close>

definition retry_backoff :: "u32 \<Rightarrow> nat" where
  "retry_backoff attempt =
    (let factor = push_bit (min (unat attempt) 5) (1 :: u32) in
     min (retry_backoff_initial * unat factor) retry_backoff_max)"

definition saturating_inc :: "u32 \<Rightarrow> u32" where
  "saturating_inc a = (if a = - 1 then a else a + 1)"

text \<open>The answers of the Store to successive commits of one batch; the sleeps between them.\<close>

fun commit_with_retry :: "u32 \<Rightarrow> u64 option list \<Rightarrow> (u64 \<times> nat list) option" where
  "commit_with_retry attempt [] = None"
| "commit_with_retry attempt (Some seq # answers) = Some (seq, [])"
| "commit_with_retry attempt (None # answers) =
    (let attempt = saturating_inc attempt in
     map_option (\<lambda>(seq, sleeps). (seq, retry_backoff attempt # sleeps)) (commit_with_retry attempt answers))"

section \<open>Writers\<close>

record 'w writer =
  wr_prepare_flush_for :: "u64 \<Rightarrow> 'w \<Rightarrow> u64 option"
  wr_prepare_flush :: "'w \<Rightarrow> u64 option"
  wr_mark_upload :: "u64 \<Rightarrow> u64 \<Rightarrow> 'w \<Rightarrow> 'w"
  wr_mark_flush :: "u64 \<Rightarrow> u64 \<Rightarrow> 'w \<Rightarrow> 'w"
  wr_published :: "'w \<Rightarrow> u64 option"

text \<open>Marking an upload as persisted publishes nothing; marking a watermark as persisted publishes it
  unless a later one is published already.\<close>

definition writer_ok :: "'w writer \<Rightarrow> bool" where
  "writer_ok wr \<longleftrightarrow>
    (\<forall>l s w. wr_published wr (wr_mark_upload wr l s w) = wr_published wr w) \<and>
    (\<forall>m s w. wr_published wr (wr_mark_flush wr m s w) =
      Some (case wr_published wr w of None \<Rightarrow> m | Some p \<Rightarrow> max p m))"

section \<open>The pipeline\<close>

record prepared_qmdb_upload =
  pq_height :: u64
  pq_sql_rows :: "sql_row list"
  pq_state :: u64
  pq_transactions :: u64
  pq_completion :: nat

text \<open>What one atomic write to the Store contains; a write of watermarks alone has no upload.\<close>

record store_batch =
  sb_upload :: "prepared_qmdb_upload option"
  sb_state_watermark :: "u64 option"
  sb_transaction_watermark :: "u64 option"

record pending_completion =
  pc_state_latest :: u64
  pc_transaction_latest :: u64
  pc_completion :: nat

record 'w committer =
  rx :: "prepared_qmdb_upload list"
  rx_closed :: bool
  commits :: "(store_batch \<times> u64 option) list"
  store :: "store_batch list"
  state_writer :: 'w
  transaction_writer :: 'w
  pending_completions :: "pending_completion list"
  completed :: "nat list"

definition prepare_commit_batch ::
    "'w writer \<Rightarrow> 'w \<Rightarrow> 'w \<Rightarrow> prepared_qmdb_upload \<Rightarrow> bool \<Rightarrow> store_batch" where
  "prepare_commit_batch wr sw tw u inline_watermarks =
    (let (state_watermark, transaction_watermark) =
       (if inline_watermarks
        then (wr_prepare_flush_for wr (pq_state u) sw, wr_prepare_flush_for wr (pq_transactions u) tw)
        else (None, None)) in
     \<lparr>sb_upload = Some u, sb_state_watermark = state_watermark, sb_transaction_watermark = transaction_watermark\<rparr>)"

definition stage_and_spawn_commit :: "'w writer \<Rightarrow> prepared_qmdb_upload \<Rightarrow> 'w committer \<Rightarrow> 'w committer" where
  "stage_and_spawn_commit wr u s =
    s\<lparr>commits := commits s @
      [(prepare_commit_batch wr (state_writer s) (transaction_writer s) u (commits s = []), None)]\<rparr>"

definition mark_flush :: "'w writer \<Rightarrow> u64 option \<Rightarrow> u64 \<Rightarrow> 'w \<Rightarrow> 'w" where
  "mark_flush wr m seq w = (case m of None \<Rightarrow> w | Some m \<Rightarrow> wr_mark_flush wr m seq w)"

definition mark_committed_batch :: "'w writer \<Rightarrow> store_batch \<Rightarrow> u64 \<Rightarrow> 'w committer \<Rightarrow> 'w committer" where
  "mark_committed_batch wr b seq s =
    (case sb_upload b of
       None \<Rightarrow> s
     | Some u \<Rightarrow>
         s\<lparr>state_writer := mark_flush wr (sb_state_watermark b) seq
             (wr_mark_upload wr (pq_state u) seq (state_writer s)),
           transaction_writer := mark_flush wr (sb_transaction_watermark b) seq
             (wr_mark_upload wr (pq_transactions u) seq (transaction_writer s)),
           pending_completions := pending_completions s @
             [\<lparr>pc_state_latest = pq_state u, pc_transaction_latest = pq_transactions u,
               pc_completion = pq_completion u\<rparr>]\<rparr>)"

definition reaches :: "u64 option \<Rightarrow> u64 \<Rightarrow> bool" where
  "reaches w l = (case w of None \<Rightarrow> False | Some m \<Rightarrow> l \<le> m)"

definition complete_published_uploads :: "'w writer \<Rightarrow> 'w committer \<Rightarrow> 'w committer" where
  "complete_published_uploads wr s =
    (let state = wr_published wr (state_writer s); transactions = wr_published wr (transaction_writer s);
         ready = (\<lambda>p. reaches state (pc_state_latest p) \<and> reaches transactions (pc_transaction_latest p)) in
     s\<lparr>pending_completions := filter (\<lambda>p. \<not> ready p) (pending_completions s),
       completed := completed s @ map pc_completion (filter ready (pending_completions s))\<rparr>)"

definition flush_qmdb_watermarks :: "'w writer \<Rightarrow> 'w committer \<Rightarrow> 'w committer" where
  "flush_qmdb_watermarks wr s =
    (let state = wr_prepare_flush wr (state_writer s); transactions = wr_prepare_flush wr (transaction_writer s) in
     if state = None \<and> transactions = None then s
     else
       let seq = word_of_nat (length (store s)) in
       s\<lparr>store := store s @
           [\<lparr>sb_upload = None, sb_state_watermark = state, sb_transaction_watermark = transactions\<rparr>],
         state_writer := mark_flush wr state seq (state_writer s),
         transaction_writer := mark_flush wr transactions seq (transaction_writer s)\<rparr>)"

definition flush_and_complete_published_uploads :: "'w writer \<Rightarrow> 'w committer \<Rightarrow> 'w committer" where
  "flush_and_complete_published_uploads wr s =
    (let s = complete_published_uploads wr s in
     if pending_completions s = [] then s
     else complete_published_uploads wr (flush_qmdb_watermarks wr s))"

fun join_batches :: "'w writer \<Rightarrow> (store_batch \<times> u64) list \<Rightarrow> 'w committer \<Rightarrow> 'w committer" where
  "join_batches wr [] s = s"
| "join_batches wr ((b, seq) # bs) s = join_batches wr bs (mark_committed_batch wr b seq s)"

text \<open>
  The steps: the channel is closed, an upload is staged while fewer than \<open>limit\<close>
  commits are in flight, the Store accepts a batch, finished commits are joined in any order and the
  watermarks flushed, and the final flush when the channel is drained.
\<close>

inductive committer_step :: "'w writer \<Rightarrow> nat \<Rightarrow> 'w committer \<Rightarrow> 'w committer \<Rightarrow> bool" for wr limit where
  close: "committer_step wr limit s (s\<lparr>rx_closed := True\<rparr>)"
| stage: "rx s = u # us \<Longrightarrow> length (commits s) < limit \<Longrightarrow>
    committer_step wr limit s (stage_and_spawn_commit wr u (s\<lparr>rx := us\<rparr>))"
| persist: "commits s = xs @ (b, None) # ys \<Longrightarrow>
    committer_step wr limit s
      (s\<lparr>commits := xs @ (b, Some (word_of_nat (length (store s)))) # ys, store := store s @ [b]\<rparr>)"
| join: "ended \<noteq> [] \<Longrightarrow> mset (commits s) = mset (map (\<lambda>(b, seq). (b, Some seq)) ended) + mset rest \<Longrightarrow>
    committer_step wr limit s
      (flush_and_complete_published_uploads wr (join_batches wr ended (s\<lparr>commits := rest\<rparr>)))"
| finish: "rx s = [] \<Longrightarrow> rx_closed s \<Longrightarrow> commits s = [] \<Longrightarrow>
    committer_step wr limit s (flush_and_complete_published_uploads wr s)"

definition committer_new :: "'w \<Rightarrow> 'w \<Rightarrow> 'w committer" where
  "committer_new sw tw =
    \<lparr>rx = [], rx_closed = False, commits = [], store = [], state_writer = sw, transaction_writer = tw,
     pending_completions = [], completed = []\<rparr>"

text \<open>\<open>us\<close> collects what the preparer sent.\<close>

inductive committer_reachable ::
    "'w writer \<Rightarrow> nat \<Rightarrow> 'w \<Rightarrow> 'w \<Rightarrow> prepared_qmdb_upload list \<Rightarrow> 'w committer \<Rightarrow> bool" for wr limit sw tw where
  started: "committer_reachable wr limit sw tw [] (committer_new sw tw)"
| arrived: "committer_reachable wr limit sw tw us s \<Longrightarrow> \<not> rx_closed s \<Longrightarrow>
    committer_reachable wr limit sw tw (us @ [u]) (s\<lparr>rx := rx s @ [u]\<rparr>)"
| stepped: "committer_reachable wr limit sw tw us s \<Longrightarrow> committer_step wr limit s s' \<Longrightarrow>
    committer_reachable wr limit sw tw us s'"

section \<open>Accounting\<close>

definition batch_ids :: "store_batch \<Rightarrow> nat multiset" where
  "batch_ids b = (case sb_upload b of None \<Rightarrow> {#} | Some u \<Rightarrow> {#pq_completion u#})"

text \<open>The completions the committer still owes or has signalled.\<close>

definition tickets :: "'w committer \<Rightarrow> nat multiset" where
  "tickets s = mset (map pq_completion (rx s)) + sum_mset (mset (map (batch_ids \<circ> fst) (commits s))) +
    mset (map pc_completion (pending_completions s)) + mset (completed s)"

lemma complete_frame [simp]:
  "rx (complete_published_uploads wr s) = rx s" "commits (complete_published_uploads wr s) = commits s"
  "store (complete_published_uploads wr s) = store s"
  "state_writer (complete_published_uploads wr s) = state_writer s"
  "transaction_writer (complete_published_uploads wr s) = transaction_writer s"
  by (simp_all add: complete_published_uploads_def Let_def)

lemma flush_frame [simp]:
  "rx (flush_qmdb_watermarks wr s) = rx s" "commits (flush_qmdb_watermarks wr s) = commits s"
  "pending_completions (flush_qmdb_watermarks wr s) = pending_completions s"
  "completed (flush_qmdb_watermarks wr s) = completed s"
  by (simp_all add: flush_qmdb_watermarks_def Let_def)

lemma tickets_complete [simp]: "tickets (complete_published_uploads wr s) = tickets s"
proof -
  have "image_mset f {#x \<in># M. P x \<longrightarrow> \<not> Q x#} + image_mset f {#x \<in># M. P x \<and> Q x#} = image_mset f M"
    for f :: "pending_completion \<Rightarrow> nat" and P Q M by (induction M) simp_all
  then show ?thesis by (simp add: tickets_def) (simp add: complete_published_uploads_def Let_def add.assoc)
qed

lemma tickets_flush [simp]: "tickets (flush_qmdb_watermarks wr s) = tickets s"
  by (simp add: tickets_def)

lemma tickets_flush_and_complete [simp]:
  "tickets (flush_and_complete_published_uploads wr s) = tickets s"
  "commits (flush_and_complete_published_uploads wr s) = commits s"
  by (simp_all add: flush_and_complete_published_uploads_def Let_def)

lemma tickets_mark: "tickets (mark_committed_batch wr b seq s) = tickets s + batch_ids b"
  by (simp add: tickets_def mark_committed_batch_def batch_ids_def split: option.splits)

lemma tickets_join:
  "tickets (join_batches wr ended s) = tickets s + sum_mset (mset (map (batch_ids \<circ> fst) ended))"
  by (induction wr ended s rule: join_batches.induct) (simp_all add: tickets_mark)

lemma commits_join [simp]: "commits (join_batches wr ended s) = commits s"
proof (induction wr ended s rule: join_batches.induct)
  case (2 wr b seq bs s)
  have "commits (mark_committed_batch wr b seq s) = commits s"
    by (simp add: mark_committed_batch_def split: option.splits)
  with 2 show ?case by simp
qed simp

lemma committer_step_tickets:
  assumes "committer_step wr limit s s'"
  shows "tickets s' = tickets s" "length (commits s) \<le> limit \<Longrightarrow> length (commits s') \<le> limit"
proof -
  have "tickets s' = tickets s \<and> (length (commits s) \<le> limit \<longrightarrow> length (commits s') \<le> limit)"
    using assms
  proof cases
    case close
    then show ?thesis by (simp add: tickets_def)
  next
    case (stage u us)
    then show ?thesis
      by (simp add: tickets_def stage_and_spawn_commit_def prepare_commit_batch_def batch_ids_def Let_def split_def)
  next
    case (persist xs b ys)
    then show ?thesis by (simp add: tickets_def)
  next
    case (join ended rest)
    have "mset (map (batch_ids \<circ> fst) (commits s)) =
        mset (map (batch_ids \<circ> fst) ended) + mset (map (batch_ids \<circ> fst) rest)"
      using join(3) by (simp add: split_def image_mset_union [symmetric] flip: mset_map)
        (simp add: multiset.map_comp comp_def)
    then have "tickets s = tickets (s\<lparr>commits := rest\<rparr>) + sum_mset (mset (map (batch_ids \<circ> fst) ended))"
      by (simp add: tickets_def)
    moreover have "length rest \<le> length (commits s)" using arg_cong [OF join(3), of size] by simp
    ultimately show ?thesis using join(1) by (simp add: tickets_join)
  next
    case finish
    then show ?thesis by simp
  qed
  then show "tickets s' = tickets s" "length (commits s) \<le> limit \<Longrightarrow> length (commits s') \<le> limit" by simp_all
qed

lemma committer_accounts:
  assumes "committer_reachable wr limit sw tw us s"
  shows "tickets s = mset (map pq_completion us)" "length (commits s) \<le> limit"
proof -
  have "tickets s = mset (map pq_completion us) \<and> length (commits s) \<le> limit"
    using assms
  proof induction
    case started
    show ?case by (simp add: tickets_def committer_new_def)
  next
    case (arrived us s u)
    then show ?case by (simp add: tickets_def)
  next
    case (stepped us s s')
    then show ?case using committer_step_tickets [OF stepped.hyps(2)] by simp
  qed
  then show "tickets s = mset (map pq_completion us)" "length (commits s) \<le> limit" by simp_all
qed

section \<open>Durability\<close>

definition in_store :: "'w committer \<Rightarrow> prepared_qmdb_upload \<Rightarrow> bool" where
  "in_store s u \<longleftrightarrow> (\<exists>b \<in> set (store s). sb_upload b = Some u)"

text \<open>A location is published durably when the watermark the writer started from or one in the Store
  reaches it.\<close>

definition durable :: "u64 option \<Rightarrow> (store_batch \<Rightarrow> u64 option) \<Rightarrow> 'w committer \<Rightarrow> u64 \<Rightarrow> bool" where
  "durable init watermark s l \<longleftrightarrow> reaches init l \<or> (\<exists>b \<in> set (store s). reaches (watermark b) l)"

definition pending_of :: "prepared_qmdb_upload \<Rightarrow> pending_completion" where
  "pending_of u =
    \<lparr>pc_state_latest = pq_state u, pc_transaction_latest = pq_transactions u, pc_completion = pq_completion u\<rparr>"

definition visible :: "'w writer \<Rightarrow> 'w committer \<Rightarrow> prepared_qmdb_upload \<Rightarrow> bool" where
  "visible wr s u \<longleftrightarrow> reaches (wr_published wr (state_writer s)) (pq_state u) \<and>
    reaches (wr_published wr (transaction_writer s)) (pq_transactions u)"

definition commits_ok :: "prepared_qmdb_upload list \<Rightarrow> 'w committer \<Rightarrow> bool" where
  "commits_ok us s \<longleftrightarrow> set (rx s) \<subseteq> set us \<and>
    (\<forall>x \<in> set (commits s). (\<exists>u \<in> set us. sb_upload (fst x) = Some u) \<and>
      (snd x \<noteq> None \<longrightarrow> fst x \<in> set (store s)))"

definition pending_ok :: "prepared_qmdb_upload list \<Rightarrow> 'w committer \<Rightarrow> bool" where
  "pending_ok us s \<longleftrightarrow> (\<forall>p \<in> set (pending_completions s). \<exists>u \<in> set us. in_store s u \<and> p = pending_of u)"

definition completed_ok :: "'w writer \<Rightarrow> prepared_qmdb_upload list \<Rightarrow> 'w committer \<Rightarrow> bool" where
  "completed_ok wr us s \<longleftrightarrow>
    (\<forall>i \<in> set (completed s). \<exists>u \<in> set us. pq_completion u = i \<and> in_store s u \<and> visible wr s u)"

definition published_ok :: "'w writer \<Rightarrow> 'w \<Rightarrow> 'w \<Rightarrow> 'w committer \<Rightarrow> bool" where
  "published_ok wr sw tw s \<longleftrightarrow>
    (\<forall>l. reaches (wr_published wr (state_writer s)) l \<longrightarrow> durable (wr_published wr sw) sb_state_watermark s l) \<and>
    (\<forall>l. reaches (wr_published wr (transaction_writer s)) l \<longrightarrow>
      durable (wr_published wr tw) sb_transaction_watermark s l)"

definition durable_inv :: "'w writer \<Rightarrow> 'w \<Rightarrow> 'w \<Rightarrow> prepared_qmdb_upload list \<Rightarrow> 'w committer \<Rightarrow> bool" where
  "durable_inv wr sw tw us s \<longleftrightarrow>
    commits_ok us s \<and> pending_ok us s \<and> completed_ok wr us s \<and> published_ok wr sw tw s"

text \<open>The parts survive when the Store grows and more becomes visible.\<close>

lemma in_store_mono: "set (store s) \<subseteq> set (store s') \<Longrightarrow> in_store s u \<Longrightarrow> in_store s' u"
  by (auto simp: in_store_def)

lemma durable_mono: "set (store s) \<subseteq> set (store s') \<Longrightarrow> durable i w s l \<Longrightarrow> durable i w s' l"
  by (auto simp: durable_def)

lemma commits_ok_mono:
  "commits_ok us s \<Longrightarrow> set (rx s') \<subseteq> set (rx s) \<Longrightarrow> set (commits s') \<subseteq> set (commits s) \<Longrightarrow>
    set (store s) \<subseteq> set (store s') \<Longrightarrow> commits_ok us s'"
  unfolding commits_ok_def by blast

lemma pending_ok_mono:
  "pending_ok us s \<Longrightarrow> set (pending_completions s') \<subseteq> set (pending_completions s) \<Longrightarrow>
    set (store s) \<subseteq> set (store s') \<Longrightarrow> pending_ok us s'"
  unfolding pending_ok_def by (meson in_store_mono subsetD)

lemma completed_ok_mono:
  "completed_ok wr us s \<Longrightarrow> completed s' = completed s \<Longrightarrow> set (store s) \<subseteq> set (store s') \<Longrightarrow>
    (\<And>u. visible wr s u \<Longrightarrow> visible wr s' u) \<Longrightarrow> completed_ok wr us s'"
  unfolding completed_ok_def by (metis in_store_mono)

lemma published_ok_mono:
  assumes "published_ok wr sw tw s" "set (store s) \<subseteq> set (store s')"
    and "\<And>l. reaches (wr_published wr (state_writer s')) l \<Longrightarrow>
      reaches (wr_published wr (state_writer s)) l \<or> (\<exists>b \<in> set (store s'). reaches (sb_state_watermark b) l)"
    and "\<And>l. reaches (wr_published wr (transaction_writer s')) l \<Longrightarrow>
      reaches (wr_published wr (transaction_writer s)) l \<or> (\<exists>b \<in> set (store s'). reaches (sb_transaction_watermark b) l)"
  shows "published_ok wr sw tw s'"
  unfolding published_ok_def
proof (intro conjI allI impI)
  fix l
  assume "reaches (wr_published wr (state_writer s')) l"
  then show "durable (wr_published wr sw) sb_state_watermark s' l"
    using assms(1) assms(3) [of l] durable_mono [OF assms(2)] unfolding published_ok_def
    by (metis durable_def)
next
  fix l
  assume "reaches (wr_published wr (transaction_writer s')) l"
  then show "durable (wr_published wr tw) sb_transaction_watermark s' l"
    using assms(1) assms(4) [of l] durable_mono [OF assms(2)] unfolding published_ok_def
    by (metis durable_def)
qed

lemma durable_inv_same:
  assumes "durable_inv wr sw tw us s" "store s' = store s" "pending_completions s' = pending_completions s"
    and "completed s' = completed s" "state_writer s' = state_writer s" "transaction_writer s' = transaction_writer s"
    and "commits_ok us s'"
  shows "durable_inv wr sw tw us s'"
  using assms
  by (simp add: durable_inv_def pending_ok_def completed_ok_def published_ok_def in_store_def visible_def durable_def)

lemma reaches_mark_flush:
  "writer_ok wr \<Longrightarrow> reaches (wr_published wr (mark_flush wr m seq w)) l \<longleftrightarrow>
    reaches (wr_published wr w) l \<or> reaches m l"
  by (auto simp: mark_flush_def reaches_def writer_ok_def le_max_iff_disj split: option.splits)

lemma reaches_mark_upload:
  "writer_ok wr \<Longrightarrow> wr_published wr (wr_mark_upload wr l' seq w) = wr_published wr w"
  by (simp add: writer_ok_def)

lemma durable_inv_complete:
  assumes "durable_inv wr sw tw us s"
  shows "durable_inv wr sw tw us (complete_published_uploads wr s)"
proof -
  let ?s = "complete_published_uploads wr s"
  have same: "in_store ?s = in_store s" "visible wr ?s = visible wr s"
    by (simp_all add: fun_eq_iff in_store_def visible_def)
  have "\<exists>u \<in> set us. pq_completion u = i \<and> in_store s u \<and> visible wr s u" if "i \<in> set (completed ?s)" for i
  proof (cases "i \<in> set (completed s)")
    case True
    with assms show ?thesis by (simp add: durable_inv_def completed_ok_def)
  next
    case False
    with that obtain p where p: "p \<in> set (pending_completions s)" "i = pc_completion p"
      "reaches (wr_published wr (state_writer s)) (pc_state_latest p)"
      "reaches (wr_published wr (transaction_writer s)) (pc_transaction_latest p)"
      by (auto simp: complete_published_uploads_def Let_def)
    moreover from p(1) obtain u where "u \<in> set us" "in_store s u" "p = pending_of u"
      using assms unfolding durable_inv_def pending_ok_def by blast
    ultimately show ?thesis by (auto simp: pending_of_def visible_def)
  qed
  then have "completed_ok wr us ?s" by (simp add: completed_ok_def same)
  moreover have "set (pending_completions ?s) \<subseteq> set (pending_completions s)"
    by (auto simp: complete_published_uploads_def Let_def)
  then have "pending_ok us ?s" using assms pending_ok_mono [of us s ?s] by (simp add: durable_inv_def)
  moreover have "commits_ok us ?s" "published_ok wr sw tw ?s"
    using assms by (simp_all add: durable_inv_def commits_ok_def published_ok_def durable_def)
  ultimately show ?thesis by (simp add: durable_inv_def)
qed

lemma durable_inv_flush:
  assumes "writer_ok wr" "durable_inv wr sw tw us s"
  shows "durable_inv wr sw tw us (flush_qmdb_watermarks wr s)"
proof (cases "wr_prepare_flush wr (state_writer s) = None \<and> wr_prepare_flush wr (transaction_writer s) = None")
  case True
  with assms(2) show ?thesis by (simp add: flush_qmdb_watermarks_def)
next
  case False
  let ?s = "flush_qmdb_watermarks wr s"
  let ?m = "wr_prepare_flush wr (state_writer s)" and ?n = "wr_prepare_flush wr (transaction_writer s)"
  have st: "store ?s = store s @ [\<lparr>sb_upload = None, sb_state_watermark = ?m, sb_transaction_watermark = ?n\<rparr>]"
    using False by (simp add: flush_qmdb_watermarks_def Let_def)
  then have sub: "set (store s) \<subseteq> set (store ?s)" by auto
  have pub: "reaches (wr_published wr (state_writer ?s)) l \<longleftrightarrow> reaches (wr_published wr (state_writer s)) l \<or> reaches ?m l"
    "reaches (wr_published wr (transaction_writer ?s)) l \<longleftrightarrow>
      reaches (wr_published wr (transaction_writer s)) l \<or> reaches ?n l" for l
    using False reaches_mark_flush [OF assms(1)] by (auto simp: flush_qmdb_watermarks_def Let_def)
  note inv = assms(2) [unfolded durable_inv_def]
  have "commits_ok us ?s" "pending_ok us ?s"
    using inv commits_ok_mono [of us s ?s] pending_ok_mono [of us s ?s] sub by simp_all
  moreover have "completed_ok wr us ?s"
    by (rule completed_ok_mono [of wr us s]) (use inv sub in \<open>simp_all add: visible_def pub\<close>)
  moreover have "published_ok wr sw tw ?s"
    by (rule published_ok_mono [of wr sw tw s]) (use inv sub in \<open>auto simp: pub st\<close>)
  ultimately show ?thesis by (simp add: durable_inv_def)
qed

lemma durable_inv_mark:
  assumes "writer_ok wr" "durable_inv wr sw tw us s" "b \<in> set (store s)" "sb_upload b = Some u" "u \<in> set us"
  shows "durable_inv wr sw tw us (mark_committed_batch wr b seq s)"
proof -
  let ?s = "mark_committed_batch wr b seq s"
  have fr: "rx ?s = rx s" "commits ?s = commits s" "store ?s = store s" "completed ?s = completed s"
    "pending_completions ?s = pending_completions s @ [pending_of u]"
    by (simp_all add: mark_committed_batch_def assms(4) pending_of_def)
  have pub: "reaches (wr_published wr (state_writer ?s)) l \<longleftrightarrow>
      reaches (wr_published wr (state_writer s)) l \<or> reaches (sb_state_watermark b) l"
    "reaches (wr_published wr (transaction_writer ?s)) l \<longleftrightarrow>
      reaches (wr_published wr (transaction_writer s)) l \<or> reaches (sb_transaction_watermark b) l" for l
    by (simp_all add: mark_committed_batch_def assms(4) reaches_mark_flush [OF assms(1)] reaches_mark_upload [OF assms(1)])
  note inv = assms(2) [unfolded durable_inv_def]
  have "commits_ok us ?s" using inv by (simp add: commits_ok_def fr)
  moreover have "in_store s u" using assms(3,4) by (auto simp: in_store_def)
  then have "pending_ok us ?s" using inv assms(5) by (auto simp: pending_ok_def fr in_store_def)
  moreover have "completed_ok wr us ?s"
    by (rule completed_ok_mono [of wr us s]) (use inv in \<open>simp_all add: visible_def pub fr\<close>)
  moreover have "published_ok wr sw tw ?s"
    by (rule published_ok_mono [of wr sw tw s]) (use inv assms(3) in \<open>auto simp: pub fr\<close>)
  ultimately show ?thesis by (simp add: durable_inv_def)
qed

lemma durable_inv_join:
  assumes "writer_ok wr" "durable_inv wr sw tw us s"
    and "\<forall>x \<in> set ended. fst x \<in> set (store s) \<and> (\<exists>u \<in> set us. sb_upload (fst x) = Some u)"
  shows "durable_inv wr sw tw us (join_batches wr ended s)"
  using assms(2,3)
proof (induction ended arbitrary: s)
  case (Cons x ended)
  obtain b seq where x: "x = (b, seq)" by (cases x)
  with Cons.prems obtain u where u: "b \<in> set (store s)" "u \<in> set us" "sb_upload b = Some u" by auto
  have "store (mark_committed_batch wr b seq s) = store s" by (simp add: mark_committed_batch_def u(3))
  with Cons.prems Cons.IH [OF durable_inv_mark [OF assms(1) Cons.prems(1) u(1,3,2)]]
  show ?case by (simp add: x)
qed simp

lemma durable_inv_flush_and_complete:
  "writer_ok wr \<Longrightarrow> durable_inv wr sw tw us s \<Longrightarrow>
    durable_inv wr sw tw us (flush_and_complete_published_uploads wr s)"
  by (simp add: flush_and_complete_published_uploads_def Let_def durable_inv_complete durable_inv_flush)

lemma durable_inv_step:
  assumes "writer_ok wr" "durable_inv wr sw tw us s" "committer_step wr limit s s'"
  shows "durable_inv wr sw tw us s'"
  using assms(3)
proof cases
  case close
  then show ?thesis
    by (intro durable_inv_same [OF assms(2)]) (use assms(2) in \<open>simp_all add: durable_inv_def commits_ok_def\<close>)
next
  case (stage u vs)
  then show ?thesis
    by (intro durable_inv_same [OF assms(2)])
      (use assms(2) in \<open>simp_all add: durable_inv_def commits_ok_def stage_and_spawn_commit_def
        prepare_commit_batch_def Let_def split_def\<close>)
next
  case (persist xs b ys)
  note inv = assms(2) [unfolded durable_inv_def]
  have sub: "set (store s) \<subseteq> set (store s')" using persist(1) by auto
  have "commits_ok us s'" using inv persist by (auto simp: commits_ok_def)
  moreover have "pending_ok us s'" using inv pending_ok_mono [OF _ _ sub] persist(1) by simp
  moreover have "completed_ok wr us s'"
    by (rule completed_ok_mono [of wr us s]) (use inv sub persist(1) in \<open>simp_all add: visible_def\<close>)
  moreover have "published_ok wr sw tw s'"
    by (rule published_ok_mono [of wr sw tw s]) (use inv sub persist(1) in simp_all)
  ultimately show ?thesis by (simp add: durable_inv_def)
next
  case (join ended rest)
  have "set_mset (mset (commits s)) = set_mset (mset (map (\<lambda>(b, seq). (b, Some seq)) ended) + mset rest)"
    using join(3) by simp
  then have sets: "set (commits s) = (\<lambda>(b, seq). (b, Some seq)) ` set ended \<union> set rest" by simp
  let ?s = "s\<lparr>commits := rest\<rparr>"
  have ok: "commits_ok us s" using assms(2) by (simp add: durable_inv_def)
  have "durable_inv wr sw tw us ?s"
    by (rule durable_inv_same [OF assms(2)]) (use ok sets in \<open>auto simp: commits_ok_def\<close>)
  moreover have "fst x \<in> set (store ?s) \<and> (\<exists>u \<in> set us. sb_upload (fst x) = Some u)" if "x \<in> set ended" for x
  proof -
    have "(fst x, Some (snd x)) \<in> set (commits s)" using that sets by (force simp: split_def)
    with ok show ?thesis by (auto simp: commits_ok_def)
  qed
  ultimately show ?thesis
    using durable_inv_flush_and_complete [OF assms(1)] durable_inv_join [OF assms(1)] join(1) by blast
next
  case finish
  then show ?thesis using durable_inv_flush_and_complete [OF assms(1,2)] by simp
qed

lemma committer_durable:
  assumes "writer_ok wr" "committer_reachable wr limit sw tw us s"
  shows "durable_inv wr sw tw us s"
  using assms(2)
proof induction
  case started
  show ?case
    by (simp add: durable_inv_def commits_ok_def pending_ok_def completed_ok_def published_ok_def
        committer_new_def durable_def)
next
  case (arrived us s u)
  have "durable_inv wr sw tw (us @ [u]) s"
    using arrived.IH
    by (simp add: durable_inv_def commits_ok_def pending_ok_def completed_ok_def) blast
  then show ?case
    by (rule durable_inv_same) (use arrived.IH in \<open>auto simp: durable_inv_def commits_ok_def\<close>)
next
  case (stepped us s s')
  then show ?case using durable_inv_step [OF assms(1)] by blast
qed

lemma completed_complete: "set (completed s) \<subseteq> set (completed (complete_published_uploads wr s))"
  by (simp add: complete_published_uploads_def Let_def)

lemma completed_flush_and_complete:
  "set (completed s) \<subseteq> set (completed (flush_and_complete_published_uploads wr s))"
proof -
  let ?s = "complete_published_uploads wr s"
  have "set (completed s) \<subseteq> set (completed ?s)" by (rule completed_complete)
  also have "\<dots> \<subseteq> set (completed (complete_published_uploads wr (flush_qmdb_watermarks wr ?s)))"
    using completed_complete [of "flush_qmdb_watermarks wr ?s" wr] by simp
  finally show ?thesis
    using completed_complete [of s wr] by (simp add: flush_and_complete_published_uploads_def Let_def)
qed

lemma completed_join [simp]: "completed (join_batches wr ended s) = completed s"
proof (induction wr ended s rule: join_batches.induct)
  case (2 wr b seq bs s)
  have "completed (mark_committed_batch wr b seq s) = completed s"
    by (simp add: mark_committed_batch_def split: option.splits)
  with 2 show ?case by simp
qed simp

lemma completed_grows: "committer_step wr limit s s' \<Longrightarrow> set (completed s) \<subseteq> set (completed s')"
proof (cases rule: committer_step.cases, assumption)
  fix ended rest
  assume s': "s' = flush_and_complete_published_uploads wr (join_batches wr ended (s\<lparr>commits := rest\<rparr>))"
  show ?thesis
    using completed_flush_and_complete [of "join_batches wr ended (s\<lparr>commits := rest\<rparr>)" wr] unfolding s' by simp
next
  assume "s' = flush_and_complete_published_uploads wr s"
  then show ?thesis using completed_flush_and_complete [of s wr] by simp
qed (auto simp: stage_and_spawn_commit_def)

section \<open>The consumer of the queue\<close>

text \<open>Uploads in progress are bounded; an entry is acknowledged when its completion is reported.\<close>

record consumer =
  cs_next :: nat
  cs_closed :: bool
  cs_active :: "(nat \<times> upload_completion) list"
  cs_acked :: "(nat \<times> upload_completion) list"

abbreviation max_finalized_queue_uploads :: nat where
  "max_finalized_queue_uploads \<equiv> 64"

definition max_active_uploads :: "nat \<Rightarrow> nat" where
  "max_active_uploads upload_buffer = max 1 (min upload_buffer max_finalized_queue_uploads)"

definition max_in_flight_commits :: "nat \<Rightarrow> nat" where
  "max_in_flight_commits upload_buffer = max 1 (min upload_buffer max_buffered_qmdb_uploads)"

definition consumer_new :: consumer where
  "consumer_new = \<lparr>cs_next = 0, cs_closed = False, cs_active = [], cs_acked = []\<rparr>"

text \<open>\<open>start_queued_upload\<close> with the completion the publisher returned.\<close>

definition start_queued_upload :: "upload_completion \<Rightarrow> consumer \<Rightarrow> consumer" where
  "start_queued_upload completion k =
    k\<lparr>cs_next := Suc (cs_next k), cs_active := cs_active k @ [(cs_next k, completion)]\<rparr>"

definition wait_completion :: "nat list \<Rightarrow> upload_completion \<Rightarrow> bool" where
  "wait_completion signalled completion = (case completion of CompletedUpload \<Rightarrow> True | AwaitUpload i \<Rightarrow> i \<in> set signalled)"

inductive consumer_step :: "nat \<Rightarrow> nat list \<Rightarrow> consumer \<Rightarrow> consumer \<Rightarrow> bool" for max_active signalled where
  take_entry: "\<not> cs_closed k \<Longrightarrow> length (cs_active k) < max 1 max_active \<Longrightarrow>
    consumer_step max_active signalled k (start_queued_upload completion k)"
| reader_closed: "consumer_step max_active signalled k (k\<lparr>cs_closed := True\<rparr>)"
| ack_finalized_queue_entry: "cs_active k = xs @ (position, completion) # ys \<Longrightarrow> wait_completion signalled completion \<Longrightarrow>
    consumer_step max_active signalled k
      (k\<lparr>cs_active := xs @ ys, cs_acked := cs_acked k @ [(position, completion)]\<rparr>)"

text \<open>Consumer and committer side by side.\<close>

inductive pipeline_reachable ::
    "'w writer \<Rightarrow> nat \<Rightarrow> 'w \<Rightarrow> 'w \<Rightarrow> prepared_qmdb_upload list \<Rightarrow> consumer \<Rightarrow> 'w committer \<Rightarrow> bool"
  for wr upload_buffer sw tw where
  p_start: "pipeline_reachable wr upload_buffer sw tw [] consumer_new (committer_new sw tw)"
| p_arrive: "pipeline_reachable wr upload_buffer sw tw us k s \<Longrightarrow> \<not> rx_closed s \<Longrightarrow>
    pipeline_reachable wr upload_buffer sw tw (us @ [u]) k (s\<lparr>rx := rx s @ [u]\<rparr>)"
| p_commit: "pipeline_reachable wr upload_buffer sw tw us k s \<Longrightarrow>
    committer_step wr (max_in_flight_commits upload_buffer) s s' \<Longrightarrow>
    pipeline_reachable wr upload_buffer sw tw us k s'"
| p_consume: "pipeline_reachable wr upload_buffer sw tw us k s \<Longrightarrow>
    consumer_step (max_active_uploads upload_buffer) (completed s) k k' \<Longrightarrow>
    pipeline_reachable wr upload_buffer sw tw us k' s"

definition consumer_inv :: "nat \<Rightarrow> nat list \<Rightarrow> consumer \<Rightarrow> bool" where
  "consumer_inv max_active signalled k \<longleftrightarrow>
    length (cs_active k) \<le> max_active \<and> (\<forall>x \<in> set (cs_acked k). wait_completion signalled (snd x)) \<and>
    mset (map fst (cs_active k)) + mset (map fst (cs_acked k)) = mset [0..<cs_next k]"

lemma consumer_inv_step:
  assumes "consumer_inv n signalled k" "1 \<le> n" "consumer_step n signalled k k'"
  shows "consumer_inv n signalled k'"
  using assms(3)
proof cases
  case (take_entry completion)
  with assms(1,2) show ?thesis by (simp add: consumer_inv_def start_queued_upload_def max_def)
next
  case reader_closed
  with assms(1) show ?thesis by (simp add: consumer_inv_def)
next
  case (ack_finalized_queue_entry xs position completion ys)
  with assms(1) show ?thesis by (auto simp: consumer_inv_def)
qed

lemma wait_completion_mono:
  "set a \<subseteq> set b \<Longrightarrow> wait_completion a x \<Longrightarrow> wait_completion b x"
  by (auto simp: wait_completion_def split: upload_completion.splits)

lemma pipeline_inv:
  assumes "pipeline_reachable wr upload_buffer sw tw us k s"
  shows "committer_reachable wr (max_in_flight_commits upload_buffer) sw tw us s"
    "consumer_inv (max_active_uploads upload_buffer) (completed s) k"
proof -
  have "committer_reachable wr (max_in_flight_commits upload_buffer) sw tw us s \<and>
      consumer_inv (max_active_uploads upload_buffer) (completed s) k"
    using assms
  proof induction
    case p_start
    show ?case by (simp add: committer_reachable.started consumer_inv_def consumer_new_def)
  next
    case (p_arrive us k s u)
    then show ?case by (auto intro: committer_reachable.arrived)
  next
    case (p_commit us k s s')
    then have "consumer_inv (max_active_uploads upload_buffer) (completed s') k"
      using wait_completion_mono [OF completed_grows [OF p_commit.hyps(2)]] by (auto simp: consumer_inv_def)
    with p_commit show ?case by (auto intro: committer_reachable.stepped)
  next
    case (p_consume us k s k')
    have "1 \<le> max_active_uploads upload_buffer" by (simp add: max_active_uploads_def)
    then show ?case using consumer_inv_step p_consume by blast
  qed
  then show "committer_reachable wr (max_in_flight_commits upload_buffer) sw tw us s"
    "consumer_inv (max_active_uploads upload_buffer) (completed s) k" by simp_all
qed

section \<open>Properties\<close>


text \<open>A writer that publishes what it is told to.\<close>

type_synonym demo_writer_state = "u64 option \<times> u64 list"

definition demo_writer :: "demo_writer_state writer" where
  "demo_writer =
    \<lparr>wr_prepare_flush_for = (\<lambda>l w. Some l),
     wr_prepare_flush = (\<lambda>(p, ls). if ls = [] then None else Some (last ls)),
     wr_mark_upload = (\<lambda>l s (p, ls). (p, ls @ [l])),
     wr_mark_flush = (\<lambda>m s (p, ls). (Some (case p of None \<Rightarrow> m | Some p \<Rightarrow> max p m), ls)),
     wr_published = fst\<rparr>"

lemma writer_ok_demo: "writer_ok demo_writer"
  by (simp add: writer_ok_def demo_writer_def split_def)

definition demo_prepared :: prepared_qmdb_upload where
  "demo_prepared = \<lparr>pq_height = 1, pq_sql_rows = [], pq_state = 4, pq_transactions = 3, pq_completion = 0\<rparr>"

definition demo_batch :: store_batch where
  "demo_batch = \<lparr>sb_upload = Some demo_prepared, sb_state_watermark = Some 4, sb_transaction_watermark = Some 3\<rparr>"

definition demo_committed :: "demo_writer_state committer" where
  "demo_committed = (committer_new (None, []) (None, []))
    \<lparr>store := [demo_batch], state_writer := (Some 4, [4]), transaction_writer := (Some 3, [3]), completed := [0]\<rparr>"

definition demo_consumer :: consumer where
  "demo_consumer = \<lparr>cs_next = 1, cs_closed = False, cs_active = [], cs_acked = [(0, AwaitUpload 0)]\<rparr>"

lemma demo_pipeline: "pipeline_reachable demo_writer 8 (None, []) (None, []) [demo_prepared] demo_consumer demo_committed"
proof -
  let ?n = "committer_new (None, []) (None, []) :: demo_writer_state committer"
  let ?R = "pipeline_reachable demo_writer 8 (None, []) (None, [])"
  have "?R [] consumer_new ?n" by (rule p_start)
  from p_arrive [OF this, of demo_prepared] have "?R [demo_prepared] consumer_new (?n\<lparr>rx := [demo_prepared]\<rparr>)"
    by (simp add: committer_new_def)
  moreover have "committer_step demo_writer (max_in_flight_commits 8) (?n\<lparr>rx := [demo_prepared]\<rparr>)
      (?n\<lparr>commits := [(demo_batch, None)]\<rparr>)"
    using committer_step.stage [of "?n\<lparr>rx := [demo_prepared]\<rparr>" demo_prepared "[]" "max_in_flight_commits 8" demo_writer]
    by (simp add: committer_new_def stage_and_spawn_commit_def prepare_commit_batch_def demo_writer_def demo_batch_def
        demo_prepared_def max_in_flight_commits_def)
  ultimately have "?R [demo_prepared] consumer_new (?n\<lparr>commits := [(demo_batch, None)]\<rparr>)" by (rule p_commit)
  moreover have "committer_step demo_writer (max_in_flight_commits 8) (?n\<lparr>commits := [(demo_batch, None)]\<rparr>)
      (?n\<lparr>commits := [(demo_batch, Some 0)], store := [demo_batch]\<rparr>)"
    using committer_step.persist [of "?n\<lparr>commits := [(demo_batch, None)]\<rparr>" "[]" demo_batch "[]" demo_writer
        "max_in_flight_commits 8"] by (simp add: committer_new_def)
  ultimately have "?R [demo_prepared] consumer_new (?n\<lparr>commits := [(demo_batch, Some 0)], store := [demo_batch]\<rparr>)"
    by (rule p_commit)
  moreover have "committer_step demo_writer (max_in_flight_commits 8)
      (?n\<lparr>commits := [(demo_batch, Some 0)], store := [demo_batch]\<rparr>) demo_committed"
    using committer_step.join [of "[(demo_batch, 0)]" "?n\<lparr>commits := [(demo_batch, Some 0)], store := [demo_batch]\<rparr>" "[]"
        demo_writer "max_in_flight_commits 8"]
    by (simp add: committer_new_def demo_committed_def mark_committed_batch_def demo_batch_def demo_prepared_def
        demo_writer_def mark_flush_def flush_and_complete_published_uploads_def complete_published_uploads_def
        reaches_def Let_def)
  ultimately have r: "?R [demo_prepared] consumer_new demo_committed" by (rule p_commit)
  let ?k = "start_queued_upload (AwaitUpload 0) consumer_new"
  have "consumer_step (max_active_uploads 8) (completed demo_committed) consumer_new ?k"
    by (rule consumer_step.take_entry) (simp_all add: consumer_new_def max_active_uploads_def)
  with r have "?R [demo_prepared] ?k demo_committed" by (rule p_consume)
  moreover have "consumer_step (max_active_uploads 8) (completed demo_committed) ?k demo_consumer"
    using consumer_step.ack_finalized_queue_entry [of ?k "[]" 0 "AwaitUpload 0" "[]" "completed demo_committed"
        "max_active_uploads 8"]
    by (simp add: start_queued_upload_def consumer_new_def demo_consumer_def wait_completion_def demo_committed_def)
  ultimately show ?thesis by (rule p_consume)
qed


text \<open>Every completion is signalled at most once and none is lost: the uploads sent to the committer
  are, counted with multiplicity, those in its channel, in flight, waiting for a watermark, or
  completed; at most the configured number is in flight or active, never more than 64.\<close>

theorem completions_accounted:
  assumes "pipeline_reachable wr upload_buffer sw tw us k s"
  shows "mset (map pq_completion us) = tickets s \<and> length (commits s) \<le> 64 \<and> length (cs_active k) \<le> 64 \<and>
    mset (map fst (cs_active k)) + mset (map fst (cs_acked k)) = mset [0..<cs_next k]"
proof -
  note inv = pipeline_inv [OF assms]
  have "max_in_flight_commits upload_buffer \<le> 64" "max_active_uploads upload_buffer \<le> 64"
    by (simp_all add: max_in_flight_commits_def max_active_uploads_def)
  with committer_accounts [OF inv(1)] inv(2) show ?thesis by (simp add: consumer_inv_def)
qed

theorem completions_accounted_witness: "tickets demo_committed = {#0#} \<and> cs_active demo_consumer = []"
  using completions_accounted [OF demo_pipeline] by (simp add: demo_prepared_def demo_consumer_def)

lemma retry_backoff_bounds:
  assumes "attempt \<noteq> 0"
  shows "200 \<le> retry_backoff attempt" "retry_backoff attempt \<le> 2000"
proof -
  have "1 \<le> unat attempt" using assms by (simp add: Suc_le_eq unat_gt_0)
  then have "min (unat attempt) 5 \<in> {1, 2, 3, 4, 5}" by auto
  then show "200 \<le> retry_backoff attempt" "retry_backoff attempt \<le> 2000"
    by (auto simp: retry_backoff_def Let_def)
qed

text \<open>Retrying a commit terminates as soon as the Store accepts, with the sequence number of the accepting
  answer, and every pause in between is at least 200 ms and at most 2 s.\<close>

theorem commit_retry_returns:
  "\<exists>sleeps. commit_with_retry attempt (replicate n None @ Some seq # rest) = Some (seq, sleeps) \<and>
    length sleeps = n \<and> list_all (\<lambda>ms. 200 \<le> ms \<and> ms \<le> 2000) sleeps"
proof (induction n arbitrary: attempt)
  case (Suc n)
  have "saturating_inc attempt \<noteq> 0"
    by (auto simp: saturating_inc_def) (metis add.commute add_eq_0_iff)
  with Suc [of "saturating_inc attempt"] retry_backoff_bounds [of "saturating_inc attempt"]
  show ?case by (auto simp: Let_def)
qed simp

end
