(* ===== verification/Mempool.thy ===== *)
theory Mempool
  imports Machines Block
begin

text \<open>
  The mempool actor of \<open>crates/mempool/src/webserver/actor.rs\<close> and its messages
  (\<open>mailbox.rs\<close>). The actor is a loop over messages; \<open>handle\<close> is the body of the loop, one
  definition per arm of the \<open>match\<close>, from the local variables of \<open>run\<close> (the record \<open>actor\<close>) to
  their new values and the list of what is sent on one-shot channels. A sender is a number; a
  sender that is dropped without a value shows as \<open>DropTx\<close>. A digest is printed by the
  parameter \<open>sh\<close> (its \<open>Display\<close>), and \<open>it\<close> is the order in which a \<open>HashSet\<close> is iterated.
  The invariants: the pool is bounded and its byte count exact, no transaction is in flight
  twice, the bookkeeping of batches is consistent, and every batch still reported as accepted
  has a transaction in flight.
\<close>

section \<open>Data\<close>

datatype tx_status =
    TxFinalized u64
  | TxPartiallyFinalized u64 "string list" "string list"
  | TxDropped

datatype batch_status =
    BatchAccepted "string list"
  | BatchFinalized u64 "string list"
  | BatchPartiallyFinalized u64 "string list" "string list"
  | BatchDropped "string list"

record pool_config =
  max_pool_bytes :: nat
  max_propose_bytes :: nat
  cfg_namespace :: bytes
  drop_grace_blocks :: u64

record pool_entry =
  pe_transactions :: "signed_transaction list"
  pe_total_bytes :: nat

record proposed_batch =
  pb_height :: u64
  pb_digests :: "digest list"

datatype digest_outcome = OutFinalized u64 | OutDropped

datatype ingest_status = IngestAccepted | IngestDropped

type_synonym sender = nat
type_synonym batch_id = string

datatype message =
    Submit batch_id "digest list" "signed_transaction list" nat "sender option" "sender option"
  | QueryStatus batch_id sender
  | QueryConsensusRound sender
  | Propose u64 sender
  | ReportBlock sealed_block sender
  | ReportTip u64 u64

datatype effect =
    SendTx sender tx_status
  | DropTx sender
  | SendIngest sender ingest_status
  | SendStatus sender "batch_status option"
  | SendRound sender u64
  | SendBatch sender "signed_transaction list"
  | Acknowledge sender

record actor =
  pool :: "pool_entry list"
  pool_bytes :: nat
  proposed :: "proposed_batch list"
  statuses :: "(batch_id, batch_status) hashmap"
  status_order :: "batch_id list"
  batch_digests :: "batch_id \<rightharpoonup> digest list"
  digest_watchers :: "digest \<rightharpoonup> batch_id list"
  digest_outcomes :: "digest \<rightharpoonup> digest_outcome"
  pending_waiters :: "batch_id \<rightharpoonup> sender list"
  known_digests :: "digest set"
  highest_consensus_round :: u64

definition actor_new :: actor where
  "actor_new =
    \<lparr>pool = [], pool_bytes = 0, proposed = [], statuses = [], status_order = [],
     batch_digests = Map.empty, digest_watchers = Map.empty, digest_outcomes = Map.empty,
     pending_waiters = Map.empty, known_digests = {}, highest_consensus_round = 0\<rparr>"

section \<open>Statuses\<close>

definition max_status_entries :: nat where
  "max_status_entries = 1000000"

fun outcomes_loop ::
    "(digest \<Rightarrow> string) \<Rightarrow> (digest \<rightharpoonup> digest_outcome) \<Rightarrow> string list \<Rightarrow> string list \<Rightarrow> u64
      \<Rightarrow> digest list \<Rightarrow> (string list \<times> string list \<times> u64) option" where
  "outcomes_loop sh os included filtered h [] = Some (included, filtered, h)"
| "outcomes_loop sh os included filtered h (d # ds) =
    (case os d of
       Some (OutFinalized h') \<Rightarrow> outcomes_loop sh os (included @ [sh d]) filtered (max h h') ds
     | Some OutDropped \<Rightarrow> outcomes_loop sh os included (filtered @ [sh d]) h ds
     | None \<Rightarrow> None)"

definition batch_status_from_outcomes ::
    "(digest \<Rightarrow> string) \<Rightarrow> digest list \<Rightarrow> (digest \<rightharpoonup> digest_outcome) \<Rightarrow> batch_status option" where
  "batch_status_from_outcomes sh ds os =
    (case outcomes_loop sh os [] [] 0 ds of
       None \<Rightarrow> None
     | Some (included, filtered, h) \<Rightarrow>
         if included = [] then Some (BatchDropped filtered)
         else if filtered = [] then Some (BatchFinalized h included)
         else Some (BatchPartiallyFinalized h included filtered))"

fun tx_status_from_batch :: "batch_status \<Rightarrow> tx_status option" where
  "tx_status_from_batch (BatchAccepted _) = None"
| "tx_status_from_batch (BatchFinalized h _) = Some (TxFinalized h)"
| "tx_status_from_batch (BatchPartiallyFinalized h i f) = Some (TxPartiallyFinalized h i f)"
| "tx_status_from_batch (BatchDropped _) = Some TxDropped"

definition accepted_status :: "(digest \<Rightarrow> string) \<Rightarrow> digest list \<Rightarrow> batch_status" where
  "accepted_status sh ds = BatchAccepted (map sh ds)"

text \<open>The loop of \<open>remember_status\<close> pops the oldest batches while there are too many.\<close>

fun expire_loop ::
    "(batch_id, batch_status) hashmap \<Rightarrow> batch_id list
      \<Rightarrow> batch_id list \<times> (batch_id, batch_status) hashmap \<times> batch_id list" where
  "expire_loop sts [] = ([], sts, [])"
| "expire_loop sts (b # q) =
    (if max_status_entries < length sts
     then (case expire_loop (hm_remove b sts) q of (expired, sts, q) \<Rightarrow> (b # expired, sts, q))
     else ([], sts, b # q))"

definition remember_status :: "batch_id \<Rightarrow> batch_status \<Rightarrow> actor \<Rightarrow> batch_id list \<times> actor" where
  "remember_status b status s =
    (let order = (if hm_get (statuses s) b = None then status_order s @ [b] else status_order s) in
     case expire_loop (hm_insert b status (statuses s)) order of
       (expired, sts, order) \<Rightarrow> (expired, s\<lparr>statuses := sts, status_order := order\<rparr>))"

definition waiters_for :: "batch_id \<Rightarrow> actor \<Rightarrow> sender list" where
  "waiters_for b s = (case pending_waiters s b of None \<Rightarrow> [] | Some ws \<Rightarrow> ws)"

definition push_waiter :: "batch_id \<Rightarrow> sender \<Rightarrow> actor \<Rightarrow> actor" where
  "push_waiter b w s =
    s\<lparr>pending_waiters := (pending_waiters s)(b \<mapsto> waiters_for b s @ [w])\<rparr>"

definition send_pending_waiters :: "batch_id \<Rightarrow> batch_status \<Rightarrow> actor \<Rightarrow> actor \<times> effect list" where
  "send_pending_waiters b status s =
    (case tx_status_from_batch status of
       None \<Rightarrow> (s, [])
     | Some t \<Rightarrow>
         (case pending_waiters s b of
            None \<Rightarrow> (s, [])
          | Some ws \<Rightarrow>
              (s\<lparr>pending_waiters := (pending_waiters s)(b := None)\<rparr>, map (\<lambda>w. SendTx w t) ws)))"

section \<open>Watching digests\<close>

fun watch_loop ::
    "batch_id \<Rightarrow> digest set \<Rightarrow> digest list \<Rightarrow> (digest \<rightharpoonup> batch_id list) \<Rightarrow> (digest \<rightharpoonup> batch_id list)" where
  "watch_loop b seen [] w = w"
| "watch_loop b seen (d # ds) w =
    (if d \<in> seen then watch_loop b seen ds w
     else watch_loop b (insert d seen) ds
       (w(d \<mapsto> (case w d of None \<Rightarrow> [] | Some bs \<Rightarrow> bs) @ [b])))"

definition watch_batch :: "batch_id \<Rightarrow> digest list \<Rightarrow> actor \<Rightarrow> actor" where
  "watch_batch b ds s = s\<lparr>digest_watchers := watch_loop b {} ds (digest_watchers s)\<rparr>"

fun forget_loop ::
    "batch_id \<Rightarrow> digest set \<Rightarrow> digest list
      \<Rightarrow> (digest \<rightharpoonup> batch_id list) \<times> (digest \<rightharpoonup> digest_outcome)
      \<Rightarrow> (digest \<rightharpoonup> batch_id list) \<times> (digest \<rightharpoonup> digest_outcome)" where
  "forget_loop b seen [] (w, os) = (w, os)"
| "forget_loop b seen (d # ds) (w, os) =
    (if d \<in> seen then forget_loop b seen ds (w, os)
     else case w d of
       None \<Rightarrow> forget_loop b (insert d seen) ds (w, os)
     | Some bs \<Rightarrow>
         let bs = filter (\<lambda>known. known \<noteq> b) bs in
         forget_loop b (insert d seen) ds
           (if bs = [] then (w(d := None), os(d := None)) else (w(d \<mapsto> bs), os)))"

definition forget_batch :: "batch_id \<Rightarrow> actor \<Rightarrow> actor \<times> effect list" where
  "forget_batch b s =
    (let dropped = map DropTx (waiters_for b s);
         s = s\<lparr>pending_waiters := (pending_waiters s)(b := None)\<rparr> in
     case batch_digests s b of
       None \<Rightarrow> (s, dropped)
     | Some ds \<Rightarrow>
         (case forget_loop b {} ds (digest_watchers s, digest_outcomes s) of
            (w, os) \<Rightarrow>
              (s\<lparr>batch_digests := (batch_digests s)(b := None), digest_watchers := w,
                 digest_outcomes := os\<rparr>, dropped)))"

fun forget_expired_batches :: "batch_id list \<Rightarrow> actor \<Rightarrow> actor \<times> effect list" where
  "forget_expired_batches [] s = (s, [])"
| "forget_expired_batches (b # bs) s =
    (case forget_batch b s of
       (s, e) \<Rightarrow> (case forget_expired_batches bs s of (s, e') \<Rightarrow> (s, e @ e')))"

fun watched_batches_for :: "digest list \<Rightarrow> (digest \<rightharpoonup> batch_id list) \<Rightarrow> batch_id list" where
  "watched_batches_for [] w = []"
| "watched_batches_for (d # ds) w =
    (case w d of
       None \<Rightarrow> watched_batches_for ds w
     | Some bs \<Rightarrow> remdups (bs @ watched_batches_for ds w))"

definition resolve_batch_if_terminal ::
    "(digest \<Rightarrow> string) \<Rightarrow> batch_id \<Rightarrow> actor \<Rightarrow> actor \<times> effect list" where
  "resolve_batch_if_terminal sh b s =
    (case batch_digests s b of
       None \<Rightarrow> (s, [])
     | Some ds \<Rightarrow>
         (case batch_status_from_outcomes sh ds (digest_outcomes s) of
            None \<Rightarrow> (s, [])
          | Some status \<Rightarrow>
              (case remember_status b status s of
                 (expired, s) \<Rightarrow>
                   (case (case hm_get (statuses s) b of
                            None \<Rightarrow> (s, [])
                          | Some status \<Rightarrow> send_pending_waiters b status s) of
                      (s, e1) \<Rightarrow>
                        (case forget_batch b s of
                           (s, e2) \<Rightarrow>
                             (case forget_expired_batches expired s of
                                (s, e3) \<Rightarrow> (s, e1 @ e2 @ e3)))))))"

fun resolve_all ::
    "(digest \<Rightarrow> string) \<Rightarrow> batch_id list \<Rightarrow> actor \<Rightarrow> actor \<times> effect list" where
  "resolve_all sh [] s = (s, [])"
| "resolve_all sh (b # bs) s =
    (case resolve_batch_if_terminal sh b s of
       (s, e) \<Rightarrow> (case resolve_all sh bs s of (s, e') \<Rightarrow> (s, e @ e')))"

section \<open>Submitting\<close>

fun new_transactions ::
    "signed_transaction list \<Rightarrow> digest set \<Rightarrow> signed_transaction list \<times> digest set" where
  "new_transactions [] known = ([], known)"
| "new_transactions (t # ts) known =
    (if message_digest t \<in> known then new_transactions ts known
     else case new_transactions ts (insert (message_digest t) known) of
       (accepted, known) \<Rightarrow> (t # accepted, known))"

definition remove_known_digests :: "signed_transaction list \<Rightarrow> digest set \<Rightarrow> digest set" where
  "remove_known_digests ts known = fold (\<lambda>t known. known - {message_digest t}) ts known"

definition total_bytes_for :: "signed_transaction list \<Rightarrow> nat" where
  "total_bytes_for ts = sum_list (map signed_transaction_encode_size ts)"

definition rotation_round :: "u64 \<Rightarrow> u64 \<Rightarrow> u64" where
  "rotation_round epoch view = epoch + view"

definition send_to :: "('a \<Rightarrow> 'b \<Rightarrow> effect) \<Rightarrow> 'a option \<Rightarrow> 'b \<Rightarrow> effect list" where
  "send_to msg w x = (case w of None \<Rightarrow> [] | Some w \<Rightarrow> [msg w x])"

definition handle_submit ::
    "(digest \<Rightarrow> string) \<Rightarrow> pool_config \<Rightarrow> batch_id \<Rightarrow> digest list \<Rightarrow> signed_transaction list \<Rightarrow> nat
      \<Rightarrow> sender option \<Rightarrow> sender option \<Rightarrow> actor \<Rightarrow> actor \<times> effect list" where
  "handle_submit sh cfg b ds ts nbytes result ingest_result s =
    (case hm_get (statuses s) b of
       Some status \<Rightarrow>
         (let e = send_to SendIngest ingest_result IngestAccepted in
          case result of
            None \<Rightarrow> (s, e)
          | Some w \<Rightarrow>
              (case tx_status_from_batch status of
                 Some t \<Rightarrow> (s, e @ [SendTx w t])
               | None \<Rightarrow> (push_waiter b w s, e)))
     | None \<Rightarrow>
         (case new_transactions ts (known_digests s) of
            (ts, known) \<Rightarrow>
              let nbytes = min (total_bytes_for ts) nbytes in
              if ts \<noteq> [] \<and> max_pool_bytes cfg < pool_bytes s + nbytes
              then
                (s\<lparr>known_digests := remove_known_digests ts known\<rparr>,
                 send_to SendTx result TxDropped @ send_to SendIngest ingest_result IngestDropped)
              else
                (case remember_status b (accepted_status sh ds) (s\<lparr>known_digests := known\<rparr>) of
                   (expired, s) \<Rightarrow>
                     (case forget_expired_batches expired
                         (watch_batch b ds (s\<lparr>batch_digests := (batch_digests s)(b \<mapsto> ds)\<rparr>)) of
                        (s, e) \<Rightarrow>
                          let s = (case result of None \<Rightarrow> s | Some w \<Rightarrow> push_waiter b w s);
                              s = (if ts = [] then s
                                   else s\<lparr>pool_bytes := pool_bytes s + nbytes,
                                     pool := pool s @ [\<lparr>pe_transactions = ts, pe_total_bytes = nbytes\<rparr>]\<rparr>)
                          in (s, e @ send_to SendIngest ingest_result IngestAccepted)))))"

section \<open>Proposing\<close>

text \<open>The loop pops entries while they fit, but always at least one.\<close>

fun propose_entries ::
    "pool_config \<Rightarrow> u64 \<Rightarrow> signed_transaction list \<Rightarrow> nat \<Rightarrow> pool_entry list \<Rightarrow> nat \<Rightarrow> proposed_batch list
      \<Rightarrow> signed_transaction list \<times> pool_entry list \<times> nat \<times> proposed_batch list" where
  "propose_entries cfg h txs n [] bytes prop_q = (txs, [], bytes, prop_q)"
| "propose_entries cfg h txs n (entry # p) bytes prop_q =
    (if max_propose_bytes cfg < n + pe_total_bytes entry \<and> txs \<noteq> [] then (txs, entry # p, bytes, prop_q)
     else propose_entries cfg h (txs @ pe_transactions entry) (n + pe_total_bytes entry) p
       (bytes - pe_total_bytes entry)
       (prop_q @ [\<lparr>pb_height = h, pb_digests = map message_digest (pe_transactions entry)\<rparr>]))"

definition handle_propose :: "pool_config \<Rightarrow> u64 \<Rightarrow> sender \<Rightarrow> actor \<Rightarrow> actor \<times> effect list" where
  "handle_propose cfg h w s =
    (case propose_entries cfg h [] 0 (pool s) (pool_bytes s) (proposed s) of
       (txs, p, bytes, q) \<Rightarrow> (s\<lparr>pool := p, pool_bytes := bytes, proposed := q\<rparr>, [SendBatch w txs]))"

section \<open>Reports\<close>

fun record_outcomes :: "u64 \<Rightarrow> digest set \<Rightarrow> digest list \<Rightarrow> actor \<Rightarrow> actor" where
  "record_outcomes h fin [] s = s"
| "record_outcomes h fin (d # ds) s =
    record_outcomes h fin ds
      (s\<lparr>digest_outcomes := (digest_outcomes s)(d \<mapsto> if d \<in> fin then OutFinalized h else OutDropped),
         known_digests := known_digests s - {d}\<rparr>)"

fun record_drops :: "digest list \<Rightarrow> actor \<Rightarrow> actor" where
  "record_drops [] s = s"
| "record_drops (d # ds) s =
    record_drops ds
      (s\<lparr>digest_outcomes := (digest_outcomes s)(d \<mapsto> OutDropped),
         known_digests := known_digests s - {d}\<rparr>)"

fun report_loop ::
    "(digest \<Rightarrow> string) \<Rightarrow> (batch_id list \<Rightarrow> batch_id list) \<Rightarrow> pool_config \<Rightarrow> u64 \<Rightarrow> digest set
      \<Rightarrow> proposed_batch list \<Rightarrow> proposed_batch list \<Rightarrow> actor \<Rightarrow> actor \<times> effect list" where
  "report_loop sh it cfg h fin remaining [] s = (s\<lparr>proposed := remaining\<rparr>, [])"
| "report_loop sh it cfg h fin remaining (batch # bs) s =
    (let affected = it (watched_batches_for (pb_digests batch) (digest_watchers s)) in
     if \<exists>d \<in> set (pb_digests batch). d \<in> fin
     then (case resolve_all sh affected (record_outcomes h fin (pb_digests batch) s) of
             (s, e) \<Rightarrow> (case report_loop sh it cfg h fin remaining bs s of (s, e') \<Rightarrow> (s, e @ e')))
     else if pb_height batch + drop_grace_blocks cfg \<le> h
     then (case resolve_all sh affected (record_drops (pb_digests batch) s) of
             (s, e) \<Rightarrow> (case report_loop sh it cfg h fin remaining bs s of (s, e') \<Rightarrow> (s, e @ e')))
     else report_loop sh it cfg h fin (remaining @ [batch]) bs s)"

definition finalized_digests :: "'x tx_env_scheme \<Rightarrow> lazy_transaction list \<Rightarrow> digest set" where
  "finalized_digests c body =
    set (map message_digest (List.map_filter (lazy_get c) body))"

definition handle_report_block ::
    "'x tx_env_scheme \<Rightarrow> (digest \<Rightarrow> string) \<Rightarrow> (batch_id list \<Rightarrow> batch_id list) \<Rightarrow> pool_config
      \<Rightarrow> sealed_block \<Rightarrow> sender \<Rightarrow> actor \<Rightarrow> actor \<times> effect list" where
  "handle_report_block c sh it cfg block ack s =
    (let h = b_header (sealed_inner block);
         s = s\<lparr>highest_consensus_round := max (highest_consensus_round s)
                 (rotation_round (ctx_epoch (h_context h)) (ctx_view (h_context h)))\<rparr> in
     case report_loop sh it cfg (h_height h) (finalized_digests c (b_body (sealed_inner block)))
         [] (proposed s) s of
       (s, e) \<Rightarrow> (s, e @ [Acknowledge ack]))"

section \<open>The loop\<close>

fun handle ::
    "'x tx_env_scheme \<Rightarrow> (digest \<Rightarrow> string) \<Rightarrow> (batch_id list \<Rightarrow> batch_id list) \<Rightarrow> pool_config
      \<Rightarrow> message \<Rightarrow> actor \<Rightarrow> actor \<times> effect list" where
  "handle c sh it cfg (Submit b ds ts nbytes result ingest_result) s =
    handle_submit sh cfg b ds ts nbytes result ingest_result s"
| "handle c sh it cfg (QueryStatus b w) s = (s, [SendStatus w (hm_get (statuses s) b)])"
| "handle c sh it cfg (QueryConsensusRound w) s = (s, [SendRound w (highest_consensus_round s)])"
| "handle c sh it cfg (Propose h w) s = handle_propose cfg h w s"
| "handle c sh it cfg (ReportBlock block ack) s = handle_report_block c sh it cfg block ack s"
| "handle c sh it cfg (ReportTip epoch view) s =
    (s\<lparr>highest_consensus_round := max (highest_consensus_round s) (rotation_round epoch view)\<rparr>, [])"

section \<open>Forgetting a batch\<close>

lemma forget_loop_eq:
  "forget_loop b seen ds (w, os) =
    (\<lambda>d. if d \<in> set ds - seen
         then (case w d of None \<Rightarrow> None
               | Some bs \<Rightarrow> if filter (\<lambda>k. k \<noteq> b) bs = [] then None else Some (filter (\<lambda>k. k \<noteq> b) bs))
         else w d,
     \<lambda>d. if d \<in> set ds - seen \<and> (\<exists>bs. w d = Some bs \<and> filter (\<lambda>k. k \<noteq> b) bs = [])
         then None else os d)"
proof (induction ds arbitrary: seen w os)
  case Nil
  show ?case by simp
next
  case (Cons d ds)
  show ?case
  proof (cases "d \<in> seen")
    case True
    with Cons.IH [of seen w os] show ?thesis by (auto simp: fun_eq_iff)
  next
    case False
    show ?thesis
    proof (cases "w d")
      case None
      with False Cons.IH [of "insert d seen" w os] show ?thesis
        by (auto simp: fun_eq_iff split: option.splits)
    next
      case (Some bs)
      show ?thesis
      proof (cases "filter (\<lambda>k. k \<noteq> b) bs = []")
        case True
        with False Some have step: "forget_loop b seen (d # ds) (w, os) =
            forget_loop b (insert d seen) ds (w(d := None), os(d := None))" by simp
        show ?thesis
          unfolding step Cons.IH using False Some True by (auto simp: fun_eq_iff simp del: filter_empty_conv)
      next
        case nonempty: False
        with False Some have step: "forget_loop b seen (d # ds) (w, os) =
            forget_loop b (insert d seen) ds (w(d \<mapsto> filter (\<lambda>k. k \<noteq> b) bs), os)"
          by (simp del: filter_empty_conv)
        show ?thesis
          unfolding step Cons.IH using False Some nonempty by (auto simp: fun_eq_iff simp del: filter_empty_conv)
      qed
    qed
  qed
qed

text \<open>A batch waits for a digest, and a digest is watched for a batch.\<close>

definition awaits :: "actor \<Rightarrow> batch_id \<Rightarrow> digest \<Rightarrow> bool" where
  "awaits s b d \<longleftrightarrow> (\<exists>ds. batch_digests s b = Some ds \<and> d \<in> set ds)"

definition watching :: "actor \<Rightarrow> digest \<Rightarrow> batch_id \<Rightarrow> bool" where
  "watching s d b \<longleftrightarrow> (\<exists>bs. digest_watchers s d = Some bs \<and> b \<in> set bs)"

definition watch_inv :: "actor \<Rightarrow> bool" where
  "watch_inv s \<longleftrightarrow>
    (\<forall>d b. watching s d b \<longleftrightarrow> awaits s b d) \<and>
    dom (pending_waiters s) \<subseteq> dom (batch_digests s) \<and>
    (\<forall>b d. awaits s b d \<longrightarrow> d \<in> known_digests s \<or> digest_outcomes s d \<noteq> None)"

text \<open>The fields that resolving and forgetting leave alone.\<close>

definition same_pool :: "actor \<Rightarrow> actor \<Rightarrow> bool" where
  "same_pool s s' \<longleftrightarrow> pool s' = pool s \<and> pool_bytes s' = pool_bytes s \<and> proposed s' = proposed s \<and>
    known_digests s' = known_digests s \<and> highest_consensus_round s' = highest_consensus_round s"

lemma same_pool_refl [simp]: "same_pool s s"
  by (simp add: same_pool_def)

lemma same_pool_trans: "same_pool s s' \<Longrightarrow> same_pool s' s'' \<Longrightarrow> same_pool s s''"
  by (simp add: same_pool_def)

lemma forget_batch_frame:
  "same_pool s (fst (forget_batch b s))"
  "statuses (fst (forget_batch b s)) = statuses s"
  "status_order (fst (forget_batch b s)) = status_order s"
  "pending_waiters (fst (forget_batch b s)) = (pending_waiters s)(b := None)"
  "batch_digests (fst (forget_batch b s)) = (batch_digests s)(b := None)"
  by (auto simp: forget_batch_def same_pool_def Let_def fun_eq_iff split: option.splits prod.splits)

lemma forget_batch_watching:
  assumes "watch_inv s"
  shows "watching (fst (forget_batch b s)) d k \<longleftrightarrow> watching s d k \<and> k \<noteq> b"
proof (cases "batch_digests s b")
  case None
  then have "\<not> watching s d b" using assms by (simp add: watch_inv_def awaits_def)
  with None show ?thesis by (auto simp: forget_batch_def watching_def)
next
  case (Some ds)
  have "d \<in> set ds" if "watching s d b" using that assms Some by (auto simp: watch_inv_def awaits_def)
  with Some show ?thesis
    by (auto simp: forget_batch_def watching_def forget_loop_eq Let_def filter_empty_conv
        split: option.splits if_splits)
qed

lemma forget_batch_outcomes:
  assumes "watching s d k" "k \<noteq> b"
  shows "digest_outcomes (fst (forget_batch b s)) d = digest_outcomes s d"
  using assms
  by (auto simp: forget_batch_def watching_def forget_loop_eq Let_def filter_empty_conv
      split: option.splits)

lemma forget_batch_watch_inv:
  assumes "watch_inv s"
  shows "watch_inv (fst (forget_batch b s))"
proof -
  let ?s = "fst (forget_batch b s)"
  have aw: "awaits ?s k d \<longleftrightarrow> awaits s k d \<and> k \<noteq> b" for k d
    by (auto simp: awaits_def forget_batch_frame)
  have "d \<in> known_digests ?s \<or> digest_outcomes ?s d \<noteq> None" if "awaits ?s k d" for k d
  proof -
    from that have k: "awaits s k d" "k \<noteq> b" by (simp_all add: aw)
    then have "watching s d k" using assms by (simp add: watch_inv_def)
    from forget_batch_outcomes [OF this k(2)] show ?thesis
      using k(1) assms forget_batch_frame(1) [of s b] by (auto simp: watch_inv_def same_pool_def)
  qed
  moreover have "watching ?s d k \<longleftrightarrow> awaits ?s k d" for d k
    using assms by (simp add: forget_batch_watching aw watch_inv_def)
  moreover have "dom (pending_waiters ?s) \<subseteq> dom (batch_digests ?s)"
    using assms unfolding forget_batch_frame watch_inv_def by auto
  ultimately show ?thesis unfolding watch_inv_def by blast
qed

lemma forget_expired_frame:
  "same_pool s (fst (forget_expired_batches bs s))"
  "statuses (fst (forget_expired_batches bs s)) = statuses s"
  "status_order (fst (forget_expired_batches bs s)) = status_order s"
  "batch_digests (fst (forget_expired_batches bs s)) = (\<lambda>b. if b \<in> set bs then None else batch_digests s b)"
  "watch_inv s \<Longrightarrow> watch_inv (fst (forget_expired_batches bs s))"
proof (induction bs arbitrary: s)
  case Nil
  { case 1 show ?case by simp }
  { case 2 show ?case by simp }
  { case 3 show ?case by simp }
  { case 4 show ?case by simp }
  { case 5 then show ?case by simp }
next
  case (Cons b bs)
  note F = forget_batch_frame [where b = b]
  have fst_eq: "fst (forget_expired_batches (b # bs) s) =
      fst (forget_expired_batches bs (fst (forget_batch b s)))" for s
    by (simp split: prod.splits)
  { case 1 show ?case unfolding fst_eq using same_pool_trans [OF F(1) Cons.IH(1)] . }
  { case 2 show ?case unfolding fst_eq Cons.IH F .. }
  { case 3 show ?case unfolding fst_eq Cons.IH F .. }
  { case 4 show ?case unfolding fst_eq Cons.IH F by (auto simp: fun_eq_iff) }
  { case 5 then show ?case unfolding fst_eq by (intro Cons.IH(5) forget_batch_watch_inv) }
qed

section \<open>Remembering a status\<close>

lemma hm_length: "hm_wf m \<Longrightarrow> length m = card (dom (hm_get m))"
  using distinct_card [of "map fst m"] by (simp add: hm_wf_def hm_keys_def dom_map_of_conv_image_fst)

lemma hm_length_remove:
  assumes "hm_wf m" "k \<in> dom (hm_get m)"
  shows "length (hm_remove k m) = length m - 1"
proof -
  have "dom (hm_get (hm_remove k m)) = dom (hm_get m) - {k}" by (auto simp: hm_get_remove split: if_splits)
  with assms show ?thesis by (simp add: hm_length finite_dom_map_of)
qed

definition status_inv :: "actor \<Rightarrow> bool" where
  "status_inv s \<longleftrightarrow> hm_wf (statuses s) \<and> distinct (status_order s) \<and>
    set (status_order s) = dom (hm_get (statuses s)) \<and> length (statuses s) \<le> max_status_entries"

text \<open>A batch is awaited exactly while its status is \<open>Accepted\<close>.\<close>

definition link_inv :: "(digest \<Rightarrow> string) \<Rightarrow> actor \<Rightarrow> bool" where
  "link_inv sh s \<longleftrightarrow>
    (\<forall>b ds. batch_digests s b = Some ds \<longrightarrow> hm_get (statuses s) b = Some (accepted_status sh ds)) \<and>
    (\<forall>b ss. hm_get (statuses s) b = Some (BatchAccepted ss) \<longrightarrow> batch_digests s b \<noteq> None)"

lemma expire_loop_props:
  assumes "hm_wf sts" "distinct q" "set q = dom (hm_get sts)" "expire_loop sts q = (ex, sts', q')"
  shows "q = ex @ q' \<and> hm_wf sts' \<and> hm_get sts' = (\<lambda>b. if b \<in> set ex then None else hm_get sts b) \<and>
    length sts' = min (length sts) max_status_entries"
  using assms
proof (induction q arbitrary: sts ex sts' q')
  case Nil
  then have "sts = []" by (cases sts) auto
  with Nil show ?case by auto
next
  case (Cons b q)
  show ?case
  proof (cases "max_status_entries < length sts")
    case False
    with Cons.prems show ?thesis by (auto simp: not_less min_def)
  next
    case True
    with Cons.prems(4) obtain ex' where
      e: "expire_loop (hm_remove b sts) q = (ex', sts', q')" "ex = b # ex'"
      by (auto split: prod.splits)
    have "set q = dom (hm_get (hm_remove b sts))"
      using Cons.prems(2,3) by (auto simp: hm_get_remove split: if_splits)
    from Cons.IH [OF _ _ this e(1)] Cons.prems(1,2)
    have ih: "q = ex' @ q'" "hm_wf sts'"
      "hm_get sts' = (\<lambda>k. if k \<in> set ex' then None else hm_get (hm_remove b sts) k)"
      "length sts' = min (length (hm_remove b sts)) max_status_entries" by simp_all
    have "b \<in> dom (hm_get sts)" using Cons.prems(3) by (metis list.set_intros(1))
    with Cons.prems(1) True have "min (length (hm_remove b sts)) max_status_entries = max_status_entries"
      by (simp add: hm_length_remove)
    with ih True e(2) show ?thesis by (auto simp: hm_get_remove fun_eq_iff)
  qed
qed

lemma remember_known:
  assumes "status_inv s" "hm_get (statuses s) b \<noteq> None"
  shows "remember_status b st s = ([], s\<lparr>statuses := hm_insert b st (statuses s)\<rparr>)"
    and "status_inv (s\<lparr>statuses := hm_insert b st (statuses s)\<rparr>)"
proof -
  let ?sts = "hm_insert b st (statuses s)"
  have d: "dom (hm_get ?sts) = dom (hm_get (statuses s))" using assms(2) by (auto simp: update_conv')
  have l: "length ?sts \<le> max_status_entries"
    using assms hm_length [of ?sts] hm_length [of "statuses s"] by (simp only: status_inv_def d hm_wf_insert)
  then have "expire_loop ?sts (status_order s) = ([], ?sts, status_order s)"
    by (cases "status_order s") auto
  then show "remember_status b st s = ([], s\<lparr>statuses := ?sts\<rparr>)"
    using assms(2) by (auto simp: remember_status_def)
  show "status_inv (s\<lparr>statuses := ?sts\<rparr>)"
    using assms(1) d l by (simp add: status_inv_def)
qed

lemma remember_new:
  assumes "status_inv s" "hm_get (statuses s) b = None" "remember_status b st s = (ex, s')"
  shows "status_inv s'" "b \<notin> set ex"
    and "hm_get (statuses s') = (\<lambda>k. if k \<in> set ex then None else ((hm_get (statuses s))(b \<mapsto> st)) k)"
    and "s' = s\<lparr>statuses := statuses s', status_order := status_order s'\<rparr>"
proof -
  let ?sts = "hm_insert b st (statuses s)" and ?q = "status_order s @ [b]"
  from assms(2,3) obtain sts' q' where
    e: "expire_loop ?sts ?q = (ex, sts', q')" "s' = s\<lparr>statuses := sts', status_order := q'\<rparr>"
    by (auto simp: remember_status_def split: prod.splits)
  have q: "distinct ?q" "set ?q = dom (hm_get ?sts)"
    using assms(1,2) by (auto simp: status_inv_def update_conv')
  have wf: "hm_wf ?sts" using assms(1) by (simp add: status_inv_def)
  note x = expire_loop_props [OF wf q e(1)]
  have "dom (hm_get sts') = set ?q - set ex"
    unfolding q(2) using x by (auto split: if_splits)
  also have "\<dots> = set q'" using x q(1) by auto
  finally have dom: "dom (hm_get sts') = set q'" .
  have "0 < length sts'"
    using x by (simp add: max_status_entries_def update_nonempty)
  moreover have "length sts' = card (set q')" using hm_length [of sts'] x dom by simp
  ultimately have "q' \<noteq> []" by auto
  then have "b \<in> set q'" using x by (metis last_appendR last_in_set last_snoc)
  then show b: "b \<notin> set ex" using x q(1) by (metis disjoint_iff distinct_append)
  show "status_inv s'"
    using x q(1) e(2) dom by (simp add: status_inv_def)
  show "hm_get (statuses s') = (\<lambda>k. if k \<in> set ex then None else ((hm_get (statuses s))(b \<mapsto> st)) k)"
    using x e(2) by (auto simp: update_conv' fun_eq_iff)
  show "s' = s\<lparr>statuses := statuses s', status_order := status_order s'\<rparr>" using e(2) by simp
qed

section \<open>Resolving a batch\<close>

definition book_inv :: "(digest \<Rightarrow> string) \<Rightarrow> actor \<Rightarrow> bool" where
  "book_inv sh s \<longleftrightarrow> status_inv s \<and> link_inv sh s \<and> watch_inv s"

lemma outcomes_loop_eq:
  "outcomes_loop sh os inc filt h ds =
    (if \<forall>d \<in> set ds. os d \<noteq> None
     then Some (inc @ map sh (filter (\<lambda>d. os d \<noteq> Some OutDropped) ds),
       filt @ map sh (filter (\<lambda>d. os d = Some OutDropped) ds),
       fold (\<lambda>d h. case os d of Some (OutFinalized h') \<Rightarrow> max h h' | _ \<Rightarrow> h) ds h)
     else None)"
  by (induction ds arbitrary: inc filt h) (auto split: option.splits digest_outcome.splits)

lemma batch_status_None:
  "batch_status_from_outcomes sh ds os = None \<longleftrightarrow> (\<exists>d \<in> set ds. os d = None)"
  by (auto simp: batch_status_from_outcomes_def outcomes_loop_eq)

lemma batch_status_terminal:
  "batch_status_from_outcomes sh ds os = Some st \<Longrightarrow> tx_status_from_batch st \<noteq> None"
  by (auto simp: batch_status_from_outcomes_def split: option.splits if_splits)

lemma watch_inv_cong:
  assumes "batch_digests s' = batch_digests s" "digest_watchers s' = digest_watchers s"
    "digest_outcomes s' = digest_outcomes s" "known_digests s' = known_digests s"
    "dom (pending_waiters s') \<subseteq> dom (pending_waiters s)" "watch_inv s"
  shows "watch_inv s'"
  using assms(5,6) unfolding watch_inv_def awaits_def watching_def assms(1-4) by blast

lemma resolve_terminal:
  assumes "book_inv sh s" "batch_digests s b = Some ds"
    and "batch_status_from_outcomes sh ds (digest_outcomes s) = Some st"
  obtains t s1 where "tx_status_from_batch st = Some t"
    "s1 = s\<lparr>statuses := hm_insert b st (statuses s), pending_waiters := (pending_waiters s)(b := None)\<rparr>"
    "resolve_batch_if_terminal sh b s = (fst (forget_batch b s1), map (\<lambda>w. SendTx w t) (waiters_for b s))"
proof -
  let ?s = "s\<lparr>statuses := hm_insert b st (statuses s)\<rparr>"
  let ?s1 = "s\<lparr>statuses := hm_insert b st (statuses s), pending_waiters := (pending_waiters s)(b := None)\<rparr>"
  from batch_status_terminal [OF assms(3)] obtain t where t: "tx_status_from_batch st = Some t" by blast
  have "hm_get (statuses s) b = Some (accepted_status sh ds)"
    using assms(1,2) by (auto simp: book_inv_def link_inv_def)
  then have r: "remember_status b st s = ([], ?s)"
    using assms(1) remember_known(1) [of s b st] by (simp add: book_inv_def)
  have snd: "snd (forget_batch b ?s1) = []"
    by (auto simp: forget_batch_def waiters_for_def Let_def split: option.splits prod.splits)
  have "send_pending_waiters b st ?s = (?s1, map (\<lambda>w. SendTx w t) (waiters_for b s))"
  proof (cases "pending_waiters s b")
    case None
    then have "(pending_waiters s)(b := None) = pending_waiters s" by (rule fun_upd_idem)
    then have "?s1 = ?s" by simp
    with None show ?thesis
      by (simp only: send_pending_waiters_def waiters_for_def t) simp
  next
    case (Some ws)
    then show ?thesis by (simp add: send_pending_waiters_def waiters_for_def t)
  qed
  then have "resolve_batch_if_terminal sh b s =
      (fst (forget_batch b ?s1), map (\<lambda>w. SendTx w t) (waiters_for b s))"
    using assms(2,3) snd
    by (simp add: resolve_batch_if_terminal_def r update_conv' split_beta)
  with t that show thesis by blast
qed

lemma resolve_props:
  assumes "book_inv sh s"
    and s'_def: "s' = fst (resolve_batch_if_terminal sh b s)"
  shows "book_inv sh s'" "same_pool s s'"
    and "batch_digests s' k = batch_digests s k \<or> batch_digests s' k = None"
    and "batch_digests s' b = Some ds \<Longrightarrow> \<exists>d \<in> set ds. d \<in> known_digests s'"
proof -
  have "book_inv sh s' \<and> same_pool s s' \<and>
      (batch_digests s' k = batch_digests s k \<or> batch_digests s' k = None) \<and>
      (batch_digests s' b = Some ds \<longrightarrow> (\<exists>d \<in> set ds. d \<in> known_digests s'))"
  proof (cases "\<exists>ds st. batch_digests s b = Some ds \<and>
      batch_status_from_outcomes sh ds (digest_outcomes s) = Some st")
    case True
    then obtain ds' st where st: "batch_digests s b = Some ds'"
      "batch_status_from_outcomes sh ds' (digest_outcomes s) = Some st" by blast
    from resolve_terminal [OF assms(1) st] obtain t s1 where t: "tx_status_from_batch st = Some t"
      and s1: "s1 = s\<lparr>statuses := hm_insert b st (statuses s), pending_waiters := (pending_waiters s)(b := None)\<rparr>"
      and r: "resolve_batch_if_terminal sh b s =
        (fst (forget_batch b s1), map (\<lambda>w. SendTx w t) (waiters_for b s))" by metis
    have s': "s' = fst (forget_batch b s1)" by (simp add: s'_def r)
    have "hm_get (statuses s) b \<noteq> None"
      using assms(1) st(1) by (auto simp: book_inv_def link_inv_def)
    then have "status_inv s'"
      using remember_known(2) [of s b st] assms(1)
      by (simp add: s' status_inv_def forget_batch_frame book_inv_def s1)
    moreover have "link_inv sh s'"
      using assms(1) t by (auto simp: link_inv_def book_inv_def s' s1 forget_batch_frame update_conv')
    moreover have "watch_inv s'"
      unfolding s' by (rule forget_batch_watch_inv, rule watch_inv_cong [of _ s])
        (use assms(1) in \<open>auto simp: s1 book_inv_def\<close>)
    moreover have "same_pool s s'"
      unfolding s' by (rule same_pool_trans [OF _ forget_batch_frame(1)]) (simp add: same_pool_def s1)
    ultimately show ?thesis unfolding book_inv_def by (simp add: s' forget_batch_frame s1)
  next
    case False
    then have "s' = s"
      by (auto simp: s'_def resolve_batch_if_terminal_def split: option.splits)
    moreover have "\<exists>d \<in> set ds. d \<in> known_digests s" if b: "batch_digests s b = Some ds"
    proof -
      have "batch_status_from_outcomes sh ds (digest_outcomes s) = None" using False b by auto
      then obtain d where d: "d \<in> set ds" "digest_outcomes s d = None" by (auto simp: batch_status_None)
      moreover have "awaits s b d" using b d(1) by (auto simp: awaits_def)
      then have "d \<in> known_digests s"
        using d(2) assms(1) unfolding book_inv_def watch_inv_def by blast
      ultimately show ?thesis by blast
    qed
    ultimately show ?thesis using assms(1) by simp
  qed
  note P = this
  show "book_inv sh s'" "same_pool s s'"
    "batch_digests s' k = batch_digests s k \<or> batch_digests s' k = None"
    using P by simp_all
  show "batch_digests s' b = Some ds \<Longrightarrow> \<exists>d \<in> set ds. d \<in> known_digests s'"
    using P by simp
qed

section \<open>Invariants\<close>

text \<open>The digests in flight: in the pool, and in the batches proposed and not yet settled.\<close>

definition flight :: "pool_entry list \<Rightarrow> proposed_batch list \<Rightarrow> digest list" where
  "flight p q = concat (map (\<lambda>e. map message_digest (pe_transactions e)) p) @ concat (map pb_digests q)"

lemma flight_remove:
  assumes "distinct (flight p (r @ b # q))"
  shows "distinct (flight p (r @ q))"
    and "set (flight p (r @ q)) = set (flight p (r @ b # q)) - set (pb_digests b)"
  using assms by (auto simp: flight_def simp del: set_concat)

lemma flight_add:
  "distinct (flight (p @ [e]) q) \<longleftrightarrow> distinct (flight p q) \<and>
    distinct (map message_digest (pe_transactions e)) \<and>
    message_digest ` set (pe_transactions e) \<inter> set (flight p q) = {}"
  "set (flight (p @ [e]) q) = set (flight p q) \<union> message_digest ` set (pe_transactions e)"
  by (auto simp: flight_def simp del: set_concat)

definition flight_inv :: "actor \<Rightarrow> bool" where
  "flight_inv s \<longleftrightarrow> distinct (flight (pool s) (proposed s)) \<and>
    known_digests s = set (flight (pool s) (proposed s))"

definition pool_inv :: "pool_config \<Rightarrow> actor \<Rightarrow> bool" where
  "pool_inv cfg s \<longleftrightarrow> pool_bytes s = sum_list (map pe_total_bytes (pool s)) \<and>
    pool_bytes s \<le> max_pool_bytes cfg \<and> (\<forall>e \<in> set (pool s). pe_transactions e \<noteq> [])"

text \<open>No batch is stuck: each one still awaited has a digest in flight.\<close>

definition live_inv :: "actor \<Rightarrow> bool" where
  "live_inv s \<longleftrightarrow> (\<forall>b ds. batch_digests s b = Some ds \<longrightarrow> (\<exists>d \<in> set ds. d \<in> known_digests s))"

definition actor_inv :: "(digest \<Rightarrow> string) \<Rightarrow> pool_config \<Rightarrow> actor \<Rightarrow> bool" where
  "actor_inv sh cfg s \<longleftrightarrow> book_inv sh s \<and> live_inv s \<and> flight_inv s \<and> pool_inv cfg s"

section \<open>Reports keep them\<close>

lemma resolve_all_props:
  assumes "book_inv sh s" "s' = fst (resolve_all sh bs s)"
  shows "book_inv sh s' \<and> same_pool s s' \<and>
    (\<forall>k. batch_digests s' k = batch_digests s k \<or> batch_digests s' k = None) \<and>
    (\<forall>b ds. b \<in> set bs \<longrightarrow> batch_digests s' b = Some ds \<longrightarrow> (\<exists>d \<in> set ds. d \<in> known_digests s'))"
  using assms
proof (induction bs arbitrary: s)
  case Nil
  then show ?case by simp
next
  case (Cons b bs)
  let ?s = "fst (resolve_batch_if_terminal sh b s)"
  have s': "s' = fst (resolve_all sh bs ?s)" using Cons.prems(2) by (simp split: prod.splits)
  note R = resolve_props [OF Cons.prems(1) refl, of b]
  note I = Cons.IH [OF R(1) s']
  have "\<exists>d \<in> set ds. d \<in> known_digests s'" if "k \<in> set (b # bs)" "batch_digests s' k = Some ds" for k ds
  proof (cases "k \<in> set bs")
    case True
    with I that show ?thesis by blast
  next
    case False
    then have "k = b" using that(1) by simp
    moreover have "batch_digests ?s k = Some ds" using I that(2) by (metis option.distinct(1))
    ultimately have "\<exists>d \<in> set ds. d \<in> known_digests ?s" using R(4) by simp
    moreover have "known_digests s' = known_digests ?s" using I by (simp add: same_pool_def)
    ultimately show ?thesis by simp
  qed
  moreover have "batch_digests s' k = batch_digests s k \<or> batch_digests s' k = None" for k
    using I R(3) [of k] by metis
  moreover have "same_pool s s'" using I same_pool_trans [OF R(2)] by blast
  ultimately show ?case using I by blast
qed

lemma record_outcomes_eq:
  "record_outcomes h fin ds s = s\<lparr>
     digest_outcomes := (\<lambda>d. if d \<in> set ds then Some (if d \<in> fin then OutFinalized h else OutDropped)
       else digest_outcomes s d),
     known_digests := known_digests s - set ds\<rparr>"
  by (induction ds arbitrary: s) (auto intro!: actor.equality simp: fun_eq_iff)

lemma record_drops_eq: "record_drops ds s = record_outcomes h {} ds s"
  by (induction ds arbitrary: s) auto

lemma set_watched_batches_for:
  "set (watched_batches_for ds (digest_watchers s)) = {b. \<exists>d \<in> set ds. watching s d b}"
  by (induction ds) (auto simp: watching_def split: option.splits)

lemma settle_props:
  assumes "book_inv sh s" "live_inv s" "\<forall>d \<in> set ds. \<forall>b. watching s d b \<longrightarrow> b \<in> set bs"
    and s': "s' = fst (resolve_all sh bs (record_outcomes h fin ds s))"
  shows "book_inv sh s'" "live_inv s'" "pool s' = pool s" "pool_bytes s' = pool_bytes s"
    "known_digests s' = known_digests s - set ds"
    "highest_consensus_round s' = highest_consensus_round s"
proof -
  let ?s = "record_outcomes h fin ds s"
  have b: "book_inv sh ?s"
    using assms(1) unfolding record_outcomes_eq book_inv_def status_inv_def link_inv_def watch_inv_def
      awaits_def watching_def by auto
  note R = resolve_all_props [OF b s']
  then show "book_inv sh s'" by blast
  show f: "pool s' = pool s" "pool_bytes s' = pool_bytes s" "known_digests s' = known_digests s - set ds"
    "highest_consensus_round s' = highest_consensus_round s"
    using R by (simp_all add: same_pool_def record_outcomes_eq)
  show "live_inv s'"
    unfolding live_inv_def
  proof (intro allI impI)
    fix k ks
    assume k: "batch_digests s' k = Some ks"
    have "batch_digests ?s = batch_digests s" by (simp add: record_outcomes_eq)
    with R k have k0: "batch_digests s k = Some ks" by (metis option.distinct(1))
    show "\<exists>d \<in> set ks. d \<in> known_digests s'"
    proof (cases "k \<in> set bs")
      case True
      with R k show ?thesis by blast
    next
      case False
      obtain d where d: "d \<in> set ks" "d \<in> known_digests s" using assms(2) k0 by (auto simp: live_inv_def)
      then have "watching s d k" using k0 assms(1) by (auto simp: book_inv_def watch_inv_def awaits_def)
      with assms(3) False have "d \<notin> set ds" by blast
      with d f show ?thesis by auto
    qed
  qed
qed

text \<open>Iterating a \<open>HashSet\<close> visits each element once.\<close>

definition hash_order :: "('a list \<Rightarrow> 'a list) \<Rightarrow> bool" where
  "hash_order it \<longleftrightarrow> (\<forall>xs. mset (it xs) = mset xs)"

lemma hash_order_set: "hash_order it \<Longrightarrow> set (it xs) = set xs"
  by (metis hash_order_def set_mset_mset)

text \<open>The batches that a report of height \<open>h\<close> leaves unsettled.\<close>

definition unsettled :: "pool_config \<Rightarrow> u64 \<Rightarrow> digest set \<Rightarrow> proposed_batch \<Rightarrow> bool" where
  "unsettled cfg h fin batch \<longleftrightarrow>
    (\<forall>d \<in> set (pb_digests batch). d \<notin> fin) \<and> h < pb_height batch + drop_grace_blocks cfg"

lemma report_loop_props:
  assumes "hash_order it" "book_inv sh s" "live_inv s"
    and "distinct (flight (pool s) (remaining @ bs))" "known_digests s = set (flight (pool s) (remaining @ bs))"
    and "s' = fst (report_loop sh it cfg h fin remaining bs s)"
  shows "book_inv sh s' \<and> live_inv s' \<and> flight_inv s' \<and> pool s' = pool s \<and> pool_bytes s' = pool_bytes s \<and>
    highest_consensus_round s' = highest_consensus_round s \<and>
    proposed s' = remaining @ filter (unsettled cfg h fin) bs"
  using assms(2-)
proof (induction bs arbitrary: remaining s)
  case Nil
  then show ?case
    by (auto simp: book_inv_def status_inv_def link_inv_def watch_inv_def awaits_def watching_def
        live_inv_def flight_inv_def)
next
  case (Cons batch bs)
  let ?aff = "it (watched_batches_for (pb_digests batch) (digest_watchers s))"
  show ?case
  proof (cases "unsettled cfg h fin batch")
    case True
    then have "s' = fst (report_loop sh it cfg h fin (remaining @ [batch]) bs s)"
      using Cons.prems(5) by (auto simp: unsettled_def not_le)
    from Cons.IH [OF Cons.prems(1,2) _ _ this] Cons.prems True show ?thesis by simp
  next
    case False
    define fin' where "fin' = (if \<exists>d \<in> set (pb_digests batch). d \<in> fin then fin else {})"
    define s1 where "s1 = fst (resolve_all sh ?aff (record_outcomes h fin' (pb_digests batch) s))"
    have s': "s' = fst (report_loop sh it cfg h fin remaining bs s1)"
      using Cons.prems(5) False
      by (auto simp: unsettled_def not_le Let_def fin'_def s1_def record_drops_eq [of _ _ h] split: prod.splits)
    have aff: "\<forall>d \<in> set (pb_digests batch). \<forall>b. watching s d b \<longrightarrow> b \<in> set ?aff"
      by (auto simp: hash_order_set [OF assms(1)] set_watched_batches_for)
    note S = settle_props [OF Cons.prems(1,2) aff s1_def]
    have "distinct (flight (pool s1) (remaining @ bs))"
      "known_digests s1 = set (flight (pool s1) (remaining @ bs))"
      using flight_remove [OF Cons.prems(3)] Cons.prems(4) unfolding S(3,5) by simp_all
    from Cons.IH [OF S(1,2) this s'] False S show ?thesis by simp
  qed
qed

section \<open>Proposals keep them\<close>

lemma propose_entries_props:
  assumes "propose_entries cfg h txs n p bytes q = (txs', p', bytes', q')"
    and "\<forall>e \<in> set p. pe_transactions e \<noteq> []"
  shows "\<exists>taken. p = taken @ p' \<and> txs' = txs @ concat (map pe_transactions taken) \<and>
    bytes' = bytes - sum_list (map pe_total_bytes taken) \<and>
    q' = q @ map (\<lambda>e. \<lparr>pb_height = h, pb_digests = map message_digest (pe_transactions e)\<rparr>) taken \<and>
    (txs = [] \<longrightarrow> p \<noteq> [] \<longrightarrow> taken \<noteq> []) \<and>
    (n + sum_list (map pe_total_bytes taken) \<le> max_propose_bytes cfg \<or> taken = [] \<or> txs = [] \<and> length taken = 1) \<and>
    (p' \<noteq> [] \<longrightarrow> max_propose_bytes cfg < n + sum_list (map pe_total_bytes taken) + pe_total_bytes (hd p'))"
  using assms
proof (induction p arbitrary: txs n bytes q)
  case Nil
  then show ?case by simp
next
  case (Cons e p)
  show ?case
  proof (cases "max_propose_bytes cfg < n + pe_total_bytes e \<and> txs \<noteq> []")
    case True
    with Cons.prems(1) show ?thesis by (intro exI [of _ "[]"]) auto
  next
    case False
    with Cons.prems(1) have
      "propose_entries cfg h (txs @ pe_transactions e) (n + pe_total_bytes e) p (bytes - pe_total_bytes e)
        (q @ [\<lparr>pb_height = h, pb_digests = map message_digest (pe_transactions e)\<rparr>]) = (txs', p', bytes', q')"
      by (auto split: if_splits)
    from Cons.IH [OF this] Cons.prems(2) obtain taken where
      t: "p = taken @ p'" "txs' = (txs @ pe_transactions e) @ concat (map pe_transactions taken)"
        "bytes' = bytes - pe_total_bytes e - sum_list (map pe_total_bytes taken)"
        "q' = (q @ [\<lparr>pb_height = h, pb_digests = map message_digest (pe_transactions e)\<rparr>]) @
          map (\<lambda>e. \<lparr>pb_height = h, pb_digests = map message_digest (pe_transactions e)\<rparr>) taken"
        "n + pe_total_bytes e + sum_list (map pe_total_bytes taken) \<le> max_propose_bytes cfg \<or> taken = []"
        "p' \<noteq> [] \<longrightarrow> max_propose_bytes cfg <
          n + pe_total_bytes e + sum_list (map pe_total_bytes taken) + pe_total_bytes (hd p')"
      by auto
    with False show ?thesis by (intro exI [of _ "e # taken"]) auto
  qed
qed

lemma book_inv_cong:
  assumes "statuses s' = statuses s" "status_order s' = status_order s"
    "batch_digests s' = batch_digests s" "digest_watchers s' = digest_watchers s"
    "digest_outcomes s' = digest_outcomes s" "known_digests s' = known_digests s"
    "pending_waiters s' = pending_waiters s"
  shows "book_inv sh s' = book_inv sh s"
  unfolding book_inv_def status_inv_def link_inv_def watch_inv_def awaits_def watching_def assms ..

lemma handle_propose_props:
  assumes "actor_inv sh cfg s" "handle_propose cfg h w s = (s', e)"
  shows "actor_inv sh cfg s'"
    and "\<exists>taken. pool s = taken @ pool s' \<and>
      e = [SendBatch w (concat (map pe_transactions taken))] \<and>
      proposed s' = proposed s @
        map (\<lambda>e. \<lparr>pb_height = h, pb_digests = map message_digest (pe_transactions e)\<rparr>) taken \<and>
      (pool s \<noteq> [] \<longrightarrow> taken \<noteq> []) \<and>
      (sum_list (map pe_total_bytes taken) \<le> max_propose_bytes cfg \<or> length taken = 1) \<and>
      (pool s' \<noteq> [] \<longrightarrow>
        max_propose_bytes cfg < sum_list (map pe_total_bytes taken) + pe_total_bytes (hd (pool s')))"
proof -
  obtain txs p bytes q where r: "propose_entries cfg h [] 0 (pool s) (pool_bytes s) (proposed s) =
      (txs, p, bytes, q)" by (metis prod_cases4)
  have s': "s' = s\<lparr>pool := p, pool_bytes := bytes, proposed := q\<rparr>" and e: "e = [SendBatch w txs]"
    using assms(2) r by (auto simp: handle_propose_def)
  have ne: "\<forall>e \<in> set (pool s). pe_transactions e \<noteq> []" using assms(1) by (simp add: actor_inv_def pool_inv_def)
  from propose_entries_props [OF r ne] obtain taken where
    t: "pool s = taken @ p" "txs = [] @ concat (map pe_transactions taken)"
      "bytes = pool_bytes s - sum_list (map pe_total_bytes taken)"
      "q = proposed s @ map (\<lambda>e. \<lparr>pb_height = h, pb_digests = map message_digest (pe_transactions e)\<rparr>) taken"
    and some: "([] :: signed_transaction list) = [] \<longrightarrow> pool s \<noteq> [] \<longrightarrow> taken \<noteq> []"
    and fits: "0 + sum_list (map pe_total_bytes taken) \<le> max_propose_bytes cfg \<or> taken = [] \<or>
        ([] :: signed_transaction list) = [] \<and> length taken = 1"
    and full: "p \<noteq> [] \<longrightarrow>
        max_propose_bytes cfg < 0 + sum_list (map pe_total_bytes taken) + pe_total_bytes (hd p)"
    by (elim exE conjE) (rule that)
  have "mset (flight p q) = mset (flight (pool s) (proposed s))"
    unfolding t(1,4) flight_def by (simp add: o_def)
  then have "distinct (flight p q) = distinct (flight (pool s) (proposed s))"
    "set (flight p q) = set (flight (pool s) (proposed s))"
    by (rule mset_eq_imp_distinct_iff, rule mset_eq_setD)
  then have "flight_inv s'" using assms(1) by (simp add: actor_inv_def flight_inv_def s')
  moreover have "pool_inv cfg s'" using assms(1) t(1,3) by (auto simp: actor_inv_def pool_inv_def s')
  moreover have "book_inv sh s'"
    using assms(1) book_inv_cong [of s' s] by (simp add: actor_inv_def s')
  moreover have "live_inv s'" using assms(1) by (simp add: actor_inv_def live_inv_def s')
  ultimately show "actor_inv sh cfg s'" by (simp add: actor_inv_def)
  show "\<exists>taken. pool s = taken @ pool s' \<and>
      e = [SendBatch w (concat (map pe_transactions taken))] \<and>
      proposed s' = proposed s @
        map (\<lambda>e. \<lparr>pb_height = h, pb_digests = map message_digest (pe_transactions e)\<rparr>) taken \<and>
      (pool s \<noteq> [] \<longrightarrow> taken \<noteq> []) \<and>
      (sum_list (map pe_total_bytes taken) \<le> max_propose_bytes cfg \<or> length taken = 1) \<and>
      (pool s' \<noteq> [] \<longrightarrow>
        max_propose_bytes cfg < sum_list (map pe_total_bytes taken) + pe_total_bytes (hd (pool s')))"
    using t(1) some fits full by (intro exI [of _ taken]) (auto simp: s' e t(2,4))
qed

section \<open>Submissions keep them\<close>

lemma new_transactions_props:
  "case new_transactions ts known of (acc, known') \<Rightarrow>
    known' = known \<union> message_digest ` set acc \<and> message_digest ` set ts \<subseteq> known' \<and>
    distinct (map message_digest acc) \<and> message_digest ` set acc \<inter> known = {} \<and> set acc \<subseteq> set ts"
proof (induction ts arbitrary: known)
  case Nil
  show ?case by simp
next
  case (Cons t ts)
  show ?case
  proof (cases "message_digest t \<in> known")
    case True
    with Cons.IH [of known] show ?thesis by (auto split: prod.splits)
  next
    case False
    obtain acc known' where n: "new_transactions ts (insert (message_digest t) known) = (acc, known')"
      by (cases "new_transactions ts (insert (message_digest t) known)")
    from Cons.IH [of "insert (message_digest t) known"] False show ?thesis
      unfolding new_transactions.simps n by auto
  qed
qed

lemma remove_known_digests_eq: "remove_known_digests ts known = known - message_digest ` set ts"
  unfolding remove_known_digests_def by (induction ts arbitrary: known) auto

lemma watch_loop_props:
  "(\<exists>bs. watch_loop b seen ds w d = Some bs \<and> k \<in> set bs) \<longleftrightarrow>
    (\<exists>bs. w d = Some bs \<and> k \<in> set bs) \<or> k = b \<and> d \<in> set ds - seen"
proof (induction ds arbitrary: seen w)
  case Nil
  show ?case by simp
next
  case (Cons x ds)
  show ?case
  proof (cases "x \<in> seen")
    case True
    then show ?thesis by (auto simp: Cons.IH)
  next
    case False
    have "(\<exists>bs. (w(x \<mapsto> (case w x of None \<Rightarrow> [] | Some bs \<Rightarrow> bs) @ [b])) d = Some bs \<and> k \<in> set bs) \<longleftrightarrow>
        (\<exists>bs. w d = Some bs \<and> k \<in> set bs) \<or> k = b \<and> d = x"
      by (cases "w x") auto
    with False show ?thesis by (auto simp: Cons.IH)
  qed
qed

lemma push_waiter_inv:
  assumes "book_inv sh s" "batch_digests s b \<noteq> None"
  shows "book_inv sh (push_waiter b w s)"
proof -
  have "watch_inv (push_waiter b w s)"
    using assms unfolding book_inv_def watch_inv_def awaits_def watching_def push_waiter_def by auto
  with assms(1) show ?thesis
    unfolding book_inv_def status_inv_def link_inv_def push_waiter_def by simp
qed

lemma push_waiter_frame [simp]:
  "pool (push_waiter b w s) = pool s" "pool_bytes (push_waiter b w s) = pool_bytes s"
  "proposed (push_waiter b w s) = proposed s" "known_digests (push_waiter b w s) = known_digests s"
  "batch_digests (push_waiter b w s) = batch_digests s" "statuses (push_waiter b w s) = statuses s"
  by (simp_all add: push_waiter_def)

lemma push_waiter_invs [simp]:
  "live_inv (push_waiter b w s) = live_inv s" "flight_inv (push_waiter b w s) = flight_inv s"
  "pool_inv cfg (push_waiter b w s) = pool_inv cfg s"
  by (simp_all add: live_inv_def flight_inv_def pool_inv_def)

text \<open>Registering a new batch: its status, its digests and its watchers, then the expiry.\<close>

lemma register_batch:
  assumes "book_inv sh s" "live_inv s" "hm_get (statuses s) b = None"
    and ds: "ds \<noteq> []" "set ds \<subseteq> known'" "known_digests s \<subseteq> known'"
    and r: "remember_status b (accepted_status sh ds) (s\<lparr>known_digests := known'\<rparr>) = (ex, s2)"
    and s4: "s4 = fst (forget_expired_batches ex
      (watch_batch b ds (s2\<lparr>batch_digests := (batch_digests s2)(b \<mapsto> ds)\<rparr>)))"
  shows "book_inv sh s4" "live_inv s4" "batch_digests s4 b = Some ds"
    "pool s4 = pool s" "pool_bytes s4 = pool_bytes s" "proposed s4 = proposed s" "known_digests s4 = known'"
proof -
  let ?s1 = "s\<lparr>known_digests := known'\<rparr>"
  have "status_inv ?s1" "hm_get (statuses ?s1) b = None"
    using assms(1,3) by (simp_all add: book_inv_def status_inv_def)
  note N = remember_new [OF this r]
  have none: "batch_digests s b = None"
    using assms(1,3) unfolding book_inv_def link_inv_def by (cases "batch_digests s b") auto
  define s3 where "s3 = watch_batch b ds (s2\<lparr>batch_digests := (batch_digests s2)(b \<mapsto> ds)\<rparr>)"
  have s2: "s2 = ?s1\<lparr>statuses := statuses s2, status_order := status_order s2\<rparr>" by (rule N(4))
  have f: "batch_digests s2 = batch_digests s" "digest_watchers s2 = digest_watchers s"
    "digest_outcomes s2 = digest_outcomes s" "known_digests s2 = known'" "pending_waiters s2 = pending_waiters s"
    "pool s2 = pool s" "pool_bytes s2 = pool_bytes s" "proposed s2 = proposed s"
    by (subst s2, simp)+
  have aw: "awaits s3 k d \<longleftrightarrow> awaits s k d \<or> k = b \<and> d \<in> set ds" for k d
    using none by (auto simp: awaits_def s3_def watch_batch_def f)
  have wt: "watching s3 d k \<longleftrightarrow> watching s d k \<or> k = b \<and> d \<in> set ds" for k d
    using watch_loop_props [of b "{}" ds "digest_watchers s" d k]
    by (simp add: watching_def s3_def watch_batch_def f)
  have w: "(\<forall>d b. watching s d b \<longleftrightarrow> awaits s b d)" "dom (pending_waiters s) \<subseteq> dom (batch_digests s)"
    "(\<forall>b d. awaits s b d \<longrightarrow> d \<in> known_digests s \<or> digest_outcomes s d \<noteq> None)"
    using assms(1) unfolding book_inv_def watch_inv_def by blast+
  have p3: "pending_waiters s3 = pending_waiters s" "batch_digests s3 = (batch_digests s)(b \<mapsto> ds)"
    "known_digests s3 = known'" "digest_outcomes s3 = digest_outcomes s" "statuses s3 = statuses s2"
    "status_order s3 = status_order s2"
    by (simp_all add: s3_def watch_batch_def f)
  have "watch_inv s3"
    unfolding watch_inv_def aw wt p3
  proof (intro conjI)
    show "dom (pending_waiters s) \<subseteq> dom ((batch_digests s)(b \<mapsto> ds))" using w(2) by auto
  qed (use w ds in blast)+
  then have watch: "watch_inv s4" unfolding s4 s3_def by (rule forget_expired_frame(5))
  have f4: "statuses s4 = statuses s2" "status_order s4 = status_order s2"
    "batch_digests s4 = (\<lambda>k. if k \<in> set ex then None else ((batch_digests s)(b \<mapsto> ds)) k)"
    unfolding s4 forget_expired_frame s3_def [symmetric] p3 by simp_all
  have "status_inv s4" using N(1) by (simp add: status_inv_def f4)
  moreover have "link_inv sh s4"
    using assms(1) N(2) unfolding link_inv_def f4 N(3) book_inv_def
    by (auto simp: accepted_status_def split: if_splits)
  ultimately show "book_inv sh s4" using watch by (simp add: book_inv_def)
  have sp: "same_pool s3 s4" unfolding s4 s3_def by (rule forget_expired_frame(1))
  then show "pool s4 = pool s" "pool_bytes s4 = pool_bytes s" "proposed s4 = proposed s"
    by (simp_all add: same_pool_def s3_def watch_batch_def f)
  show k: "known_digests s4 = known'" using sp by (simp add: same_pool_def p3)
  show "batch_digests s4 b = Some ds" using N(2) by (simp add: f4)
  have "d \<in> known'" if "d \<in> known_digests s" for d using that ds by blast
  then show "live_inv s4"
    using assms(2) ds(1,2) unfolding live_inv_def k f4 by (fastforce split: if_splits simp: neq_Nil_conv)
qed

fun message_ok :: "message \<Rightarrow> bool" where
  "message_ok (Submit b ds ts n r i) \<longleftrightarrow> ts \<noteq> [] \<and> ds = map message_digest ts"
| "message_ok _ \<longleftrightarrow> True"

lemma handle_submit_inv:
  assumes "actor_inv sh cfg s" "ts \<noteq> []" "ds = map message_digest ts"
  shows "actor_inv sh cfg (fst (handle_submit sh cfg b ds ts n r i s))"
proof (cases "hm_get (statuses s) b")
  case (Some st)
  show ?thesis
  proof (cases "r \<noteq> None \<and> tx_status_from_batch st = None")
    case True
    then obtain w ss where "r = Some w" "st = BatchAccepted ss"
      by (cases st) auto
    moreover have "batch_digests s b \<noteq> None"
      using assms(1) Some calculation unfolding actor_inv_def book_inv_def link_inv_def by blast
    ultimately show ?thesis
      using assms(1) Some push_waiter_inv [of sh s b w] by (simp add: handle_submit_def actor_inv_def)
  next
    case False
    then show ?thesis
      using assms(1) Some by (auto simp: handle_submit_def Let_def split: option.splits)
  qed
next
  case None
  obtain acc known' where n: "new_transactions ts (known_digests s) = (acc, known')"
    by (cases "new_transactions ts (known_digests s)")
  note P = new_transactions_props [where ts = ts and known = "known_digests s", unfolded n prod.case]
  let ?n = "min (total_bytes_for acc) n"
  show ?thesis
  proof (cases "acc \<noteq> [] \<and> max_pool_bytes cfg < pool_bytes s + ?n")
    case True
    have "remove_known_digests acc known' = known_digests s"
      using P by (auto simp: remove_known_digests_eq)
    with True show ?thesis using assms(1) None n by (simp add: handle_submit_def)
  next
    case False
    obtain ex s2 where r: "remember_status b (accepted_status sh ds) (s\<lparr>known_digests := known'\<rparr>) = (ex, s2)"
      by (cases "remember_status b (accepted_status sh ds) (s\<lparr>known_digests := known'\<rparr>)")
    obtain s4 e where s4: "forget_expired_batches ex
        (watch_batch b ds (s2\<lparr>batch_digests := (batch_digests s2)(b \<mapsto> ds)\<rparr>)) = (s4, e)"
      by (metis prod.exhaust)
    have inv: "book_inv sh s" "live_inv s" using assms(1) by (simp_all add: actor_inv_def)
    have d: "ds \<noteq> []" using assms(2,3) by simp
    have k: "set ds \<subseteq> known'" "known_digests s \<subseteq> known'"
      unfolding assms(3) set_map using P by blast+
    have "s4 = fst (forget_expired_batches ex
        (watch_batch b ds (s2\<lparr>batch_digests := (batch_digests s2)(b \<mapsto> ds)\<rparr>)))" by (simp add: s4)
    note R = register_batch [OF inv None d k r this]
    define s5 where "s5 = (case r of None \<Rightarrow> s4 | Some w \<Rightarrow> push_waiter b w s4)"
    have b5: "book_inv sh s5" "live_inv s5" "pool s5 = pool s" "pool_bytes s5 = pool_bytes s"
      "proposed s5 = proposed s" "known_digests s5 = known'"
      using R push_waiter_inv [of sh s4 b] by (auto simp: s5_def live_inv_def split: option.splits)
    define s6 where "s6 = (if acc = [] then s5
      else s5\<lparr>pool_bytes := pool_bytes s5 + ?n, pool := pool s5 @ [\<lparr>pe_transactions = acc, pe_total_bytes = ?n\<rparr>]\<rparr>)"
    have "fst (handle_submit sh cfg b ds ts n r i s) = s6"
      unfolding handle_submit_def None option.case n prod.case Let_def if_not_P [OF False] r s4
      by (simp add: s5_def s6_def)
    moreover have flight: "distinct (flight (pool s) (proposed s))"
      "known_digests s = set (flight (pool s) (proposed s))"
      using assms(1) by (simp_all add: actor_inv_def flight_inv_def)
    then have "flight_inv s6"
      using flight P b5 by (cases "acc = []") (auto simp: flight_inv_def s6_def flight_add)
    moreover have "book_inv sh s6" "live_inv s6"
      using b5(1,2) book_inv_cong [of s6 s5 sh] by (auto simp: s6_def live_inv_def)
    moreover have "pool_inv cfg s6"
      using assms(1) b5 False by (auto simp: actor_inv_def pool_inv_def s6_def)
    ultimately show ?thesis by (simp add: actor_inv_def)
  qed
qed

section \<open>Answers to waiting clients\<close>

text \<open>\<open>v\<close> is the verdict of the block being reported on a digest, \<open>os0\<close> the outcomes recorded
  before it. Between two states a batch either keeps its status and its waiters, or it is resolved
  from these verdicts and everybody waiting for it is told.\<close>

definition verdict :: "u64 \<Rightarrow> digest set \<Rightarrow> digest \<Rightarrow> digest_outcome" where
  "verdict h fin d = (if d \<in> fin then OutFinalized h else OutDropped)"

definition keeps :: "actor \<Rightarrow> actor \<Rightarrow> batch_id \<Rightarrow> bool" where
  "keeps s s' b \<longleftrightarrow> batch_digests s' b = batch_digests s b \<and> waiters_for b s' = waiters_for b s \<and>
    hm_get (statuses s') b = hm_get (statuses s) b"

definition resolves ::
    "(digest \<Rightarrow> string) \<Rightarrow> (digest \<Rightarrow> digest_outcome) \<Rightarrow> (digest \<rightharpoonup> digest_outcome) \<Rightarrow> actor \<Rightarrow> effect list
      \<Rightarrow> actor \<Rightarrow> batch_id \<Rightarrow> bool" where
  "resolves sh v os0 s e s' b \<longleftrightarrow>
    (\<exists>ds os st t. batch_digests s b = Some ds \<and> batch_digests s' b = None \<and>
      batch_status_from_outcomes sh ds os = Some st \<and>
      (\<forall>d \<in> set ds. os d = Some (v d) \<or> os d = os0 d) \<and>
      hm_get (statuses s') b = Some st \<and> tx_status_from_batch st = Some t \<and>
      (\<forall>w \<in> set (waiters_for b s). SendTx w t \<in> set e))"

definition within :: "(digest \<Rightarrow> digest_outcome) \<Rightarrow> (digest \<rightharpoonup> digest_outcome) \<Rightarrow> actor \<Rightarrow> bool" where
  "within v os0 s \<longleftrightarrow> (\<forall>d. digest_outcomes s d \<in> {None, os0 d, Some (v d)})"

definition progress ::
    "(digest \<Rightarrow> string) \<Rightarrow> (digest \<Rightarrow> digest_outcome) \<Rightarrow> (digest \<rightharpoonup> digest_outcome) \<Rightarrow> actor \<Rightarrow> effect list
      \<Rightarrow> actor \<Rightarrow> bool" where
  "progress sh v os0 s e s' \<longleftrightarrow>
    (\<forall>b. keeps s s' b \<or> resolves sh v os0 s e s' b) \<and> (\<forall>w. DropTx w \<notin> set e) \<and> within v os0 s'"

lemma progress_trans:
  assumes "progress sh v os0 s e s1" "progress sh v os0 s1 e' s2"
  shows "progress sh v os0 s (e @ e') s2"
proof -
  have "keeps s s2 b \<or> resolves sh v os0 s (e @ e') s2 b" for b
  proof (cases "keeps s s1 b")
    case True
    have "keeps s1 s2 b \<or> resolves sh v os0 s1 e' s2 b" using assms(2) by (simp add: progress_def)
    then show ?thesis
    proof
      assume "resolves sh v os0 s1 e' s2 b"
      then have "resolves sh v os0 s (e @ e') s2 b"
        using True unfolding resolves_def keeps_def by (metis UnI2 set_append)
      then show ?thesis ..
    qed (use True in \<open>simp add: keeps_def\<close>)
  next
    case False
    then have r: "resolves sh v os0 s e s1 b" using assms(1) unfolding progress_def by blast
    then have "batch_digests s1 b = None" unfolding resolves_def by blast
    then have "keeps s1 s2 b" using assms(2) unfolding progress_def resolves_def by (metis option.distinct(1))
    with r have "resolves sh v os0 s (e @ e') s2 b"
      unfolding resolves_def keeps_def by (metis UnI1 set_append)
    then show ?thesis ..
  qed
  with assms show ?thesis by (auto simp: progress_def)
qed

lemma resolve_progress:
  assumes "book_inv sh s" "within v os0 s" "resolve_batch_if_terminal sh b s = (s', e)"
  shows "progress sh v os0 s e s'"
proof (cases "\<exists>ds st. batch_digests s b = Some ds \<and>
    batch_status_from_outcomes sh ds (digest_outcomes s) = Some st")
  case False
  then have "s' = s" "e = []"
    using assms(3) by (auto simp: resolve_batch_if_terminal_def split: option.splits)
  with assms(2) show ?thesis by (simp add: progress_def keeps_def)
next
  case True
  then obtain ds st where st: "batch_digests s b = Some ds"
    "batch_status_from_outcomes sh ds (digest_outcomes s) = Some st" by blast
  from resolve_terminal [OF assms(1) st] obtain t s1 where t: "tx_status_from_batch st = Some t"
    and s1: "s1 = s\<lparr>statuses := hm_insert b st (statuses s), pending_waiters := (pending_waiters s)(b := None)\<rparr>"
    and r: "resolve_batch_if_terminal sh b s =
      (fst (forget_batch b s1), map (\<lambda>w. SendTx w t) (waiters_for b s))" by metis
  have s': "s' = fst (forget_batch b s1)" and e: "e = map (\<lambda>w. SendTx w t) (waiters_for b s)"
    using assms(3) r by simp_all
  have "digest_outcomes s d \<noteq> None" if "d \<in> set ds" for d
    using st(2) that batch_status_None [of sh ds "digest_outcomes s"] by auto
  then have "\<forall>d \<in> set ds. digest_outcomes s d = Some (v d) \<or> digest_outcomes s d = os0 d"
    using assms(2) unfolding within_def by blast
  then have res: "resolves sh v os0 s e s' b"
    using st t unfolding resolves_def
    by (intro exI [of _ ds] exI [of _ "digest_outcomes s"] exI [of _ st] exI [of _ t])
      (simp add: s' forget_batch_frame s1 update_conv' e)
  have keep: "keeps s s' k" if "k \<noteq> b" for k
    using that by (simp add: keeps_def s' forget_batch_frame s1 waiters_for_def update_conv')
  have "digest_outcomes s' d = digest_outcomes s d \<or> digest_outcomes s' d = None" for d
    by (auto simp: s' s1 forget_batch_def forget_loop_eq Let_def split: option.splits)
  then have "within v os0 s'" using assms(2) unfolding within_def by (metis insertCI)
  moreover have "\<forall>w. DropTx w \<notin> set e" by (auto simp: e)
  moreover have "keeps s s' k \<or> resolves sh v os0 s e s' k" for k
    using res keep by (cases "k = b") simp_all
  ultimately show ?thesis by (simp add: progress_def)
qed

lemma resolve_all_progress:
  assumes "book_inv sh s" "within v os0 s" "resolve_all sh bs s = (s', e)"
  shows "progress sh v os0 s e s'"
  using assms
proof (induction bs arbitrary: s e)
  case Nil
  then show ?case by (simp add: progress_def keeps_def)
next
  case (Cons b bs)
  obtain s1 e1 where r: "resolve_batch_if_terminal sh b s = (s1, e1)" by (metis prod.exhaust)
  with Cons.prems(3) obtain e2 where r2: "resolve_all sh bs s1 = (s', e2)" "e = e1 @ e2"
    by (auto split: prod.splits)
  have p: "progress sh v os0 s e1 s1" by (rule resolve_progress [OF Cons.prems(1,2) r])
  moreover have "progress sh v os0 s1 e2 s'"
    using Cons.IH [OF _ _ r2(1)] resolve_props(1) [OF Cons.prems(1) refl, of b] r p
    by (simp add: progress_def)
  ultimately show ?case unfolding r2(2) by (rule progress_trans)
qed

lemma settle_progress:
  assumes "book_inv sh s" "within v os0 s"
    and "\<forall>d \<in> set ds. (if d \<in> fin then OutFinalized h else OutDropped) = v d"
    and "resolve_all sh bs (record_outcomes h fin ds s) = (s', e)"
  shows "progress sh v os0 s e s'"
proof -
  let ?s = "record_outcomes h fin ds s"
  have "book_inv sh ?s"
    using assms(1) unfolding record_outcomes_eq book_inv_def status_inv_def link_inv_def watch_inv_def
      awaits_def watching_def by auto
  moreover have "within v os0 ?s" using assms(2,3) by (auto simp: within_def record_outcomes_eq)
  ultimately have "progress sh v os0 ?s e s'" by (rule resolve_all_progress [OF _ _ assms(4)])
  moreover have "keeps ?s s' b \<longleftrightarrow> keeps s s' b" "resolves sh v os0 ?s e s' b \<longleftrightarrow> resolves sh v os0 s e s' b" for b
    by (simp_all add: keeps_def resolves_def waiters_for_def record_outcomes_eq)
  ultimately show ?thesis by (simp add: progress_def)
qed

lemma report_loop_progress:
  assumes "hash_order it" "book_inv sh s" "live_inv s" "within (verdict h fin) os0 s"
    and "report_loop sh it cfg h fin remaining bs s = (s', e)"
  shows "progress sh (verdict h fin) os0 s e s'"
  using assms(2-)
proof (induction bs arbitrary: remaining s e)
  case Nil
  then have "s' = s\<lparr>proposed := remaining\<rparr>" "e = []" by simp_all
  with Nil.prems(3) show ?case by (simp add: progress_def keeps_def within_def waiters_for_def)
next
  case (Cons batch bs)
  let ?aff = "it (watched_batches_for (pb_digests batch) (digest_watchers s))"
  show ?case
  proof (cases "unsettled cfg h fin batch")
    case True
    then have "report_loop sh it cfg h fin (remaining @ [batch]) bs s = (s', e)"
      using Cons.prems(4) by (auto simp: unsettled_def dest: leD split: if_splits)
    from Cons.IH [OF Cons.prems(1-3) this] show ?thesis .
  next
    case False
    define fin' where "fin' = (if \<exists>d \<in> set (pb_digests batch). d \<in> fin then fin else {})"
    obtain s1 e1 where s1: "resolve_all sh ?aff (record_outcomes h fin' (pb_digests batch) s) = (s1, e1)"
      by (metis prod.exhaust)
    from False Cons.prems(4) s1 obtain e2 where
      r: "report_loop sh it cfg h fin remaining bs s1 = (s', e2)" "e = e1 @ e2"
      by (auto simp: unsettled_def not_le Let_def fin'_def record_drops_eq [of _ _ h] split: prod.splits if_splits)
    have "\<forall>d \<in> set (pb_digests batch). (if d \<in> fin' then OutFinalized h else OutDropped) = verdict h fin d"
      by (auto simp: fin'_def verdict_def)
    from settle_progress [OF Cons.prems(1,3) this s1]
    have p: "progress sh (verdict h fin) os0 s e1 s1" .
    have aff: "\<forall>d \<in> set (pb_digests batch). \<forall>b. watching s d b \<longrightarrow> b \<in> set ?aff"
      by (auto simp: hash_order_set [OF assms(1)] set_watched_batches_for)
    have "s1 = fst (resolve_all sh ?aff (record_outcomes h fin' (pb_digests batch) s))" by (simp add: s1)
    note S = settle_props(1,2) [OF Cons.prems(1,2) aff this]
    have "progress sh (verdict h fin) os0 s1 e2 s'"
      using Cons.IH [OF S _ r(1)] p by (simp add: progress_def)
    from progress_trans [OF p this] show ?thesis unfolding r(2) .
  qed
qed

section \<open>The actor as a machine\<close>

lemma round_invs [simp]:
  "book_inv sh (s\<lparr>highest_consensus_round := n\<rparr>) = book_inv sh s"
  "live_inv (s\<lparr>highest_consensus_round := n\<rparr>) = live_inv s"
  "flight_inv (s\<lparr>highest_consensus_round := n\<rparr>) = flight_inv s"
  "pool_inv cfg (s\<lparr>highest_consensus_round := n\<rparr>) = pool_inv cfg s"
  by (rule book_inv_cong) (simp_all add: live_inv_def flight_inv_def pool_inv_def)

lemma handle_report_block_props:
  assumes "hash_order it" "actor_inv sh cfg s" "handle_report_block c sh it cfg block ack s = (s', e)"
  defines "h \<equiv> b_header (sealed_inner block)" and "fin \<equiv> finalized_digests c (b_body (sealed_inner block))"
  shows "actor_inv sh cfg s'"
    and "proposed s' = filter (unsettled cfg (h_height h) fin) (proposed s)"
    and "pool s' = pool s"
    and "progress sh (verdict (h_height h) fin) (digest_outcomes s) s e s'"
proof -
  define s1 where "s1 = s\<lparr>highest_consensus_round := max (highest_consensus_round s)
      (rotation_round (ctx_epoch (h_context h)) (ctx_view (h_context h)))\<rparr>"
  obtain e1 where r: "report_loop sh it cfg (h_height h) fin [] (proposed s1) s1 = (s', e1)"
    and e: "e = e1 @ [Acknowledge ack]"
    using assms(3) by (auto simp: handle_report_block_def Let_def h_def fin_def s1_def split: prod.splits)
  have inv: "book_inv sh s1" "live_inv s1"
    using assms(2) by (simp_all add: actor_inv_def s1_def)
  have fl: "distinct (flight (pool s1) ([] @ proposed s1))"
    "known_digests s1 = set (flight (pool s1) ([] @ proposed s1))"
    using assms(2) by (simp_all add: actor_inv_def flight_inv_def s1_def)
  have "s' = fst (report_loop sh it cfg (h_height h) fin [] (proposed s1) s1)" by (simp add: r)
  note L = report_loop_props [OF assms(1) inv fl this]
  then show "actor_inv sh cfg s'"
    using assms(2) by (simp add: actor_inv_def pool_inv_def s1_def)
  show "proposed s' = filter (unsettled cfg (h_height h) fin) (proposed s)" "pool s' = pool s"
    using L by (simp_all add: s1_def)
  have "within (verdict (h_height h) fin) (digest_outcomes s) s1" by (simp add: within_def s1_def)
  from report_loop_progress [OF assms(1) inv this r]
  have "progress sh (verdict (h_height h) fin) (digest_outcomes s) s1 e1 s'" .
  then show "progress sh (verdict (h_height h) fin) (digest_outcomes s) s e s'"
    unfolding progress_def keeps_def resolves_def e by (simp add: s1_def waiters_for_def)
qed

lemma handle_inv:
  assumes "hash_order it" "actor_inv sh cfg s" "message_ok m"
  shows "actor_inv sh cfg (fst (handle c sh it cfg m s))"
proof (cases m)
  case (Submit b ds ts n r i)
  with assms(2,3) handle_submit_inv show ?thesis by simp
next
  case (Propose h w)
  then show ?thesis
    using handle_propose_props(1) [OF assms(2), of h w] by (cases "handle_propose cfg h w s") simp
next
  case (ReportBlock block ack)
  obtain s' e where "handle_report_block c sh it cfg block ack s = (s', e)" by (metis prod.exhaust)
  with handle_report_block_props(1) [OF assms(1,2) this] ReportBlock show ?thesis by simp
qed (use assms(2) in \<open>simp_all add: actor_inv_def\<close>)

interpretation mempool: machine "actor_inv sh cfg" "\<lambda>m. hash_order it \<and> message_ok m"
    "\<lambda>m s. fst (handle c sh it cfg m s)" for c sh it cfg
  by unfold_locales (simp add: handle_inv)

lemma actor_inv_new: "actor_inv sh cfg actor_new"
  by (simp add: actor_inv_def book_inv_def status_inv_def link_inv_def watch_inv_def awaits_def
      watching_def live_inv_def flight_inv_def flight_def pool_inv_def actor_new_def)

definition actor_run ::
    "'x tx_env_scheme \<Rightarrow> (digest \<Rightarrow> string) \<Rightarrow> (batch_id list \<Rightarrow> batch_id list) \<Rightarrow> pool_config
      \<Rightarrow> message list \<Rightarrow> actor" where
  "actor_run c sh it cfg ms = fold (\<lambda>m s. fst (handle c sh it cfg m s)) ms actor_new"

lemma actor_run_inv:
  assumes "hash_order it" "list_all message_ok ms"
  shows "actor_inv sh cfg (actor_run c sh it cfg ms)"
  unfolding actor_run_def
  by (rule mempool.run_inv [OF actor_inv_new]) (use assms in \<open>auto simp: list_all_iff\<close>)

section \<open>What the pool holds\<close>

text \<open>Whatever holds of every submitted transaction holds of every pooled one, and an entry is no
  larger than the batch it came from.\<close>

definition pool_all :: "(signed_transaction \<Rightarrow> bool) \<Rightarrow> nat \<Rightarrow> actor \<Rightarrow> bool" where
  "pool_all P k s \<longleftrightarrow> (\<forall>e \<in> set (pool s). list_all P (pe_transactions e) \<and> pe_total_bytes e \<le> k)"

fun submits :: "(signed_transaction \<Rightarrow> bool) \<Rightarrow> nat \<Rightarrow> message \<Rightarrow> bool" where
  "submits P k (Submit b ds ts n r i) \<longleftrightarrow> list_all P ts \<and> n \<le> k"
| "submits P k _ \<longleftrightarrow> True"

lemma handle_submit_pool:
  "\<exists>es. pool (fst (handle_submit sh cfg b ds ts n r i s)) = pool s @ es \<and>
    (\<forall>e \<in> set es. set (pe_transactions e) \<subseteq> set ts \<and> pe_total_bytes e \<le> n)"
proof (cases "hm_get (statuses s) b")
  case (Some st)
  then have "pool (fst (handle_submit sh cfg b ds ts n r i s)) = pool s"
    by (auto simp: handle_submit_def Let_def split: option.splits)
  then show ?thesis by (intro exI [of _ "[]"]) simp
next
  case None
  obtain acc known' where a: "new_transactions ts (known_digests s) = (acc, known')"
    by (cases "new_transactions ts (known_digests s)")
  have sub: "set acc \<subseteq> set ts"
    using new_transactions_props [where ts = ts and known = "known_digests s"] a by simp
  obtain ex s2 where r: "remember_status b (accepted_status sh ds) (s\<lparr>known_digests := known'\<rparr>) = (ex, s2)"
    by (cases "remember_status b (accepted_status sh ds) (s\<lparr>known_digests := known'\<rparr>)")
  then have p2: "pool s2 = pool s" by (auto simp: remember_status_def Let_def split: prod.splits)
  obtain s4 e where s4: "forget_expired_batches ex
      (watch_batch b ds (s2\<lparr>batch_digests := (batch_digests s2)(b \<mapsto> ds)\<rparr>)) = (s4, e)"
    by (metis prod.exhaust)
  have "same_pool (watch_batch b ds (s2\<lparr>batch_digests := (batch_digests s2)(b \<mapsto> ds)\<rparr>)) s4"
    using forget_expired_frame(1) [of "watch_batch b ds (s2\<lparr>batch_digests := (batch_digests s2)(b \<mapsto> ds)\<rparr>)" ex]
    by (simp add: s4)
  then have p4: "pool s4 = pool s" using p2 by (simp add: same_pool_def watch_batch_def)
  show ?thesis
  proof (cases "acc \<noteq> [] \<and> max_pool_bytes cfg < pool_bytes s + min (total_bytes_for acc) n")
    case True
    then show ?thesis using None a by (intro exI [of _ "[]"]) (simp add: handle_submit_def)
  next
    case False
    have "pool (fst (handle_submit sh cfg b ds ts n r i s)) = pool s @
        (if acc = [] then [] else [\<lparr>pe_transactions = acc, pe_total_bytes = min (total_bytes_for acc) n\<rparr>])"
      unfolding handle_submit_def None option.case a prod.case Let_def if_not_P [OF False] r s4
      by (simp add: p4 split: option.split)
    with sub show ?thesis by fastforce
  qed
qed

lemma handle_pool_all:
  assumes "hash_order it" "actor_inv sh cfg s" "pool_all P k s" "message_ok m" "submits P k m"
  shows "pool_all P k (fst (handle c sh it cfg m s))"
proof (cases m)
  case (Submit b ds ts n r i)
  obtain es where es: "pool (fst (handle_submit sh cfg b ds ts n r i s)) = pool s @ es"
    "\<forall>e \<in> set es. set (pe_transactions e) \<subseteq> set ts \<and> pe_total_bytes e \<le> n"
    using handle_submit_pool by blast
  have "list_all P (pe_transactions e) \<and> pe_total_bytes e \<le> k" if "e \<in> set es" for e
    using es(2) that assms(5) Submit by (fastforce simp: list_all_iff)
  with assms(3) Submit es(1) show ?thesis by (auto simp: pool_all_def)
next
  case (Propose h w)
  obtain s' e where h: "handle_propose cfg h w s = (s', e)" by (metis prod.exhaust)
  from handle_propose_props(2) [OF assms(2) h] obtain taken where "pool s = taken @ pool s'" by blast
  with assms(3) h Propose show ?thesis by (simp add: pool_all_def)
next
  case (ReportBlock block ack)
  obtain s' e where h: "handle_report_block c sh it cfg block ack s = (s', e)" by (metis prod.exhaust)
  from handle_report_block_props(3) [OF assms(1,2) h] assms(3) h ReportBlock show ?thesis
    by (simp add: pool_all_def)
qed (use assms(3) in \<open>simp_all add: pool_all_def\<close>)

interpretation filtered: machine "\<lambda>s. actor_inv sh cfg s \<and> pool_all P k s"
    "\<lambda>m. hash_order it \<and> message_ok m \<and> submits P k m" "\<lambda>m s. fst (handle c sh it cfg m s)" for c sh it cfg P k
  by unfold_locales (simp add: handle_inv handle_pool_all)

lemma actor_run_pool_all:
  assumes "hash_order it" "list_all message_ok ms" "list_all (submits P k) ms"
  shows "pool_all P k (actor_run c sh it cfg ms)"
proof -
  have "actor_inv sh cfg actor_new \<and> pool_all P k actor_new"
    by (simp add: actor_inv_new) (simp add: pool_all_def actor_new_def)
  moreover have "list_all (\<lambda>m. hash_order it \<and> message_ok m \<and> submits P k m) ms"
    using assms by (simp add: list_all_iff)
  ultimately show ?thesis
    unfolding actor_run_def using filtered.run_inv by blast
qed

section \<open>An example run\<close>

definition demo_tx :: "u8 \<Rightarrow> signed_transaction" where
  "demo_tx k =
    \<lparr>st_inner = sealed_new_unchecked
       \<lparr>tx_sender = replicate 34 0, tx_to = replicate 32 1, tx_value = 1, tx_nonce = 0\<rparr> [k],
     st_signature = sig_ed25519 (replicate 64 0)\<rparr>"

definition demo_show :: "digest \<Rightarrow> string" where
  "demo_show d = map (\<lambda>b. char_of (unat b)) d"

definition demo_cfg :: pool_config where
  "demo_cfg = \<lparr>max_pool_bytes = 1000, max_propose_bytes = 400, cfg_namespace = [], drop_grace_blocks = 100\<rparr>"

definition demo_block :: "u64 \<Rightarrow> u8 list \<Rightarrow> sealed_block" where
  "demo_block h ks = sealed_new_unchecked (block_new (demo_header h h) (map demo_tx ks)) []"

definition demo_submit :: "batch_id \<Rightarrow> u8 list \<Rightarrow> message" where
  "demo_submit b ks = Submit b (map (message_digest \<circ> demo_tx) ks) (map demo_tx ks) 600 (Some 7) None"

lemma message_digest_demo_tx [simp]: "message_digest (demo_tx k) = [k]"
  by (simp add: message_digest_def demo_tx_def sealed_new_unchecked_def)

lemma demo_submit_ok [simp]: "message_ok (demo_submit b ks) \<longleftrightarrow> ks \<noteq> []"
  by (auto simp: demo_submit_def)

lemma hash_order_id [simp]: "hash_order (\<lambda>bs. bs)"
  by (simp add: hash_order_def)

lemma finalized_demo_block:
  "finalized_digests c (b_body (sealed_inner (demo_block h ks))) = set (map (\<lambda>k. [k]) ks)"
  by (induction ks) (simp_all add: finalized_digests_def demo_block_def block_new_def
      sealed_new_unchecked_def List.map_filter_simps o_def)

lemma size_demo_tx: "signed_transaction_encode_size (demo_tx k) = 147"
  by (simp add: signed_transaction_encode_size_def transaction_size_def public_key_size_def account_key_size_def
      sig_encode_size_def demo_tx_def sig_ed25519_def sealed_encode_size_def)

section \<open>Properties\<close>

text \<open>C16: The pool is byte-bounded: after any sequence of messages the byte counter is the sum over
  the entries of the pool, so the subtraction in \<open>propose\<close> never underflows, and it is at most
  \<open>max_pool_bytes\<close>; at most \<open>MAX_STATUS_ENTRIES\<close> statuses are remembered.\<close>

theorem pool_bounded:
  assumes "hash_order it" "list_all message_ok ms"
  shows "pool_bytes (actor_run c sh it cfg ms) =
      sum_list (map pe_total_bytes (pool (actor_run c sh it cfg ms))) \<and>
    pool_bytes (actor_run c sh it cfg ms) \<le> max_pool_bytes cfg \<and>
    length (statuses (actor_run c sh it cfg ms)) \<le> max_status_entries"
  using actor_run_inv [OF assms, of sh cfg c]
  by (simp add: actor_inv_def pool_inv_def book_inv_def status_inv_def)

theorem pool_bounded_witness:
  "pool_bytes (actor_run demo_env demo_show (\<lambda>bs. bs) demo_cfg
    [demo_submit ''a'' [1, 2], demo_submit ''b'' [2, 3], Propose 5 8, demo_submit ''c'' [4]]) \<le> 1000"
  using pool_bounded [OF hash_order_id, of "[demo_submit ''a'' [1, 2], demo_submit ''b'' [2, 3],
      Propose 5 8, demo_submit ''c'' [4]]" demo_env demo_show demo_cfg]
  by (simp add: demo_cfg_def)

text \<open>C17: No transaction is in flight twice: after any sequence of messages the digests of the pool
  and of the proposed batches are pairwise distinct, and they are exactly the known digests
  against which submissions are deduplicated.\<close>

theorem in_flight_once:
  assumes "hash_order it" "list_all message_ok ms"
  shows "distinct (flight (pool (actor_run c sh it cfg ms)) (proposed (actor_run c sh it cfg ms))) \<and>
    known_digests (actor_run c sh it cfg ms) =
      set (flight (pool (actor_run c sh it cfg ms)) (proposed (actor_run c sh it cfg ms)))"
  using actor_run_inv [OF assms, of sh cfg c] by (simp add: actor_inv_def flight_inv_def)

theorem in_flight_once_witness:
  "distinct (flight (pool (actor_run demo_env demo_show (\<lambda>bs. bs) demo_cfg
      [demo_submit ''a'' [1, 2], demo_submit ''b'' [2, 3]]))
    (proposed (actor_run demo_env demo_show (\<lambda>bs. bs) demo_cfg
      [demo_submit ''a'' [1, 2], demo_submit ''b'' [2, 3]])))"
  using in_flight_once [OF hash_order_id, of "[demo_submit ''a'' [1, 2], demo_submit ''b'' [2, 3]]"
      demo_env demo_show demo_cfg]
  by simp

text \<open>No accepted batch is stuck: whenever a status query would answer \<open>Accepted\<close>, the batch is
  still tracked with the digests of that answer, and at least one of them is in the pool or in a
  proposed batch, so a later proposal or report reaches it.\<close>

theorem accepted_is_in_flight:
  assumes "hash_order it" "list_all message_ok ms"
    and "hm_get (statuses (actor_run c sh it cfg ms)) b = Some (BatchAccepted ss)"
  shows "\<exists>ds d. batch_digests (actor_run c sh it cfg ms) b = Some ds \<and> ss = map sh ds \<and> d \<in> set ds \<and>
    d \<in> set (flight (pool (actor_run c sh it cfg ms)) (proposed (actor_run c sh it cfg ms)))"
proof -
  let ?s = "actor_run c sh it cfg ms"
  have inv: "link_inv sh ?s" "live_inv ?s" "flight_inv ?s"
    using actor_run_inv [OF assms(1,2), of sh cfg c] by (simp_all add: actor_inv_def book_inv_def)
  from inv(1) assms(3) obtain ds where ds: "batch_digests ?s b = Some ds"
    unfolding link_inv_def by blast
  with inv(1) assms(3) have "ss = map sh ds" by (auto simp: link_inv_def accepted_status_def)
  moreover from inv(2) ds obtain d where "d \<in> set ds" "d \<in> known_digests ?s"
    by (auto simp: live_inv_def)
  ultimately show ?thesis using ds inv(3) by (auto simp: flight_inv_def)
qed

lemma demo_accepted:
  "hm_get (statuses (actor_run c demo_show (\<lambda>bs. bs) demo_cfg [demo_submit ''a'' [1, 2]])) ''a'' =
    Some (BatchAccepted [demo_show [1], demo_show [2]])"
  by (simp add: actor_run_def demo_submit_def handle_submit_def actor_new_def remember_status_def
      total_bytes_for_def size_demo_tx demo_cfg_def max_status_entries_def watch_batch_def
      push_waiter_def accepted_status_def)

theorem accepted_is_in_flight_witness:
  "\<exists>d. d \<in> set (flight (pool (actor_run demo_env demo_show (\<lambda>bs. bs) demo_cfg [demo_submit ''a'' [1, 2]]))
    (proposed (actor_run demo_env demo_show (\<lambda>bs. bs) demo_cfg [demo_submit ''a'' [1, 2]])))"
  using accepted_is_in_flight [OF hash_order_id _ demo_accepted [of demo_env]] by auto

text \<open>A proposal takes a prefix of the pool in submission order: it is empty only when the pool is,
  it stays within \<open>max_propose_bytes\<close> unless it is a single entry, it stops only when the next
  entry would not fit, and what it takes is remembered as proposed at the requested height.\<close>

theorem propose_takes_prefix:
  assumes "hash_order it" "list_all message_ok ms"
    and "handle c sh it cfg (Propose h w) (actor_run c sh it cfg ms) = (s', e)"
  shows "\<exists>taken. pool (actor_run c sh it cfg ms) = taken @ pool s' \<and>
    e = [SendBatch w (concat (map pe_transactions taken))] \<and>
    proposed s' = proposed (actor_run c sh it cfg ms) @
      map (\<lambda>x. \<lparr>pb_height = h, pb_digests = map message_digest (pe_transactions x)\<rparr>) taken \<and>
    (pool (actor_run c sh it cfg ms) \<noteq> [] \<longrightarrow> taken \<noteq> []) \<and>
    (sum_list (map pe_total_bytes taken) \<le> max_propose_bytes cfg \<or> length taken = 1) \<and>
    (pool s' \<noteq> [] \<longrightarrow>
      max_propose_bytes cfg < sum_list (map pe_total_bytes taken) + pe_total_bytes (hd (pool s')))"
  using handle_propose_props(2) [OF actor_run_inv [OF assms(1,2)], of cfg h w c sh s' e] assms(3) by simp

theorem propose_takes_prefix_witness:
  "\<exists>s' (taken :: pool_entry list). handle demo_env demo_show (\<lambda>bs. bs) demo_cfg (Propose 5 8)
      (actor_run demo_env demo_show (\<lambda>bs. bs) demo_cfg [demo_submit ''a'' [1, 2]]) =
    (s', [SendBatch 8 (concat (map pe_transactions taken))])"
proof -
  obtain s' e where h: "handle demo_env demo_show (\<lambda>bs. bs) demo_cfg (Propose 5 8)
      (actor_run demo_env demo_show (\<lambda>bs. bs) demo_cfg [demo_submit ''a'' [1, 2]]) = (s', e)"
    by (metis prod.exhaust)
  have "list_all message_ok [demo_submit ''a'' [1, 2]]" by simp
  from propose_takes_prefix [OF hash_order_id this h] obtain taken :: "pool_entry list" where
    "e = [SendBatch 8 (concat (map pe_transactions taken))]" by blast
  with h show ?thesis by blast
qed

text \<open>C18: Reporting a finalized block settles every proposed batch that it includes or that has
  waited \<open>drop_grace_blocks\<close>, and answers the clients: each tracked batch either keeps its status
  and its waiting clients, or gets a terminal status computed from the verdicts of this block and
  the outcomes recorded earlier, and every client waiting for it receives that status; no waiting
  client is dropped without an answer.\<close>

theorem report_answers_waiters:
  assumes "hash_order it" "list_all message_ok ms"
    and "handle c sh it cfg (ReportBlock block ack) (actor_run c sh it cfg ms) = (s', e)"
  shows "(\<forall>b. keeps (actor_run c sh it cfg ms) s' b \<or>
      resolves sh (verdict (h_height (b_header (sealed_inner block)))
          (finalized_digests c (b_body (sealed_inner block))))
        (digest_outcomes (actor_run c sh it cfg ms)) (actor_run c sh it cfg ms) e s' b) \<and>
    (\<forall>w. DropTx w \<notin> set e) \<and> Acknowledge ack \<in> set e \<and>
    proposed s' = filter (unsettled cfg (h_height (b_header (sealed_inner block)))
      (finalized_digests c (b_body (sealed_inner block)))) (proposed (actor_run c sh it cfg ms))"
proof -
  have r: "handle_report_block c sh it cfg block ack (actor_run c sh it cfg ms) = (s', e)"
    using assms(3) by simp
  note P = handle_report_block_props [OF assms(1) actor_run_inv [OF assms(1,2)] r]
  have "Acknowledge ack \<in> set e"
    using r by (auto simp: handle_report_block_def Let_def split: prod.splits)
  with P(2,4) show ?thesis unfolding progress_def by blast
qed

theorem report_answers_waiters_witness:
  "\<exists>s' e. handle demo_env demo_show (\<lambda>bs. bs) demo_cfg (ReportBlock (demo_block 6 [1]) 9)
      (actor_run demo_env demo_show (\<lambda>bs. bs) demo_cfg [demo_submit ''a'' [1, 2], Propose 6 8]) = (s', e) \<and>
    (\<forall>w. DropTx w \<notin> set e) \<and> Acknowledge 9 \<in> set e"
proof -
  obtain s' e where h: "handle demo_env demo_show (\<lambda>bs. bs) demo_cfg (ReportBlock (demo_block 6 [1]) 9)
      (actor_run demo_env demo_show (\<lambda>bs. bs) demo_cfg [demo_submit ''a'' [1, 2], Propose 6 8]) = (s', e)"
    by (metis prod.exhaust)
  have "list_all message_ok [demo_submit ''a'' [1, 2], Propose 6 8]" by simp
  from report_answers_waiters [OF hash_order_id this h] h show ?thesis by blast
qed

text \<open>C19: Everything resolves: when the pool is drained and a block is reported that includes or
  outlasts every proposed batch, no batch is left accepted and no client is left waiting.\<close>

theorem drained_pool_resolves:
  assumes "hash_order it" "list_all message_ok ms" "pool (actor_run c sh it cfg ms) = []"
    and "\<forall>batch \<in> set (proposed (actor_run c sh it cfg ms)).
      (\<exists>d \<in> set (pb_digests batch). d \<in> finalized_digests c (b_body (sealed_inner block))) \<or>
      pb_height batch + drop_grace_blocks cfg \<le> h_height (b_header (sealed_inner block))"
    and "handle c sh it cfg (ReportBlock block ack) (actor_run c sh it cfg ms) = (s', e)"
  shows "known_digests s' = {} \<and> pending_waiters s' = Map.empty \<and>
    (\<forall>b ss. hm_get (statuses s') b \<noteq> Some (BatchAccepted ss))"
proof -
  have r: "handle_report_block c sh it cfg block ack (actor_run c sh it cfg ms) = (s', e)"
    using assms(5) by simp
  note P = handle_report_block_props [OF assms(1) actor_run_inv [OF assms(1,2)] r]
  have "proposed s' = []"
    using assms(4) unfolding P(2) by (auto simp: filter_empty_conv unsettled_def not_less)
  then have k: "known_digests s' = {}"
    using P(1,3) assms(3) by (simp add: actor_inv_def flight_inv_def flight_def)
  have none: "batch_digests s' b = None" for b
    using P(1) k by (cases "batch_digests s' b") (auto simp: actor_inv_def live_inv_def)
  then have "dom (pending_waiters s') \<subseteq> {}"
    using P(1) unfolding actor_inv_def book_inv_def watch_inv_def by (metis dom_eq_empty_conv ext)
  then have "pending_waiters s' = Map.empty" by simp
  moreover have "hm_get (statuses s') b \<noteq> Some (BatchAccepted ss)" for b ss
    using P(1) none unfolding actor_inv_def book_inv_def link_inv_def by blast
  ultimately show ?thesis using k by blast
qed

lemma demo_proposed:
  "pool (actor_run c demo_show (\<lambda>bs. bs) demo_cfg [demo_submit ''a'' [1, 2], Propose 6 8]) = [] \<and>
    proposed (actor_run c demo_show (\<lambda>bs. bs) demo_cfg [demo_submit ''a'' [1, 2], Propose 6 8]) =
      [\<lparr>pb_height = 6, pb_digests = [[1], [2]]\<rparr>]"
  by (simp add: actor_run_def demo_submit_def handle_submit_def actor_new_def remember_status_def
      total_bytes_for_def size_demo_tx demo_cfg_def max_status_entries_def watch_batch_def
      push_waiter_def accepted_status_def handle_propose_def)

theorem drained_pool_resolves_witness:
  "\<exists>s' e. handle demo_env demo_show (\<lambda>bs. bs) demo_cfg (ReportBlock (demo_block 6 [1]) 9)
      (actor_run demo_env demo_show (\<lambda>bs. bs) demo_cfg [demo_submit ''a'' [1, 2], Propose 6 8]) = (s', e) \<and>
    known_digests s' = {}"
proof -
  let ?ms = "[demo_submit ''a'' [1, 2], Propose 6 8]"
  obtain s' e where h: "handle demo_env demo_show (\<lambda>bs. bs) demo_cfg (ReportBlock (demo_block 6 [1]) 9)
      (actor_run demo_env demo_show (\<lambda>bs. bs) demo_cfg ?ms) = (s', e)"
    by (metis prod.exhaust)
  have "list_all message_ok ?ms" by simp
  from drained_pool_resolves [OF hash_order_id this _ _ h] h show ?thesis
    by (simp only: demo_proposed finalized_demo_block) simp
qed

text \<open>Snapshots of a run in which a finalized transaction is submitted again: both batches proposed,
  the first block reported, the resubmission proposed, the second block reported.\<close>

definition rerun_1 :: actor where
  "rerun_1 = actor_new\<lparr>
     proposed := [\<lparr>pb_height = 1, pb_digests = [[1]]\<rparr>, \<lparr>pb_height = 1, pb_digests = [[2]]\<rparr>],
     statuses := [(''b'', BatchAccepted [demo_show [1]]), (''a'', BatchAccepted [demo_show [1], demo_show [2]])],
     status_order := [''b'', ''a''], batch_digests := [''b'' \<mapsto> [[1]], ''a'' \<mapsto> [[1], [2]]],
     digest_watchers := [[1] \<mapsto> [''b'', ''a''], [2] \<mapsto> [''a'']],
     pending_waiters := [''b'' \<mapsto> [7], ''a'' \<mapsto> [7]], known_digests := {[2], [1]}\<rparr>"

definition rerun_2 :: actor where
  "rerun_2 = actor_new\<lparr>
     proposed := [\<lparr>pb_height = 1, pb_digests = [[2]]\<rparr>],
     statuses := [(''b'', BatchFinalized 1 [demo_show [1]]), (''a'', BatchAccepted [demo_show [1], demo_show [2]])],
     status_order := [''b'', ''a''], batch_digests := [''a'' \<mapsto> [[1], [2]]],
     digest_watchers := [[1] \<mapsto> [''a''], [2] \<mapsto> [''a'']], digest_outcomes := [[1] \<mapsto> OutFinalized 1],
     pending_waiters := [''a'' \<mapsto> [7]], known_digests := {[2]}, highest_consensus_round := 1\<rparr>"

definition rerun_3 :: actor where
  "rerun_3 = rerun_2\<lparr>
     proposed := [\<lparr>pb_height = 1, pb_digests = [[2]]\<rparr>, \<lparr>pb_height = 2, pb_digests = [[1], [3]]\<rparr>],
     statuses := [(''b'', BatchFinalized 1 [demo_show [1]]), (''a'', BatchAccepted [demo_show [1], demo_show [2]]),
       (''c'', BatchAccepted [demo_show [1], demo_show [3]])],
     status_order := [''b'', ''a'', ''c''], batch_digests := [''a'' \<mapsto> [[1], [2]], ''c'' \<mapsto> [[1], [3]]],
     digest_watchers := [[1] \<mapsto> [''a'', ''c''], [2] \<mapsto> [''a''], [3] \<mapsto> [''c'']],
     pending_waiters := [''a'' \<mapsto> [7], ''c'' \<mapsto> [7]], known_digests := {[3], [1], [2]}\<rparr>"

definition rerun_4 :: actor where
  "rerun_4 = rerun_2\<lparr>
     statuses := [(''b'', BatchFinalized 1 [demo_show [1]]), (''a'', BatchAccepted [demo_show [1], demo_show [2]]),
       (''c'', BatchPartiallyFinalized 2 [demo_show [3]] [demo_show [1]])],
     status_order := [''b'', ''a'', ''c''], digest_outcomes := [[1] \<mapsto> OutDropped]\<rparr>"

lemmas rerun_eval = demo_submit_def handle_submit_def remember_status_def total_bytes_for_def size_demo_tx
  demo_cfg_def max_status_entries_def watch_batch_def push_waiter_def accepted_status_def waiters_for_def
  actor_new_def handle_propose_def handle_report_block_def finalized_demo_block Let_def
  resolve_batch_if_terminal_def batch_status_from_outcomes_def send_pending_waiters_def forget_batch_def
  rotation_round_def

lemma demo_block_header [simp]:
  "h_height (b_header (sealed_inner (demo_block h ks))) = h"
  "ctx_epoch (h_context (b_header (sealed_inner (demo_block h ks)))) = 0"
  "ctx_view (h_context (b_header (sealed_inner (demo_block h ks)))) = 1"
  by (simp_all add: demo_block_def block_new_def sealed_new_unchecked_def demo_header_def)

abbreviation rerun_step :: "message \<Rightarrow> actor \<Rightarrow> actor" where
  "rerun_step m s \<equiv> fst (handle demo_env demo_show (\<lambda>bs. bs) demo_cfg m s)"

lemma rerun_steps:
  "rerun_step (Propose 1 8) (rerun_step (demo_submit ''a'' [1, 2]) (rerun_step (demo_submit ''b'' [1]) actor_new)) =
    rerun_1"
  "rerun_step (ReportBlock (demo_block 1 [1]) 9) rerun_1 = rerun_2"
  "rerun_step (Propose 2 8) (rerun_step (demo_submit ''c'' [1, 3]) rerun_2) = rerun_3"
  "rerun_step (ReportBlock (demo_block 2 [3]) 9) rerun_3 = rerun_4"
  subgoal by (simp add: rerun_eval rerun_1_def)
  subgoal by (simp add: rerun_eval word_le_nat_alt rerun_1_def rerun_2_def) (auto simp: fun_eq_iff)
  subgoal by (simp add: rerun_eval word_le_nat_alt rerun_2_def rerun_3_def) (auto simp: fun_eq_iff)
  subgoal by (simp add: rerun_eval word_le_nat_alt rerun_2_def rerun_3_def rerun_4_def) (auto simp: fun_eq_iff)
  done


end
