(* ===== verification/Http.thy ===== *)
theory Http
  imports Mempool
begin

text \<open>
  The HTTP side of the mempool: the mailbox (\<open>crates/mempool/src/webserver/mailbox.rs\<close>), the
  handlers (\<open>http.rs\<close>) and the account reader of the validator (\<open>state_reader.rs\<close>). A handler
  is a function from the request and what its awaits produced to the status code and the value
  that is serialized. What the environment decides is an argument: the outcome of sending on a
  bounded channel, what a one-shot receiver yields, whether a blocking task died. The record
  \<open>http_lib\<close> holds the library functions the handlers call.
  The lemmas: a batch that passes holds valid transactions within the limits, every well-formed
  batch within the limits passes (the count limit derived from the body length never rejects
  one), and what reaches the mailbox is what the actor assumes.
\<close>

section \<open>Mailbox\<close>

datatype send_outcome = Sent | Full | Closed

datatype feedback = FeedbackOk | FeedbackBackoff | FeedbackClosed

definition try_submit ::
    "batch_id \<Rightarrow> digest list \<Rightarrow> signed_transaction list \<Rightarrow> nat \<Rightarrow> sender \<Rightarrow> send_outcome \<Rightarrow> message option" where
  "try_submit b ds ts nbytes result_tx out =
    (if out = Sent then Some (Submit b ds ts nbytes (Some result_tx) None) else None)"

definition try_ingest ::
    "batch_id \<Rightarrow> digest list \<Rightarrow> signed_transaction list \<Rightarrow> nat \<Rightarrow> sender \<Rightarrow> send_outcome \<Rightarrow> message option" where
  "try_ingest b ds ts nbytes result_tx out =
    (if out = Sent then Some (Submit b ds ts nbytes None (Some result_tx)) else None)"

definition mailbox_propose :: "header \<Rightarrow> sender \<Rightarrow> message" where
  "mailbox_propose parent response = Propose (h_height parent + 1) response"

text \<open>A full channel hands the message to a task that waits for room: it is still delivered.\<close>

definition mailbox_report :: "message \<Rightarrow> send_outcome \<Rightarrow> feedback \<times> message option" where
  "mailbox_report activity out =
    (case out of
       Sent \<Rightarrow> (FeedbackOk, Some activity)
     | Full \<Rightarrow> (FeedbackBackoff, Some activity)
     | Closed \<Rightarrow> (FeedbackClosed, None))"

section \<open>Requests\<close>

datatype status_code =
    OK_200 | ACCEPTED_202 | BAD_REQUEST_400 | NOT_FOUND_404 | PAYLOAD_TOO_LARGE_413
  | INTERNAL_SERVER_ERROR_500 | SERVICE_UNAVAILABLE_503

record nonce_response =
  nr_base :: u64
  nr_bitmap :: u64

record account_response =
  ar_balance :: u64
  ar_nonce :: nonce_response

datatype body =
    EmptyBody
  | TxBody tx_status
  | BatchBody batch_status
  | IngestBody "string list"
  | RoundBody u64
  | AccountBody account_response

record http_lib =
  decode_vec :: "nat \<times> nat \<Rightarrow> signed_transaction reader \<Rightarrow> bytes
    \<Rightarrow> (codec_error, signed_transaction list) result"
  digest_to_string :: "digest \<Rightarrow> string"
  from_hex :: "string \<Rightarrow> bytes option"

record app_state =
  as_namespace :: bytes
  max_batch_bytes :: nat
  account_reader :: "(tx_public_key \<Rightarrow> account option) option"

definition max_batch_length_prefix_bytes :: nat where
  "max_batch_length_prefix_bytes = 5"

definition min_batch_length_prefix_bytes :: nat where
  "min_batch_length_prefix_bytes = 1"

definition min_u64_varint_bytes :: nat where
  "min_u64_varint_bytes = 1"

definition max_request_bytes :: "nat \<Rightarrow> nat" where
  "max_request_bytes n = saturating_add_usize n max_batch_length_prefix_bytes"

definition min_signed_transaction_bytes :: nat where
  "min_signed_transaction_bytes =
    public_key_size + public_key_size + min_u64_varint_bytes + min_u64_varint_bytes + signature_min_size"

definition max_transaction_count :: "nat \<Rightarrow> nat option" where
  "max_transaction_count body_len =
    (let payload_len = body_len - min_batch_length_prefix_bytes;
         n = payload_len div min_signed_transaction_bytes in
     if 0 < n then Some n else None)"

record verified_batch =
  vb_transactions :: "signed_transaction list"
  vb_digests :: "digest list"
  vb_total_bytes :: nat

text \<open>\<open>died\<close> says that the blocking task panicked; \<open>rng\<close> is the state of \<open>OsRng\<close>.\<close>

definition verify_body ::
    "'x tx_env_scheme \<Rightarrow> http_lib \<Rightarrow> app_state \<Rightarrow> nat \<Rightarrow> bool \<Rightarrow> bytes \<Rightarrow> (status_code, verified_batch) result" where
  "verify_body c lib st rng died body =
    (if max_request_bytes (max_batch_bytes st) < length body then Err PAYLOAD_TOO_LARGE_413
     else case max_transaction_count (length body) of
       None \<Rightarrow> Err BAD_REQUEST_400
     | Some max_txs \<Rightarrow>
         (case decode_vec lib (1, max_txs) (signed_transaction_read c) body of
            Err _ \<Rightarrow> Err BAD_REQUEST_400
          | Ok txs \<Rightarrow>
              let total_bytes = sum_list (map signed_transaction_encode_size txs) in
              if max_batch_bytes st < total_bytes then Err PAYLOAD_TOO_LARGE_413
              else if died then Err INTERNAL_SERVER_ERROR_500
              else
                (case verify_transaction_chunks c (as_namespace st) rng (map lazy_new txs) of
                   None \<Rightarrow> Err BAD_REQUEST_400
                 | Some transactions \<Rightarrow>
                     Ok \<lparr>vb_transactions = transactions, vb_digests = map message_digest transactions,
                       vb_total_bytes = total_bytes\<rparr>)))"

section \<open>Handlers\<close>

text \<open>\<open>recv\<close> is what the one-shot receiver of the posted message yields, \<open>None\<close> when the sender is
  dropped. The handlers return the message they posted besides the response.\<close>

definition submit_batch ::
    "'x tx_env_scheme \<Rightarrow> http_lib \<Rightarrow> app_state \<Rightarrow> nat \<Rightarrow> bool \<Rightarrow> bytes \<Rightarrow> sender \<Rightarrow> send_outcome
      \<Rightarrow> tx_status option \<Rightarrow> message option \<times> (status_code \<times> body)" where
  "submit_batch c lib st rng died body result_tx out recv =
    (let b = digest_to_string lib (hash c body) in
     case verify_body c lib st rng died body of
       Err code \<Rightarrow> (None, (code, EmptyBody))
     | Ok batch \<Rightarrow>
         (case try_submit b (vb_digests batch) (vb_transactions batch) (vb_total_bytes batch) result_tx out of
            None \<Rightarrow> (None, (SERVICE_UNAVAILABLE_503, EmptyBody))
          | Some m \<Rightarrow>
              (Some m,
               case recv of
                 None \<Rightarrow> (INTERNAL_SERVER_ERROR_500, EmptyBody)
               | Some status \<Rightarrow> (OK_200, TxBody status))))"

definition ingest_batch ::
    "'x tx_env_scheme \<Rightarrow> http_lib \<Rightarrow> app_state \<Rightarrow> nat \<Rightarrow> bool \<Rightarrow> bytes \<Rightarrow> sender \<Rightarrow> send_outcome
      \<Rightarrow> ingest_status option \<Rightarrow> message option \<times> (status_code \<times> body)" where
  "ingest_batch c lib st rng died body result_tx out recv =
    (let b = digest_to_string lib (hash c body) in
     case verify_body c lib st rng died body of
       Err code \<Rightarrow> (None, (code, EmptyBody))
     | Ok batch \<Rightarrow>
         (let digests = map (digest_to_string lib) (vb_digests batch) in
          case try_ingest b (vb_digests batch) (vb_transactions batch) (vb_total_bytes batch) result_tx out of
            None \<Rightarrow> (None, (SERVICE_UNAVAILABLE_503, EmptyBody))
          | Some m \<Rightarrow>
              (Some m,
               case recv of
                 Some IngestAccepted \<Rightarrow> (ACCEPTED_202, IngestBody digests)
               | Some IngestDropped \<Rightarrow> (SERVICE_UNAVAILABLE_503, EmptyBody)
               | None \<Rightarrow> (INTERNAL_SERVER_ERROR_500, EmptyBody))))"

text \<open>The reply of the actor; the outer \<open>None\<close> is a closed mailbox.\<close>

definition fetch_status :: "batch_status option option \<Rightarrow> status_code \<times> body" where
  "fetch_status reply =
    (case Option.bind reply id of
       None \<Rightarrow> (NOT_FOUND_404, EmptyBody)
     | Some status \<Rightarrow> (OK_200, BatchBody status))"

definition fetch_consensus_round :: "u64 option \<Rightarrow> status_code \<times> body" where
  "fetch_consensus_round reply =
    (case reply of
       None \<Rightarrow> (SERVICE_UNAVAILABLE_503, EmptyBody)
     | Some round \<Rightarrow> (OK_200, RoundBody round))"

definition nonce_response_from :: "nonce \<Rightarrow> nonce_response" where
  "nonce_response_from n = \<lparr>nr_base = base n, nr_bitmap = bitmap n\<rparr>"

definition account_response_from :: "account \<Rightarrow> account_response" where
  "account_response_from a = \<lparr>ar_balance = balance a, ar_nonce = nonce_response_from (acct_nonce a)\<rparr>"

definition fetch_account :: "'x crypto_scheme \<Rightarrow> http_lib \<Rightarrow> app_state \<Rightarrow> string \<Rightarrow> status_code \<times> body" where
  "fetch_account c lib st public_key =
    (case from_hex lib public_key of
       None \<Rightarrow> (BAD_REQUEST_400, EmptyBody)
     | Some bytes \<Rightarrow>
         if length bytes \<noteq> public_key_size then (BAD_REQUEST_400, EmptyBody)
         else case pk_read c bytes of
           Err _ \<Rightarrow> (BAD_REQUEST_400, EmptyBody)
         | Ok (pk, rest) \<Rightarrow>
             if rest \<noteq> [] then (BAD_REQUEST_400, EmptyBody)
             else case account_reader st of
               None \<Rightarrow> (SERVICE_UNAVAILABLE_503, EmptyBody)
             | Some reader \<Rightarrow>
                 (case reader pk of
                    None \<Rightarrow> (NOT_FOUND_404, EmptyBody)
                  | Some a \<Rightarrow> (OK_200, AccountBody (account_response_from a))))"

text \<open>The reader of the validator: a database error reads as an absent account. The outer \<open>None\<close> is
  the panic of \<open>AccountKey::from_public_key\<close> on a malformed key.\<close>

definition state_db_reader_get ::
    "'x crypto_scheme \<Rightarrow> (account_key \<Rightarrow> ('e, account option) result) \<Rightarrow> tx_public_key
      \<Rightarrow> account option option" where
  "state_db_reader_get c db pk =
    map_option (\<lambda>k. case db k of Err _ \<Rightarrow> None | Ok a \<Rightarrow> a) (account_key_from_public_key c pk)"

section \<open>What the library promises\<close>

text \<open>\<open>Vec::decode_cfg\<close> reads a length in the configured range, that many items, and refuses
  trailing bytes.\<close>

definition http_lib_ok :: "'x tx_env_scheme \<Rightarrow> http_lib \<Rightarrow> bool" where
  "http_lib_ok c lib \<longleftrightarrow>
    (\<forall>lo hi bs ts. decode_vec lib (lo, hi) (signed_transaction_read c) bs = Ok ts \<longleftrightarrow>
      (\<exists>rest. read_len c lo hi bs = Ok (length ts, rest) \<and>
        read_many (signed_transaction_read c) (length ts) rest = Ok (ts, [])))"

definition demo_lib :: http_lib where
  "demo_lib =
    \<lparr>decode_vec = (\<lambda>(lo, hi) rd bs.
       bind_res (read_len demo_env lo hi bs) (\<lambda>(n, rest).
       bind_res (read_many rd n rest) (\<lambda>(ts, rest).
         if rest = [] then Ok ts else Err (ExtraData (length rest))))),
     digest_to_string = demo_show, from_hex = (\<lambda>_. None)\<rparr>"

lemma read_many_length: "read_many rd n bs = Ok (xs, rest) \<Longrightarrow> length xs = n"
  by (induction n arbitrary: bs xs) (auto simp: bind_res_Ok_iff)

lemma http_lib_ok_demo: "http_lib_ok demo_env demo_lib"
  by (auto simp: http_lib_ok_def demo_lib_def bind_res_Ok_iff dest: read_many_length split: if_splits)

section \<open>Verified batches\<close>

lemma read_many_canonical:
  assumes "tx_env_ok c"
  shows "read_many (signed_transaction_read c) n bs = Ok (ts, rest) \<Longrightarrow>
    list_all (signed_transaction_wf c) ts \<and> bs = concat (map (signed_transaction_write c) ts) @ rest"
proof (induction n arbitrary: bs ts)
  case 0
  then show ?case by simp
next
  case (Suc n)
  from Suc.prems obtain t bs' ts' where
    r: "signed_transaction_read c bs = Ok (t, bs')" "read_many (signed_transaction_read c) n bs' = Ok (ts', rest)"
      "ts = t # ts'"
    by (auto simp: bind_res_Ok_iff)
  from signed_txs.dec_canonical [OF assms r(1)] Suc.IH [OF r(2)] r(3) show ?case by simp
qed

lemma verify_body_Ok:
  assumes "tx_env_ok c" "http_lib_ok c lib" "verify_body c lib st rng died body = Ok batch"
  shows "vb_transactions batch \<noteq> [] \<and> vb_digests batch = map message_digest (vb_transactions batch) \<and>
    vb_total_bytes batch = total_bytes_for (vb_transactions batch) \<and>
    vb_total_bytes batch \<le> max_batch_bytes st \<and>
    list_all (signed_transaction_wf c) (vb_transactions batch) \<and>
    list_all (\<lambda>t. lazy_valid c (as_namespace st) (lazy_new t)) (vb_transactions batch)"
proof -
  from assms(3) obtain m txs ts where
    d: "decode_vec lib (1, m) (signed_transaction_read c) body = Ok txs"
    and n: "sum_list (map signed_transaction_encode_size txs) \<le> max_batch_bytes st"
    and v: "verify_transaction_chunks c (as_namespace st) rng (map lazy_new txs) = Some ts"
    and b: "batch = \<lparr>vb_transactions = ts, vb_digests = map message_digest ts,
      vb_total_bytes = sum_list (map signed_transaction_encode_size txs)\<rparr>"
    by (auto simp: verify_body_def Let_def split: if_splits option.splits result.splits)
  from d assms(2) obtain rest where l: "read_len c 1 m body = Ok (length txs, rest)"
    "read_many (signed_transaction_read c) (length txs) rest = Ok (txs, [])"
    unfolding http_lib_ok_def by blast
  have "codec_ok c" using assms(1) by simp
  with l(1) have "1 \<le> length txs" unfolding codec_ok_def len_law_def by blast
  moreover have "list_all (lazy_valid c (as_namespace st)) (map lazy_new txs) \<and> ts = txs"
    using v unfolding verify_transaction_chunks_eq [OF assms(1)]
    by (auto simp: o_def split: if_splits)
  ultimately show ?thesis
    using b n read_many_canonical [OF assms(1) l(2)]
    by (auto simp: total_bytes_for_def list.pred_map o_def)
qed

text \<open>The bound on the number of transactions that is derived from the length of the body admits
  every batch: an encoded transaction is at least 147 bytes, the bound divides by 135.\<close>

lemma max_transaction_count_admits:
  assumes "tx_env_ok c" "list_all (signed_transaction_wf c) ts" "ts \<noteq> []" "1 \<le> k"
  shows "\<exists>m. max_transaction_count (k + length (concat (map (signed_transaction_write c) ts))) = Some m \<and>
    length ts \<le> m"
proof -
  have "length ts * min_signed_transaction_bytes \<le> length (concat (map (signed_transaction_write c) ts))"
    using assms(2)
  proof (induction ts)
    case (Cons t ts)
    have "min_signed_transaction_bytes \<le> length (signed_transaction_write c t)"
      using signed_transaction_size [OF assms(1), of t] Cons.prems
      by (simp add: min_signed_transaction_bytes_def transaction_size_def public_key_size_def
          account_key_size_def min_u64_varint_bytes_def)
    with Cons show ?case by simp
  qed simp
  moreover have "0 < min_signed_transaction_bytes" by (simp add: min_signed_transaction_bytes_def min_u64_varint_bytes_def)
  moreover define N where "N = length (concat (map (signed_transaction_write c) ts))"
  ultimately have le: "length ts \<le> (k + N - 1) div min_signed_transaction_bytes"
    using assms(4) by (simp add: less_eq_div_iff_mult_less_eq)
  moreover have "0 < length ts" using assms(3) by simp
  ultimately have "0 < (k + N - 1) div min_signed_transaction_bytes" by (rule less_le_trans [rotated])
  with le show ?thesis
    unfolding N_def [symmetric] max_transaction_count_def Let_def min_batch_length_prefix_bytes_def by simp
qed

lemma verify_body_complete:
  assumes "tx_env_ok c" "http_lib_ok c lib" "list_all (signed_transaction_wf c) ts" "ts \<noteq> []"
    and "length ts < 2 ^ 32" "total_bytes_for ts \<le> max_batch_bytes st"
    and "list_all (\<lambda>t. lazy_valid c (as_namespace st) (lazy_new t)) ts"
    and body: "body = write_len c (length ts) @ concat (map (signed_transaction_write c) ts)"
    and "length body \<le> usize_max"
  shows "verify_body c lib st rng False body =
    Ok \<lparr>vb_transactions = ts, vb_digests = map message_digest ts, vb_total_bytes = total_bytes_for ts\<rparr>"
proof -
  have "codec_ok c" using assms(1) by simp
  then have len: "len_law c" by (simp add: codec_ok_def)
  have size: "length (concat (map (signed_transaction_write c) ts)) = total_bytes_for ts"
    using assms(3) signed_transaction_size(1) [OF assms(1)]
    by (induction ts) (simp_all add: total_bytes_for_def)
  have prefix: "1 \<le> length (write_len c (length ts))" "length (write_len c (length ts)) \<le> 5"
    using len assms(5) unfolding len_law_def by blast+
  obtain m where m: "max_transaction_count (length body) = Some m" "length ts \<le> m"
    using max_transaction_count_admits [OF assms(1,3,4) prefix(1)] by (auto simp: body)
  have "\<not> max_request_bytes (max_batch_bytes st) < length body"
    using assms(6,9) prefix(2) size
    by (simp add: max_request_bytes_def saturating_add_usize_def max_batch_length_prefix_bytes_def body)
  moreover have "1 \<le> length ts" using assms(4) by (simp add: Suc_le_eq)
  then have "read_len c 1 m body = Ok (length ts, concat (map (signed_transaction_write c) ts))"
    using len assms(5) m(2) unfolding len_law_def body by blast
  moreover have "read_many (signed_transaction_read c) (length ts)
      (concat (map (signed_transaction_write c) ts)) = Ok (ts, [])"
    using signed_txs.read_many_enc [OF assms(1,3), of "[]"] by simp
  ultimately have "decode_vec lib (1, m) (signed_transaction_read c) body = Ok ts"
    using assms(2) unfolding http_lib_ok_def by blast
  moreover have "verify_transaction_chunks c (as_namespace st) rng (map lazy_new ts) = Some ts"
    using assms(7) by (simp add: verify_transaction_chunks_eq [OF assms(1)] list.pred_map o_def)
  ultimately show ?thesis
    using m(1) assms(6) \<open>\<not> max_request_bytes (max_batch_bytes st) < length body\<close>
    by (simp add: verify_body_def Let_def total_bytes_for_def)
qed

section \<open>Posted messages\<close>

text \<open>A submission is served when one of the two handlers posted it.\<close>

fun served :: "'x tx_env_scheme \<Rightarrow> http_lib \<Rightarrow> app_state \<Rightarrow> message \<Rightarrow> bool" where
  "served c lib st (Submit b ds ts n r i) \<longleftrightarrow>
    (\<exists>rng died body w out recv irecv resp.
      submit_batch c lib st rng died body w out recv = (Some (Submit b ds ts n r i), resp) \<or>
      ingest_batch c lib st rng died body w out irecv = (Some (Submit b ds ts n r i), resp))"
| "served c lib st _ \<longleftrightarrow> True"

lemma posted_batch:
  assumes "submit_batch c lib st rng died body w out recv = (Some m, resp) \<or>
    ingest_batch c lib st rng died body w out irecv = (Some m, resp)"
  shows "\<exists>batch r i. verify_body c lib st rng died body = Ok batch \<and>
    m = Submit (digest_to_string lib (hash c body)) (vb_digests batch) (vb_transactions batch)
      (vb_total_bytes batch) r i"
  using assms
  by (auto simp: submit_batch_def ingest_batch_def try_submit_def try_ingest_def Let_def
      split: result.splits option.splits if_splits)

lemma served_ok:
  assumes "tx_env_ok c" "http_lib_ok c lib" "served c lib st m"
  shows "message_ok m"
    and "submits (\<lambda>t. lazy_valid c (as_namespace st) (lazy_new t)) (max_batch_bytes st) m"
proof -
  have "message_ok m \<and> submits (\<lambda>t. lazy_valid c (as_namespace st) (lazy_new t)) (max_batch_bytes st) m"
  proof (cases m)
    case (Submit b ds ts n r i)
    from assms(3) [unfolded Submit served.simps, folded Submit] obtain rng died body w out recv irecv resp where
      "submit_batch c lib st rng died body w out recv = (Some m, resp) \<or>
       ingest_batch c lib st rng died body w out irecv = (Some m, resp)"
      by blast
    from posted_batch [OF this] obtain batch r' i' where b: "verify_body c lib st rng died body = Ok batch"
      "m = Submit (digest_to_string lib (hash c body)) (vb_digests batch) (vb_transactions batch)
        (vb_total_bytes batch) r' i'" by blast
    from verify_body_Ok [OF assms(1,2) b(1)] b(2) show ?thesis by simp
  qed simp_all
  then show "message_ok m"
    "submits (\<lambda>t. lazy_valid c (as_namespace st) (lazy_new t)) (max_batch_bytes st) m" by blast+
qed

section \<open>Properties\<close>

text \<open>C21: A request body that passes verification is a non-empty batch of well-formed transactions
  whose signatures are valid in the namespace; the digests are theirs, and their encoded size is
  within \<open>max_batch_bytes\<close>.\<close>

theorem verified_batch_sound:
  assumes "tx_env_ok c" "http_lib_ok c lib" "verify_body c lib st rng died body = Ok batch"
  shows "vb_transactions batch \<noteq> [] \<and> vb_digests batch = map message_digest (vb_transactions batch) \<and>
    vb_total_bytes batch = total_bytes_for (vb_transactions batch) \<and>
    vb_total_bytes batch \<le> max_batch_bytes st \<and>
    list_all (signed_transaction_wf c) (vb_transactions batch) \<and>
    list_all (\<lambda>t. lazy_valid c (as_namespace st) (lazy_new t)) (vb_transactions batch)"
  using assms by (rule verify_body_Ok)

definition demo_app :: app_state where
  "demo_app = \<lparr>as_namespace = [], max_batch_bytes = 400, account_reader = None\<rparr>"

definition demo_body :: bytes where
  "demo_body = write_len demo_env 1 @ concat (map (signed_transaction_write demo_env) [demo_signed 7 8 50 0])"

lemma demo_total: "total_bytes_for [demo_signed 7 8 50 0] = 147"
  by (simp add: total_bytes_for_def signed_transaction_encode_size_def sealed_encode_size_def
      transaction_size_def public_key_size_def account_key_size_def sig_encode_size_def demo_signed_def
      transaction_seal_and_sign_def signed_transaction_new_unchecked_def Let_def sig_ed25519_def)

lemma demo_body_size: "length demo_body \<le> usize_max"
proof -
  have l: "length (signed_transaction_write demo_env (demo_signed 7 8 50 0)) = 147"
    using signed_transaction_size(1) [OF tx_env_ok_demo demo_signed_wf, of 50 7 8 0] demo_total
    by (simp add: total_bytes_for_def)
  have "codec_ok demo_env" by simp
  then have "length (write_len demo_env 1) \<le> 5" unfolding codec_ok_def len_law_def by simp
  then show ?thesis
    by (simp add: demo_body_def l usize_max_def del: demo_env_fields)
qed

lemma demo_body_verified:
  "verify_body demo_env demo_lib demo_app 0 False demo_body =
    Ok \<lparr>vb_transactions = [demo_signed 7 8 50 0], vb_digests = [message_digest (demo_signed 7 8 50 0)],
      vb_total_bytes = 147\<rparr>"
proof -
  have "length demo_body \<le> usize_max" by (rule demo_body_size)
  moreover have "list_all (signed_transaction_wf demo_env) [demo_signed 7 8 50 0]"
    by (simp add: demo_signed_wf)
  moreover have "list_all (\<lambda>t. lazy_valid demo_env (as_namespace demo_app) (lazy_new t)) [demo_signed 7 8 50 0]"
    by (simp add: demo_signed_valid)
  moreover have "total_bytes_for [demo_signed 7 8 50 0] \<le> max_batch_bytes demo_app"
    by (simp add: demo_total demo_app_def)
  moreover have "demo_body = write_len demo_env (length [demo_signed 7 8 50 0]) @
      concat (map (signed_transaction_write demo_env) [demo_signed 7 8 50 0])"
    by (simp only: demo_body_def list.size One_nat_def add_0)
  moreover have "length [demo_signed 7 8 50 0] < 2 ^ 32" by simp
  ultimately have "verify_body demo_env demo_lib demo_app 0 False demo_body =
    Ok \<lparr>vb_transactions = [demo_signed 7 8 50 0], vb_digests = map message_digest [demo_signed 7 8 50 0],
      vb_total_bytes = total_bytes_for [demo_signed 7 8 50 0]\<rparr>"
    by (intro verify_body_complete [OF tx_env_ok_demo http_lib_ok_demo]) (assumption | simp)+
  then show ?thesis by (simp only: demo_total list.map)
qed

theorem verified_batch_sound_witness:
  "\<exists>batch. verify_body demo_env demo_lib demo_app 0 False demo_body = Ok batch \<and>
    vb_total_bytes batch \<le> 400 \<and> vb_transactions batch \<noteq> []"
proof -
  from verified_batch_sound [OF tx_env_ok_demo http_lib_ok_demo demo_body_verified]
  have "(147 :: nat) \<le> max_batch_bytes demo_app" by simp
  then show ?thesis by (simp add: demo_body_verified)
qed

text \<open>Every honest batch is let through: a non-empty batch of fewer than \<open>2 ^ 32\<close> well-formed,
  validly signed transactions within \<open>max_batch_bytes\<close>, encoded as the endpoint expects, is
  decoded to exactly these transactions; in particular the limit on the number of transactions
  that the handler derives from the length of the body never rejects one.\<close>

theorem honest_batch_accepted:
  assumes "tx_env_ok c" "http_lib_ok c lib" "list_all (signed_transaction_wf c) ts" "ts \<noteq> []"
    and "length ts < 2 ^ 32" "total_bytes_for ts \<le> max_batch_bytes st"
    and "list_all (\<lambda>t. lazy_valid c (as_namespace st) (lazy_new t)) ts"
    and "body = write_len c (length ts) @ concat (map (signed_transaction_write c) ts)"
    and "length body \<le> usize_max"
  shows "verify_body c lib st rng False body =
    Ok \<lparr>vb_transactions = ts, vb_digests = map message_digest ts, vb_total_bytes = total_bytes_for ts\<rparr>"
  using assms by (rule verify_body_complete)

theorem honest_batch_accepted_witness:
  "verify_body demo_env demo_lib demo_app 3 False
      (write_len demo_env (length [demo_signed 7 8 50 0]) @
        concat (map (signed_transaction_write demo_env) [demo_signed 7 8 50 0])) =
    Ok \<lparr>vb_transactions = [demo_signed 7 8 50 0], vb_digests = map message_digest [demo_signed 7 8 50 0],
      vb_total_bytes = total_bytes_for [demo_signed 7 8 50 0]\<rparr>"
  by (rule honest_batch_accepted [OF tx_env_ok_demo http_lib_ok_demo _ _ _ _ _ refl])
    (use demo_body_size in \<open>simp_all add: demo_signed_wf demo_signed_valid demo_total demo_body_def
      del: demo_env_fields, simp_all add: demo_app_def\<close>)



text \<open>An account lookup returns the committed account: for the hex form of a well-formed public
  key the reader does not panic, and the answer carries the balance and nonce window that the state
  database holds under the account key of that public key, or \<open>404\<close> when it holds none.\<close>

theorem account_lookup:
  assumes "crypto_ok c" "pk_wf c pk" "from_hex lib path = Some (pk_write pk)"
    and "account_reader st = Some (\<lambda>k. the (state_db_reader_get c db k))"
  shows "\<exists>key. account_key_from_public_key c pk = Some key \<and>
    fetch_account c lib st path =
      (case (case db key of Err _ \<Rightarrow> None | Ok a \<Rightarrow> a) of
         None \<Rightarrow> (NOT_FOUND_404, EmptyBody)
       | Some a \<Rightarrow> (OK_200, AccountBody \<lparr>ar_balance = balance a,
           ar_nonce = \<lparr>nr_base = base (acct_nonce a), nr_bitmap = bitmap (acct_nonce a)\<rparr>\<rparr>))"
proof -
  obtain key where key: "account_key_from_public_key c pk = Some key"
    using account_key_of_wf [OF assms(1,2)] by simp
  then show ?thesis
    using assms(3,4) pks.enc_size [OF assms(1,2)] pks.round_trip_exact [OF assms(1,2)]
    by (simp add: fetch_account_def state_db_reader_get_def account_response_from_def nonce_response_from_def
        split: option.split result.split)
qed

theorem account_lookup_witness:
  "\<exists>key. fetch_account demo_crypto
      (demo_lib\<lparr>from_hex := (\<lambda>_. Some (pk_write (pk_ed25519 (replicate 32 7))))\<rparr>)
      (demo_app\<lparr>account_reader := Some (\<lambda>k. the (state_db_reader_get demo_crypto
        (\<lambda>_. Ok (Some account_default) :: (unit, account option) result) k))\<rparr>) ''key'' =
    (OK_200, AccountBody \<lparr>ar_balance = default_account_balance,
       ar_nonce = \<lparr>nr_base = 0, nr_bitmap = 0\<rparr>\<rparr>) \<and>
    account_key_from_public_key demo_crypto (pk_ed25519 (replicate 32 7)) = Some key"
proof -
  have "pk_wf demo_crypto (pk_ed25519 (replicate 32 7))"
    by (rule pk_wf_constructors) (simp add: demo_crypto_def take_bytes_def)
  from account_lookup [OF crypto_ok_demo this, of
      "demo_lib\<lparr>from_hex := (\<lambda>_. Some (pk_write (pk_ed25519 (replicate 32 7))))\<rparr>" "''key''"
      "demo_app\<lparr>account_reader := Some (\<lambda>k. the (state_db_reader_get demo_crypto
        (\<lambda>_. Ok (Some account_default) :: (unit, account option) result) k))\<rparr>"
      "\<lambda>_. Ok (Some account_default) :: (unit, account option) result"]
  show ?thesis by (simp add: account_default_def nonce_default_def)
qed

end
