(* ===== verification/Relayer.thy ===== *)
theory Relayer
  imports Http "HOL-Library.List_Lexorder" "HOL-Library.Product_Lexorder" "HOL-Library.Char_ord"
begin

text \<open>
  The consensus-following relayer of \<open>bin/validator/src/relayer.rs\<close>: it decodes a batch, forwards
  it to the next two leaders of the view it observes, collects what the leaders report, and
  forwards what is still pending again when the view advances. What the network answers is a
  parameter: \<open>post\<close> and \<open>get\<close> give the response of a leader to a request made in a given retry
  (\<open>None\<close> when the request fails), and the values a view subscription yields are a list
  (\<open>None\<close> when the sender is gone). JSON parsing and the vector encoder are library functions.
\<close>

section \<open>Data\<close>

record leader_config =
  lc_public_key :: string
  lc_url :: string

record leader =
  ld_public_key :: string
  ld_sort_key :: bytes
  ld_url :: string

record decoded_batch =
  db_transactions :: "signed_transaction list"
  db_digests :: "string list"

record http_response =
  resp_status :: nat
  resp_bytes :: "bytes option"
  resp_text :: string

datatype forward_result =
    ForwardAccepted leader
  | Deterministic nat
  | Transient leader

record forward_summary =
  fs_accepted :: bool
  fs_deterministic :: "nat option"

record relayer_lib =
  rl_http :: http_lib
  encode_vec :: "bytes list \<Rightarrow> bytes"
  parse_ingest :: "bytes \<Rightarrow> string list option"
  parse_status :: "bytes \<Rightarrow> batch_status option"

record network =
  post_ingest :: "nat \<Rightarrow> leader \<Rightarrow> bytes \<Rightarrow> http_response option"
  get_status :: "nat \<Rightarrow> leader \<Rightarrow> batch_id \<Rightarrow> http_response option"

record relayer_state =
  leaders :: "leader list"
  max_retry_views :: nat
  rs_max_batch_bytes :: nat
  rs_account_reader :: "(tx_public_key \<Rightarrow> account option) option"

abbreviation default_max_batch_bytes :: nat where
  "default_max_batch_bytes \<equiv> 8 * 1024 * 1024"

definition pinned_submit_retries :: nat where
  "pinned_submit_retries = 3"

fun code_number :: "status_code \<Rightarrow> nat" where
  "code_number OK_200 = 200"
| "code_number ACCEPTED_202 = 202"
| "code_number BAD_REQUEST_400 = 400"
| "code_number NOT_FOUND_404 = 404"
| "code_number PAYLOAD_TOO_LARGE_413 = 413"
| "code_number INTERNAL_SERVER_ERROR_500 = 500"
| "code_number SERVICE_UNAVAILABLE_503 = 503"

section \<open>Views\<close>

definition observer_report :: "u64 \<Rightarrow> u64 \<Rightarrow> u64" where
  "observer_report view current = (if view \<le> current then current else view)"

text \<open>\<open>None\<close> while no observed value ends the wait.\<close>

fun wait_for_view_advance :: "u64 option list \<Rightarrow> u64 \<Rightarrow> (u64 \<times> u64 option list) option" where
  "wait_for_view_advance [] current = None"
| "wait_for_view_advance (None # evs) current = Some (current, None # evs)"
| "wait_for_view_advance (Some v # evs) current =
    (if current < v then Some (v, evs) else wait_for_view_advance evs current)"

section \<open>Leaders\<close>

definition to_lowercase :: "string \<Rightarrow> string" where
  "to_lowercase s = map (\<lambda>c. if c \<in> set ''ABCDEFGHIJKLMNOPQRSTUVWXYZ'' then char_of (of_char c + (32 :: nat)) else c) s"

definition trim_end_slashes :: "string \<Rightarrow> string" where
  "trim_end_slashes s = rev (dropWhile (\<lambda>c. c = CHR ''/'') (rev s))"

text \<open>\<open>None\<close> is the panic on a key that is not hex. \<open>sort_by\<close> is stable.\<close>

definition normalize_leader :: "(string \<Rightarrow> bytes option) \<Rightarrow> leader_config \<Rightarrow> leader option" where
  "normalize_leader hex l =
    (let public_key = to_lowercase (lc_public_key l) in
     case hex public_key of
       None \<Rightarrow> None
     | Some k \<Rightarrow> Some \<lparr>ld_public_key = public_key, ld_sort_key = k, ld_url = trim_end_slashes (lc_url l)\<rparr>)"

definition leader_key :: "leader \<Rightarrow> bytes \<times> string" where
  "leader_key l = (ld_sort_key l, ld_public_key l)"

definition normalize_leaders :: "(string \<Rightarrow> bytes option) \<Rightarrow> leader_config list \<Rightarrow> leader list option" where
  "normalize_leaders hex ls = map_option (sort_key leader_key) (collect_opt (map (normalize_leader hex) ls))"

definition next_two_leaders :: "leader list \<Rightarrow> u64 \<Rightarrow> leader list" where
  "next_two_leaders ls view =
    (if ls = [] then []
     else
       let first = unat (view + 1) mod length ls; second = unat (view + 2) mod length ls in
       if first = second then [ls ! first] else [ls ! first, ls ! second])"

definition leader_by_id :: "leader list \<Rightarrow> string \<Rightarrow> leader option" where
  "leader_by_id ls public_key = List.find (\<lambda>l. ld_public_key l = public_key) ls"

section \<open>Batches\<close>

definition decode_batch ::
    "'x tx_env_scheme \<Rightarrow> http_lib \<Rightarrow> bytes \<Rightarrow> nat \<Rightarrow> (status_code, decoded_batch) result" where
  "decode_batch c lib body limit =
    (if max_request_bytes limit < length body then Err PAYLOAD_TOO_LARGE_413
     else case max_transaction_count (length body) of
       None \<Rightarrow> Err BAD_REQUEST_400
     | Some max_txs \<Rightarrow>
         (case decode_vec lib (1, max_txs) (signed_transaction_read c) body of
            Err _ \<Rightarrow> Err BAD_REQUEST_400
          | Ok ts \<Rightarrow>
              if limit < sum_list (map signed_transaction_encode_size ts) then Err PAYLOAD_TOO_LARGE_413
              else Ok \<lparr>db_transactions = ts, db_digests = map (digest_to_string lib \<circ> message_digest) ts\<rparr>))"

definition encode_pending :: "'x tx_env_scheme \<Rightarrow> relayer_lib \<Rightarrow> decoded_batch \<Rightarrow> string set \<Rightarrow> bytes" where
  "encode_pending c lib batch pend =
    encode_vec lib (map (signed_transaction_write c)
      (filter (\<lambda>t. digest_to_string (rl_http lib) (message_digest t) \<in> pend) (db_transactions batch)))"

definition relayer_batch_id :: "'x tx_env_scheme \<Rightarrow> relayer_lib \<Rightarrow> bytes \<Rightarrow> batch_id" where
  "relayer_batch_id c lib body = digest_to_string (rl_http lib) (hash c body)"

section \<open>Talking to leaders\<close>

definition forward_to_leader :: "relayer_lib \<Rightarrow> http_response option \<Rightarrow> leader \<Rightarrow> forward_result" where
  "forward_to_leader lib response l =
    (case response of
       None \<Rightarrow> Transient l
     | Some r \<Rightarrow>
         if resp_status r = 202 then
           (case resp_bytes r of
              None \<Rightarrow> Transient l
            | Some bs \<Rightarrow>
                (case parse_ingest lib bs of
                   None \<Rightarrow> Transient l
                 | Some digests \<Rightarrow> if digests = [] then Transient l else ForwardAccepted l))
         else if resp_status r = 400 \<or> resp_status r = 413 then Deterministic (resp_status r)
         else Transient l)"

fun summarize :: "forward_summary \<Rightarrow> forward_result list \<Rightarrow> forward_summary" where
  "summarize acc [] = acc"
| "summarize acc (ForwardAccepted _ # rs) = summarize (acc\<lparr>fs_accepted := True\<rparr>) rs"
| "summarize acc (Deterministic s # rs) = summarize (acc\<lparr>fs_deterministic := Some s\<rparr>) rs"
| "summarize acc (Transient _ # rs) = summarize acc rs"

definition forward_to_targets ::
    "relayer_lib \<Rightarrow> (leader \<Rightarrow> bytes \<Rightarrow> http_response option) \<Rightarrow> leader list \<Rightarrow> bytes \<Rightarrow> forward_summary" where
  "forward_to_targets lib post targets body =
    summarize \<lparr>fs_accepted = False, fs_deterministic = None\<rparr>
      (map (\<lambda>l. forward_to_leader lib (post l body) l) targets)"

definition fetch_status_from_leader :: "relayer_lib \<Rightarrow> http_response option \<Rightarrow> batch_status option" where
  "fetch_status_from_leader lib response =
    (case response of
       None \<Rightarrow> None
     | Some r \<Rightarrow>
         if resp_status r \<noteq> 200 then None
         else Option.bind (resp_bytes r) (parse_status lib))"

fun merge_statuses ::
    "relayer_lib \<Rightarrow> (leader \<Rightarrow> batch_id \<Rightarrow> http_response option) \<Rightarrow> (batch_id \<times> leader) list \<Rightarrow> string set \<Rightarrow> u64
      \<Rightarrow> string set \<times> u64" where
  "merge_statuses lib get [] included height = (included, height)"
| "merge_statuses lib get ((b, l) # attempts) included height =
    (case fetch_status_from_leader lib (get l b) of
       Some (BatchFinalized h inc) \<Rightarrow>
         merge_statuses lib get attempts (included \<union> set inc) (max height h)
     | Some (BatchPartiallyFinalized h inc _) \<Rightarrow>
         merge_statuses lib get attempts (included \<union> set inc) (max height h)
     | _ \<Rightarrow> merge_statuses lib get attempts included height)"

definition best_effort_status :: "string list \<Rightarrow> string set \<Rightarrow> u64 \<Rightarrow> tx_status" where
  "best_effort_status digests included height =
    (if included = {} then TxDropped
     else
       let filtered = filter (\<lambda>d. d \<notin> included) digests in
       if filtered = [] then TxFinalized height
       else TxPartiallyFinalized height (filter (\<lambda>d. d \<in> included) digests) filtered)"

section \<open>Submitting\<close>

type_synonym answer = "nat \<times> tx_status option"

text \<open>\<open>left\<close> counts the retries after this one. The result is \<open>None\<close> while the relayer still waits
  for the view to advance.\<close>

fun retry_loop ::
    "'x tx_env_scheme \<Rightarrow> relayer_lib \<Rightarrow> network \<Rightarrow> relayer_state \<Rightarrow> decoded_batch \<Rightarrow> nat
      \<Rightarrow> string set \<Rightarrow> string set \<Rightarrow> u64 \<Rightarrow> bool \<Rightarrow> (batch_id \<times> leader) list \<Rightarrow> u64 option list \<Rightarrow> u64
      \<Rightarrow> answer option" where
  "retry_loop c lib net st batch left pend included height accepted_any attempts evs view =
    (let retry = max_retry_views st - left;
         body = encode_pending c lib batch pend;
         sent = relayer_batch_id c lib body;
         attempts = attempts @ map (\<lambda>l. (sent, l)) (next_two_leaders (leaders st) view);
         targets = map snd (filter (\<lambda>(b, _). b = sent) attempts);
         result = forward_to_targets lib (post_ingest net retry) targets body in
     case fs_deterministic result of
       Some status \<Rightarrow> Some (status, None)
     | None \<Rightarrow>
         (let accepted_any = (accepted_any \<or> fs_accepted result) in
          case merge_statuses lib (get_status net retry) attempts included height of
            (included, height) \<Rightarrow>
              let pend = {d \<in> pend. d \<notin> included} in
              if pend = {} then Some (200, Some (TxFinalized height))
              else case left of
                0 \<Rightarrow>
                  if \<not> accepted_any then Some (503, None)
                  else Some (200, Some (best_effort_status (db_digests batch) included height))
              | Suc left' \<Rightarrow>
                  (case wait_for_view_advance evs view of
                     None \<Rightarrow> None
                   | Some (view, evs) \<Rightarrow>
                       retry_loop c lib net st batch left' pend included height accepted_any attempts evs view)))"

declare retry_loop.simps [simp del]

definition submit_with_retries ::
    "'x tx_env_scheme \<Rightarrow> relayer_lib \<Rightarrow> network \<Rightarrow> relayer_state \<Rightarrow> u64 option list \<Rightarrow> u64 \<Rightarrow> decoded_batch
      \<Rightarrow> answer option" where
  "submit_with_retries c lib net st evs view batch =
    (if leaders st = [] then Some (503, None)
     else retry_loop c lib net st batch (max_retry_views st) (set (db_digests batch)) {} 0 False [] evs view)"

definition should_retry_pinned_submit :: "nat \<Rightarrow> bool" where
  "should_retry_pinned_submit status \<longleftrightarrow> status = 503 \<or> 500 \<le> status \<and> status < 600"

text \<open>\<open>send\<close> is the answer to the attempt of that number; the waits in between are left out.\<close>

function pinned_loop :: "(nat \<Rightarrow> http_response option) \<Rightarrow> nat \<Rightarrow> nat \<times> string" where
  "pinned_loop send attempt =
    (if attempt < pinned_submit_retries then
       (case send attempt of
          Some r \<Rightarrow>
            if should_retry_pinned_submit (resp_status r) \<and> attempt + 1 < pinned_submit_retries
            then pinned_loop send (attempt + 1)
            else (resp_status r, resp_text r)
        | None \<Rightarrow>
            if attempt + 1 < pinned_submit_retries then pinned_loop send (attempt + 1)
            else (503, []))
     else (503, []))"
  by pat_completeness auto

termination pinned_loop
  by (relation "measure (\<lambda>(_, a). pinned_submit_retries - a)") auto

declare pinned_loop.simps [simp del]

definition submit_blocking_to_leader :: "(nat \<Rightarrow> http_response option) \<Rightarrow> nat \<times> string" where
  "submit_blocking_to_leader send = pinned_loop send 0"

definition submit_to_pinned_leader ::
    "relayer_state \<Rightarrow> (leader \<Rightarrow> nat \<Rightarrow> bytes \<Rightarrow> http_response option) \<Rightarrow> bytes \<Rightarrow> string \<Rightarrow> nat \<times> string" where
  "submit_to_pinned_leader st post body target =
    (case leader_by_id (leaders st) target of
       None \<Rightarrow> (400, [])
     | Some l \<Rightarrow> submit_blocking_to_leader (\<lambda>attempt. post l attempt body))"

section \<open>Requests\<close>

text \<open>\<open>headers\<close> gives the value of a header when it is present and visible ASCII. \<open>parse_usize\<close> is
  \<open>str::parse::<usize>\<close>.\<close>

definition target_leader_header :: string where
  "target_leader_header = ''x-constantinople-relayer-target-leader''"

definition leader_fanout_header :: string where
  "leader_fanout_header = ''x-constantinople-relayer-leader-fanout''"

definition digit_value :: "char \<Rightarrow> nat option" where
  "digit_value ch = (let n = of_char ch in if 48 \<le> n \<and> n \<le> (57 :: nat) then Some (n - 48) else None)"

definition parse_usize :: "string \<Rightarrow> nat option" where
  "parse_usize s =
    (let ds = (case s of CHR 0x2B # rest \<Rightarrow> rest | _ \<Rightarrow> s) in
     if ds = [] then None
     else case collect_opt (map digit_value ds) of
       None \<Rightarrow> None
     | Some ns \<Rightarrow>
         let n = foldl (\<lambda>acc d. acc * 10 + d) 0 ns in if n \<le> usize_max then Some n else None)"

definition requested_target_leader :: "(string \<Rightarrow> string option) \<Rightarrow> string option" where
  "requested_target_leader headers = map_option to_lowercase (headers target_leader_header)"

definition requested_leader_fanout :: "(string \<Rightarrow> string option) \<Rightarrow> nat option" where
  "requested_leader_fanout headers = Option.bind (headers leader_fanout_header) parse_usize"

text \<open>A response carries a transaction status, the text a leader answered with, or nothing.\<close>

datatype relayer_body = NoBody | StatusBody tx_status | LeaderText string

definition submit_transactions ::
    "'x tx_env_scheme \<Rightarrow> relayer_lib \<Rightarrow> network \<Rightarrow> (leader \<Rightarrow> nat \<Rightarrow> bytes \<Rightarrow> http_response option)
      \<Rightarrow> relayer_state \<Rightarrow> u64 option list \<Rightarrow> u64 \<Rightarrow> (string \<Rightarrow> string option) \<Rightarrow> bytes
      \<Rightarrow> (nat \<times> relayer_body) option" where
  "submit_transactions c lib net post st evs view headers body =
    (case requested_target_leader headers of
       Some target \<Rightarrow>
         if max_request_bytes (rs_max_batch_bytes st) < length body then Some (413, NoBody)
         else if (case requested_leader_fanout headers of None \<Rightarrow> False | Some n \<Rightarrow> n \<noteq> 1) then Some (400, NoBody)
         else (case submit_to_pinned_leader st post body target of (code, text) \<Rightarrow> Some (code, LeaderText text))
     | None \<Rightarrow>
         (case decode_batch c (rl_http lib) body (rs_max_batch_bytes st) of
            Err status \<Rightarrow> Some (code_number status, NoBody)
          | Ok batch \<Rightarrow>
              map_option (\<lambda>(code, status). (code, case status of None \<Rightarrow> NoBody | Some t \<Rightarrow> StatusBody t))
                (submit_with_retries c lib net st evs view batch)))"

definition transaction_status :: status_code where
  "transaction_status = NOT_FOUND_404"

definition health :: status_code where
  "health = OK_200"

definition ready :: "relayer_state \<Rightarrow> status_code" where
  "ready st = (if leaders st = [] then SERVICE_UNAVAILABLE_503 else OK_200)"

definition relayer_account :: "'x crypto_scheme \<Rightarrow> http_lib \<Rightarrow> relayer_state \<Rightarrow> string \<Rightarrow> status_code \<times> body" where
  "relayer_account c lib st public_key =
    (case from_hex lib public_key of
       None \<Rightarrow> (BAD_REQUEST_400, EmptyBody)
     | Some bytes \<Rightarrow>
         if length bytes \<noteq> public_key_size then (BAD_REQUEST_400, EmptyBody)
         else case pk_read c bytes of
           Err _ \<Rightarrow> (BAD_REQUEST_400, EmptyBody)
         | Ok (pk, rest) \<Rightarrow>
             if rest \<noteq> [] then (BAD_REQUEST_400, EmptyBody)
             else case rs_account_reader st of
               None \<Rightarrow> (SERVICE_UNAVAILABLE_503, EmptyBody)
             | Some reader \<Rightarrow>
                 (case reader pk of
                    None \<Rightarrow> (NOT_FOUND_404, EmptyBody)
                  | Some a \<Rightarrow> (OK_200, AccountBody (account_response_from a))))"

definition serve_state ::
    "(string \<Rightarrow> bytes option) \<Rightarrow> leader_config list \<Rightarrow> u64 \<Rightarrow> (tx_public_key \<Rightarrow> account option) option
      \<Rightarrow> relayer_state option" where
  "serve_state hex ls retry_views reader =
    map_option (\<lambda>ls. \<lparr>leaders = ls, max_retry_views = unat retry_views,
        rs_max_batch_bytes = default_max_batch_bytes, rs_account_reader = reader\<rparr>)
      (normalize_leaders hex ls)"

section \<open>What the library promises\<close>

definition relayer_lib_ok :: "'x tx_env_scheme \<Rightarrow> relayer_lib \<Rightarrow> bool" where
  "relayer_lib_ok c lib \<longleftrightarrow> http_lib_ok c (rl_http lib) \<and>
    (\<forall>ws. encode_vec lib ws = write_len c (length ws) @ concat ws)"

section \<open>Leader rotation\<close>

lemma normalize_leaders_Some:
  "normalize_leaders hex ls = Some xs \<longleftrightarrow>
    (\<exists>ys. map (normalize_leader hex) ls = map Some ys \<and> xs = sort_key leader_key ys)"
  by (auto simp: normalize_leaders_def collect_opt_Some_iff)

lemma normalize_leader_key:
  "normalize_leader hex l = Some x \<Longrightarrow> ld_public_key x = to_lowercase (lc_public_key l)"
  by (auto simp: normalize_leader_def Let_def split: option.splits)

lemma map_normalize_keys:
  "map (normalize_leader hex) ls = map Some ys \<Longrightarrow>
    map ld_public_key ys = map (to_lowercase \<circ> lc_public_key) ls"
proof (induction ls arbitrary: ys)
  case (Cons l ls)
  then show ?case by (cases ys) (auto simp: normalize_leader_key)
qed simp

lemma sort_key_unique:
  fixes f :: "'a \<Rightarrow> 'k :: linorder"
  assumes "mset xs = mset ys" "inj_on f (set xs)"
  shows "sort_key f xs = sort_key f ys"
proof (rule map_inj_on [of f])
  show "map f (sort_key f xs) = map f (sort_key f ys)"
  proof (rule properties_for_sort [symmetric, of _ "map f xs", THEN trans])
    show "mset (map f (sort_key f xs)) = mset (map f xs)" by simp
    show "sorted (map f (sort_key f xs))" by simp
    have "sort (map f xs) = sort (map f ys)"
      using assms(1) by (metis mset_map properties_for_sort sorted_sort mset_sort)
    then show "sort (map f xs) = map f (sort_key f ys)"
      by (metis mset_map mset_sort properties_for_sort sorted_sort_key)
  qed
  show "inj_on f (set (sort_key f xs) \<union> set (sort_key f ys))"
    using assms by (metis mset_eq_setD set_sort sup.idem)
qed

lemma normalize_leaders_mset:
  assumes "mset ls = mset ls'" "map (normalize_leader hex) ls = map Some ys"
  shows "\<exists>ys'. map (normalize_leader hex) ls' = map Some ys' \<and> mset ys' = mset ys"
proof -
  have "normalize_leader hex l = Some (the (normalize_leader hex l))" if "l \<in> set ls" for l
    using that arg_cong [OF assms(2), of set] by force
  then have m: "map (normalize_leader hex) ks = map Some (map (the \<circ> normalize_leader hex) ks)"
    if "mset ks = mset ls" for ks
    using mset_eq_setD [OF that] by (simp only: map_map comp_assoc [symmetric]) (simp add: comp_def)
  have "map Some ys = map Some (map (the \<circ> normalize_leader hex) ls)" using m [of ls] assms(2) by simp
  then have "ys = map (the \<circ> normalize_leader hex) ls" by (metis inj_Some inj_map_eq_map)
  then have "mset (map (the \<circ> normalize_leader hex) ls') = mset ys"
    using assms(1) by (metis mset_map)
  with m [OF assms(1) [symmetric]] show ?thesis by blast
qed

lemma normalize_leaders_perm:
  assumes "mset ls = mset ls'" "distinct (map (to_lowercase \<circ> lc_public_key) ls)"
    and "normalize_leaders hex ls = Some xs"
  shows "normalize_leaders hex ls' = Some xs"
proof -
  obtain ys where ys: "map (normalize_leader hex) ls = map Some ys" "xs = sort_key leader_key ys"
    using assms(3) by (auto simp: normalize_leaders_Some)
  obtain ys' where ys': "map (normalize_leader hex) ls' = map Some ys'" "mset ys' = mset ys"
    using normalize_leaders_mset [OF assms(1) ys(1)] by blast
  have "distinct (map ld_public_key ys)" using assms(2) map_normalize_keys [OF ys(1)] by simp
  then have "inj_on ld_public_key (set ys)" by (simp add: distinct_map)
  then have "inj_on leader_key (set ys)" by (auto simp: inj_on_def leader_key_def)
  then have "sort_key leader_key ys = sort_key leader_key ys'"
    using ys'(2) by (intro sort_key_unique) simp_all
  with ys ys' show ?thesis by (auto simp: normalize_leaders_Some)
qed

section \<open>Retries\<close>

text \<open>What some leader reported as included, in some retry.\<close>

definition reported :: "relayer_lib \<Rightarrow> network \<Rightarrow> string set" where
  "reported lib net = {d. \<exists>r l b h inc filt.
    (fetch_status_from_leader lib (get_status net r l b) = Some (BatchFinalized h inc) \<or>
     fetch_status_from_leader lib (get_status net r l b) = Some (BatchPartiallyFinalized h inc filt)) \<and>
    d \<in> set inc}"

lemma merge_statuses_reported:
  assumes "merge_statuses lib (get_status net r) attempts included height = (included', height')"
    and "included \<subseteq> reported lib net"
  shows "included \<subseteq> included' \<and> included' \<subseteq> reported lib net"
  using assms
proof (induction attempts arbitrary: included height)
  case (Cons a attempts)
  obtain b l where a: "a = (b, l)" by (cases a)
  show ?case
  proof (cases "\<exists>h inc filt. fetch_status_from_leader lib (get_status net r l b) = Some (BatchFinalized h inc) \<or>
      fetch_status_from_leader lib (get_status net r l b) = Some (BatchPartiallyFinalized h inc filt)")
    case True
    then obtain h inc filt where f:
      "fetch_status_from_leader lib (get_status net r l b) = Some (BatchFinalized h inc) \<or>
       fetch_status_from_leader lib (get_status net r l b) = Some (BatchPartiallyFinalized h inc filt)" by blast
    then have "set inc \<subseteq> reported lib net" unfolding reported_def by blast
    then have "included \<union> set inc \<subseteq> reported lib net" using Cons.prems(2) by blast
    moreover have "merge_statuses lib (get_status net r) attempts (included \<union> set inc) (max height h) =
        (included', height')" using f Cons.prems(1) by (auto simp: a)
    ultimately show ?thesis using Cons.IH by blast
  next
    case False
    then have "merge_statuses lib (get_status net r) (a # attempts) included height =
        merge_statuses lib (get_status net r) attempts included height"
      by (auto simp: a split: option.splits batch_status.splits)
    with Cons show ?thesis by simp
  qed
qed simp

definition truthful :: "relayer_lib \<Rightarrow> network \<Rightarrow> string list \<Rightarrow> tx_status \<Rightarrow> bool" where
  "truthful lib net digests status =
    (case status of
       TxFinalized h \<Rightarrow> set digests \<subseteq> reported lib net
     | TxPartiallyFinalized h inc filt \<Rightarrow>
         set inc \<subseteq> reported lib net \<and> filt \<noteq> [] \<and> set inc \<union> set filt = set digests \<and> set inc \<inter> set filt = {}
     | TxDropped \<Rightarrow> True)"

lemma best_effort_truthful:
  "included \<subseteq> reported lib net \<Longrightarrow> truthful lib net digests (best_effort_status digests included height)"
  by (auto simp: truthful_def best_effort_status_def Let_def filter_empty_conv)

lemma retry_loop_sound:
  assumes "retry_loop c lib net st batch left pend included height acc attempts evs view = Some (code, Some status)"
    and "pend = set (db_digests batch) - included" "included \<subseteq> reported lib net"
  shows "code = 200 \<and> truthful lib net (db_digests batch) status"
  using assms
proof (induction left arbitrary: pend included height acc attempts evs view)
  case 0
  let ?body = "encode_pending c lib batch pend"
  define att where "att = attempts @ map (\<lambda>l. (relayer_batch_id c lib ?body, l)) (next_two_leaders (leaders st) view)"
  obtain inc h where m: "merge_statuses lib (get_status net (max_retry_views st)) att included height = (inc, h)"
    by (metis prod.exhaust)
  note inc = merge_statuses_reported [OF m 0(3)]
  have p: "{d \<in> pend. d \<notin> inc} = set (db_digests batch) - inc" using 0(2) inc by auto
  have "code = 200 \<and> (set (db_digests batch) - inc = {} \<and> status = TxFinalized h \<or>
      status = best_effort_status (db_digests batch) inc h)"
    using 0(1) [unfolded retry_loop.simps [of _ _ _ _ _ 0] Let_def att_def [symmetric] diff_zero
      m prod.case p nat.case]
    by (simp split: option.splits if_splits)
  with inc best_effort_truthful [of inc lib net] show ?case by (auto simp: truthful_def)
next
  case (Suc left)
  let ?body = "encode_pending c lib batch pend" and ?retry = "max_retry_views st - Suc left"
  define att where "att = attempts @ map (\<lambda>l. (relayer_batch_id c lib ?body, l)) (next_two_leaders (leaders st) view)"
  obtain inc h where m: "merge_statuses lib (get_status net ?retry) att included height = (inc, h)"
    by (metis prod.exhaust)
  note inc = merge_statuses_reported [OF m Suc.prems(3)]
  have p: "{d \<in> pend. d \<notin> inc} = set (db_digests batch) - inc" using Suc.prems(2) inc by auto
  note run = Suc.prems(1) [unfolded retry_loop.simps [of _ _ _ _ _ "Suc left"] Let_def att_def [symmetric]
      m prod.case p nat.case]
  show ?case
  proof (cases "set (db_digests batch) - inc = {}")
    case True
    then have "code = 200" "status = TxFinalized h" using run by (simp_all split: option.splits)
    with True inc show ?thesis by (auto simp: truthful_def)
  next
    case False
    from run [unfolded if_not_P [OF False]] obtain acc' view' evs' where
      "retry_loop c lib net st batch left (set (db_digests batch) - inc) inc h acc' att evs' view' =
        Some (code, Some status)"
      by (auto split: option.splits prod.splits)
    from Suc.IH [OF this refl] inc show ?thesis by simp
  qed
qed

lemma retry_loop_returns:
  assumes "sorted_wrt (<) (view # vs)" "left \<le> length vs"
  shows "\<exists>a. retry_loop c lib net st batch left pend included height acc attempts (map Some vs) view = Some a"
  using assms
proof (induction left arbitrary: pend included height acc attempts vs view)
  case 0
  show ?case by (subst retry_loop.simps) (auto simp: Let_def split: option.split prod.split)
next
  case (Suc left)
  then obtain v vs' where vs: "vs = v # vs'" by (cases vs) auto
  then have "wait_for_view_advance (map Some vs) view = Some (v, map Some vs')" using Suc.prems(1) by simp
  moreover have "\<exists>a. retry_loop c lib net st batch left pend included height acc attempts (map Some vs') v = Some a"
    for pend included height acc attempts
    using Suc.IH [of v vs'] Suc.prems vs by simp
  ultimately show ?case
    by (subst retry_loop.simps) (auto simp: Let_def split: option.split prod.split)
qed

lemma next_two_leaders_hd:
  assumes "ls \<noteq> []"
  shows "\<exists>rest. next_two_leaders ls view = ls ! (unat (view + 1) mod length ls) # rest"
  using assms by (auto simp: next_two_leaders_def Let_def)

lemma rotation_hits:
  fixes view :: u64
  assumes "i < n" "unat view + n < 2 ^ 64"
  shows "\<exists>k < n. unat (view + word_of_nat k + 1) mod n = i"
proof -
  define k where "k = (i + n - (unat view + 1) mod n) mod n"
  have n: "0 < n" using assms(1) by simp
  have k: "k < n" using n by (simp add: k_def)
  have "unat (view + word_of_nat k + 1) = unat view + 1 + k"
  proof -
    have "view + word_of_nat k + 1 = word_of_nat (unat view + k + 1)" by simp
    also have "unat \<dots> = (unat view + k + 1) mod 2 ^ 64" by (subst unat_of_nat) simp
    finally show ?thesis using assms(2) k by simp
  qed
  also have "(unat view + 1 + k) mod n = ((unat view + 1) mod n + (i + n - (unat view + 1) mod n)) mod n"
    unfolding k_def mod_add_left_eq mod_add_right_eq ..
  also have "\<dots> = (i + n) mod n" using mod_less_divisor [OF n, of "unat view + 1"] by simp
  finally show ?thesis using k assms(1) by auto
qed

section \<open>Properties\<close>

text \<open>All relayers rotate through the leaders in the same order: the list of leaders does not depend
  on the order in which the configuration lists them, as long as their keys are distinct.\<close>

theorem leader_order_canonical:
  assumes "mset ls = mset ls'" "distinct (map (to_lowercase \<circ> lc_public_key) ls)"
  shows "normalize_leaders hex ls = normalize_leaders hex ls'"
proof (cases "normalize_leaders hex ls")
  case (Some xs)
  with normalize_leaders_perm [OF assms Some] show ?thesis by simp
next
  case None
  have "distinct (map (to_lowercase \<circ> lc_public_key) ls')"
    using assms by (metis mset_eq_imp_distinct_iff mset_map)
  then show ?thesis
    using None normalize_leaders_perm [OF assms(1) [symmetric]] by (cases "normalize_leaders hex ls'") auto
qed

theorem leader_order_canonical_witness:
  "normalize_leaders (\<lambda>s. Some [of_nat (length s)])
      [\<lparr>lc_public_key = ''BB'', lc_url = ''u/''\<rparr>, \<lparr>lc_public_key = ''a'', lc_url = ''v''\<rparr>] =
    normalize_leaders (\<lambda>s. Some [of_nat (length s)])
      [\<lparr>lc_public_key = ''a'', lc_url = ''v''\<rparr>, \<lparr>lc_public_key = ''BB'', lc_url = ''u/''\<rparr>]"
  by (rule leader_order_canonical) (simp_all add: to_lowercase_def)

text \<open>The rotation is fair: within as many consecutive views as there are leaders, every leader is
  the first target of a forward.\<close>

theorem rotation_is_fair:
  assumes "i < length ls" "unat view + length ls < 2 ^ 64"
  shows "\<exists>k < length ls. \<exists>rest. next_two_leaders ls (view + word_of_nat k) = ls ! i # rest"
proof -
  obtain k where "k < length ls" "unat (view + word_of_nat k + 1) mod length ls = i"
    using rotation_hits [OF assms] by blast
  with next_two_leaders_hd [of ls "view + word_of_nat k"] assms(1) show ?thesis by force
qed

definition demo_leaders :: "leader list" where
  "demo_leaders = map (\<lambda>k. \<lparr>ld_public_key = k, ld_sort_key = map of_char k, ld_url = ''u''\<rparr>) [''a'', ''b'', ''c'']"

theorem rotation_is_fair_witness:
  "\<exists>k < length demo_leaders. \<exists>rest. next_two_leaders demo_leaders (41 + word_of_nat k) = demo_leaders ! 2 # rest"
  by (rule rotation_is_fair) (simp_all add: demo_leaders_def)

text \<open>C23: The relayer reports nothing that no leader reported: an answer of \<open>Finalized\<close> means that
  every digest of the batch was reported as included by a leader it asked; a partial answer splits
  the batch into digests so reported and the rest, which is not empty.\<close>

theorem relayed_status_truthful:
  assumes "submit_with_retries c lib net st evs view batch = Some (code, Some status)"
  shows "code = 200 \<and> truthful lib net (db_digests batch) status"
proof -
  have "retry_loop c lib net st batch (max_retry_views st) (set (db_digests batch)) {} 0 False [] evs view =
      Some (code, Some status)"
    using assms by (simp add: submit_with_retries_def split: if_splits)
  then show ?thesis by (rule retry_loop_sound) simp_all
qed

definition demo_relayer_lib :: relayer_lib where
  "demo_relayer_lib = \<lparr>rl_http = demo_lib, encode_vec = (\<lambda>ws. write_len demo_env (length ws) @ concat ws),
    parse_ingest = (\<lambda>_. Some [''d'']), parse_status = (\<lambda>_. Some (BatchFinalized 5 [''d'']))\<rparr>"

definition demo_network :: network where
  "demo_network = \<lparr>post_ingest = (\<lambda>_ _ _. Some \<lparr>resp_status = 202, resp_bytes = Some [], resp_text = []\<rparr>),
    get_status = (\<lambda>_ _ _. Some \<lparr>resp_status = 200, resp_bytes = Some [], resp_text = []\<rparr>)\<rparr>"

definition demo_relayer :: relayer_state where
  "demo_relayer = \<lparr>leaders = [\<lparr>ld_public_key = ''aa'', ld_sort_key = [170], ld_url = ''u''\<rparr>],
    max_retry_views = 2, rs_max_batch_bytes = 400, rs_account_reader = None\<rparr>"

lemma demo_relayed:
  "submit_with_retries demo_env demo_relayer_lib demo_network demo_relayer [] 3
    \<lparr>db_transactions = [], db_digests = [''d'']\<rparr> = Some (200, Some (TxFinalized 5))"
  by (simp add: submit_with_retries_def demo_relayer_def retry_loop.simps Let_def next_two_leaders_def
      forward_to_targets_def forward_to_leader_def demo_network_def demo_relayer_lib_def
      fetch_status_from_leader_def)

theorem relayed_status_truthful_witness:
  "''d'' \<in> reported demo_relayer_lib demo_network"
  using relayed_status_truthful [OF demo_relayed] by (simp add: truthful_def)

text \<open>C24: A submission through the relayer returns: when the observed view keeps advancing, it is
  answered after at most \<open>max_retry_views\<close> advances.\<close>

theorem relayer_returns:
  assumes "sorted_wrt (<) (view # vs)" "max_retry_views st \<le> length vs"
  shows "\<exists>a. submit_with_retries c lib net st (map Some vs) view batch = Some a"
proof -
  have "\<exists>a. retry_loop c lib net st batch (max_retry_views st) (set (db_digests batch)) {} 0 False []
      (map Some vs) view = Some a" by (rule retry_loop_returns [OF assms])
  then show ?thesis by (auto simp: submit_with_retries_def)
qed

theorem relayer_returns_witness:
  "\<exists>a. submit_with_retries demo_env demo_relayer_lib demo_network demo_relayer (map Some [4, 9]) 3
    \<lparr>db_transactions = [], db_digests = [''d'', ''e'']\<rparr> = Some a"
  by (rule relayer_returns) (simp_all add: demo_relayer_def)

text \<open>What the relayer forwards is what a validator accepts: if the relayer decoded a batch of
  transactions whose signatures are valid, then the body it sends for any non-empty part of the
  batch that is still pending passes the verification of a validator whose limit is at least the
  relayer's, and carries exactly the pending transactions in order.\<close>

theorem forwarded_batch_accepted:
  assumes "tx_env_ok c" "relayer_lib_ok c lib" "decode_batch c (rl_http lib) body limit = Ok batch"
    and "list_all (\<lambda>t. lazy_valid c (as_namespace st) (lazy_new t)) (db_transactions batch)"
    and "limit \<le> max_batch_bytes st" "d \<in> pend" "d \<in> set (db_digests batch)"
    and "length (db_transactions batch) < 2 ^ 32" "length (encode_pending c lib batch pend) \<le> usize_max"
  shows "\<exists>ts. ts = filter (\<lambda>t. digest_to_string (rl_http lib) (message_digest t) \<in> pend) (db_transactions batch) \<and>
    verify_body c (rl_http lib) st rng False (encode_pending c lib batch pend) =
      Ok \<lparr>vb_transactions = ts, vb_digests = map message_digest ts, vb_total_bytes = total_bytes_for ts\<rparr>"
proof -
  let ?P = "\<lambda>t. digest_to_string (rl_http lib) (message_digest t) \<in> pend"
  define ts where "ts = filter ?P (db_transactions batch)"
  from assms(3) obtain m where
    dec: "decode_vec (rl_http lib) (1, m) (signed_transaction_read c) body = Ok (db_transactions batch)"
    and lim: "total_bytes_for (db_transactions batch) \<le> limit"
    and dig: "db_digests batch = map (digest_to_string (rl_http lib) \<circ> message_digest) (db_transactions batch)"
    by (auto simp: decode_batch_def total_bytes_for_def split: if_splits option.splits result.splits)
  have lib: "http_lib_ok c (rl_http lib)"
    and enc: "\<And>ws. encode_vec lib ws = write_len c (length ws) @ concat ws"
    using assms(2) by (simp_all add: relayer_lib_ok_def)
  from dec lib have "list_all (signed_transaction_wf c) (db_transactions batch)"
    unfolding http_lib_ok_def using read_many_canonical [OF assms(1)] by blast
  then have wf: "list_all (signed_transaction_wf c) ts" by (auto simp: ts_def list_all_iff)
  have ne: "ts \<noteq> []" using assms(6,7) dig by (auto simp: ts_def filter_empty_conv)
  have len: "length ts < 2 ^ 32" unfolding ts_def by (rule le_less_trans [OF length_filter_le assms(8)])
  have "total_bytes_for (filter ?P xs) \<le> total_bytes_for xs" for xs
    by (induction xs) (auto simp: total_bytes_for_def)
  then have size: "total_bytes_for ts \<le> max_batch_bytes st"
    using lim assms(5) unfolding ts_def by (meson le_trans)
  have val: "list_all (\<lambda>t. lazy_valid c (as_namespace st) (lazy_new t)) ts"
    using assms(4) by (auto simp: ts_def list_all_iff)
  have "encode_pending c lib batch pend = write_len c (length ts) @ concat (map (signed_transaction_write c) ts)"
    by (simp add: encode_pending_def enc ts_def)
  from verify_body_complete [OF assms(1) lib wf ne len size val this assms(9)] show ?thesis
    unfolding ts_def by blast
qed

text \<open>The relayer decodes what a validator with the same limit verifies.\<close>

lemma decode_batch_verified:
  assumes "tx_env_ok c" "verify_body c lib st rng died body = Ok batch"
  shows "decode_batch c lib body (max_batch_bytes st) =
    Ok \<lparr>db_transactions = vb_transactions batch,
      db_digests = map (digest_to_string lib \<circ> message_digest) (vb_transactions batch)\<rparr>"
proof -
  from assms(2) obtain m txs ts where
    d: "\<not> max_request_bytes (max_batch_bytes st) < length body" "max_transaction_count (length body) = Some m"
      "decode_vec lib (1, m) (signed_transaction_read c) body = Ok txs"
      "sum_list (map signed_transaction_encode_size txs) \<le> max_batch_bytes st"
    and v: "verify_transaction_chunks c (as_namespace st) rng (map lazy_new txs) = Some ts"
      "vb_transactions batch = ts"
    by (auto simp: verify_body_def Let_def split: if_splits option.splits result.splits)
  from v(1) have "ts = txs"
    by (auto simp: verify_transaction_chunks_eq [OF assms(1)] o_def split: if_splits)
  with d v show ?thesis by (simp add: decode_batch_def)
qed

lemma relayer_lib_ok_demo: "relayer_lib_ok demo_env demo_relayer_lib"
  by (simp add: relayer_lib_ok_def demo_relayer_lib_def http_lib_ok_demo)

theorem forwarded_batch_accepted_witness:
  "\<exists>batch ts. decode_batch demo_env demo_lib demo_body 400 = Ok batch \<and>
    verify_body demo_env demo_lib demo_app 1 False
      (encode_pending demo_env demo_relayer_lib batch {demo_show (message_digest (demo_signed 7 8 50 0))}) =
    Ok \<lparr>vb_transactions = ts, vb_digests = map message_digest ts, vb_total_bytes = total_bytes_for ts\<rparr>"
proof -
  define batch where "batch = \<lparr>db_transactions = [demo_signed 7 8 50 0],
    db_digests = [demo_show (message_digest (demo_signed 7 8 50 0))]\<rparr>"
  have lib: "rl_http demo_relayer_lib = demo_lib" "digest_to_string demo_lib = demo_show"
    "max_batch_bytes demo_app = 400"
    by (simp_all add: demo_relayer_lib_def demo_lib_def demo_app_def)
  have d: "decode_batch demo_env (rl_http demo_relayer_lib) demo_body 400 = Ok batch"
    using decode_batch_verified [OF tx_env_ok_demo demo_body_verified] by (simp add: lib batch_def)
  have "encode_pending demo_env demo_relayer_lib batch {demo_show (message_digest (demo_signed 7 8 50 0))} = demo_body"
    by (simp add: encode_pending_def lib batch_def demo_body_def) (simp add: demo_relayer_lib_def)
  then have e: "length (encode_pending demo_env demo_relayer_lib batch
      {demo_show (message_digest (demo_signed 7 8 50 0))}) \<le> usize_max"
    using demo_body_size by simp
  from forwarded_batch_accepted [OF tx_env_ok_demo relayer_lib_ok_demo d, of demo_app, OF _ _ _ _ _ e]
  have "\<exists>ts. verify_body demo_env demo_lib demo_app 1 False
      (encode_pending demo_env demo_relayer_lib batch {demo_show (message_digest (demo_signed 7 8 50 0))}) =
    Ok \<lparr>vb_transactions = ts, vb_digests = map message_digest ts, vb_total_bytes = total_bytes_for ts\<rparr>"
    by (simp add: batch_def lib demo_signed_valid)
  with d show ?thesis unfolding lib by blast
qed

text \<open>A submission pinned to a leader: the first answer that is not a server error is passed on
  unchanged after at most three attempts; if there is none among three, the caller gets a server
  error.\<close>

theorem pinned_submit_outcome:
  "case submit_blocking_to_leader send of (code, text) \<Rightarrow>
    (\<exists>i r. i < 3 \<and> send i = Some r \<and> \<not> should_retry_pinned_submit (resp_status r) \<and>
      (\<forall>j < i. \<forall>r'. send j = Some r' \<longrightarrow> should_retry_pinned_submit (resp_status r')) \<and>
      code = resp_status r \<and> text = resp_text r) \<or>
    should_retry_pinned_submit code \<and>
      (\<forall>j < 3. \<forall>r'. send j = Some r' \<longrightarrow> should_retry_pinned_submit (resp_status r'))"
proof -
  have r: "\<exists>r'. send j = Some r' \<and> \<not> should_retry_pinned_submit (resp_status r') \<and>
      pinned_loop send j = (resp_status r', resp_text r') \<or>
      (\<forall>r'. send j = Some r' \<longrightarrow> should_retry_pinned_submit (resp_status r')) \<and>
      (if j < 2 then pinned_loop send j = pinned_loop send (j + 1)
       else should_retry_pinned_submit (fst (pinned_loop send j)))" if "j < 3" for j
    using that by (subst pinned_loop.simps, cases "send j")
      (auto simp: pinned_submit_retries_def should_retry_pinned_submit_def pinned_loop.simps [of send j])
  show ?thesis
    unfolding submit_blocking_to_leader_def using r [of 0] r [of 1] r [of 2]
    by (auto simp: numeral_3_eq_3 numeral_2_eq_2 less_Suc_eq split: prod.splits)
qed

theorem pinned_submit_outcome_witness:
  "submit_blocking_to_leader (\<lambda>i. if i = 1 then Some \<lparr>resp_status = 200, resp_bytes = None, resp_text = ''ok''\<rparr>
    else None) = (200, ''ok'')"
proof -
  let ?send = "\<lambda>i :: nat. if i = 1 then Some \<lparr>resp_status = 200, resp_bytes = None, resp_text = ''ok''\<rparr> else None"
  obtain code txt_body where r: "submit_blocking_to_leader ?send = (code, txt_body)" by (metis prod.exhaust)
  with pinned_submit_outcome [of ?send] show ?thesis
    by (auto simp: should_retry_pinned_submit_def split: if_splits)
qed

end
