(* ===== verification/Config.thy ===== *)
theory Config
  imports Relayer Strings
begin

text \<open>
  The configuration of a validator, \<open>src/bin/validator/src/config.rs\<close>, and what \<open>run.rs\<close> starts from it: the
  structures of the YAML files, the decoding of keys, DKG output and share, the resolution of host names in
  URLs, and the two loaders. Reading files, YAML parsing, hex, key and DKG decoding and the IPv6 syntax are
  parameters; IPv4 socket addresses are parsed and printed as the standard library does it. A panic is an
  \<open>Err\<close>. Shown: what a loaded configuration guarantees, whichever loader built it.
\<close>

section \<open>Socket addresses\<close>

datatype ip_addr = IpV4 u8 u8 u8 u8 | IpV6 bytes

record socket_addr =
  sa_ip :: ip_addr
  sa_port :: u16

definition parse_octet :: "string \<Rightarrow> u8 option" where
  "parse_octet s =
    (case parse_nat s of
       None \<Rightarrow> None
     | Some n \<Rightarrow>
         if length s \<le> 3 \<and> (hd s = CHR ''0'' \<longrightarrow> length s = 1) \<and> n \<le> 255 then Some (word_of_nat n) else None)"

definition parse_port :: "string \<Rightarrow> u16 option" where
  "parse_port s = (case parse_nat s of None \<Rightarrow> None | Some n \<Rightarrow> if n \<le> 65535 then Some (word_of_nat n) else None)"

definition parse_ipv4 :: "string \<Rightarrow> ip_addr option" where
  "parse_ipv4 s =
    Option.bind (split_once CHR ''.'' s) (\<lambda>(a, s).
    Option.bind (split_once CHR ''.'' s) (\<lambda>(b, s).
    Option.bind (split_once CHR ''.'' s) (\<lambda>(c, d).
    Option.bind (parse_octet a) (\<lambda>a. Option.bind (parse_octet b) (\<lambda>b.
    Option.bind (parse_octet c) (\<lambda>c. Option.bind (parse_octet d) (\<lambda>d. Some (IpV4 a b c d))))))))"

definition parse_socket_v4 :: "string \<Rightarrow> socket_addr option" where
  "parse_socket_v4 s =
    Option.bind (split_once CHR '':'' s) (\<lambda>(ip, port).
    Option.bind (parse_ipv4 ip) (\<lambda>ip. Option.bind (parse_port port) (\<lambda>port. Some \<lparr>sa_ip = ip, sa_port = port\<rparr>)))"

definition show_port :: "u16 \<Rightarrow> string" where
  "show_port p = show_nat (unat p)"

fun show_ip :: "(bytes \<Rightarrow> string) \<Rightarrow> ip_addr \<Rightarrow> string" where
  "show_ip v6 (IpV4 a b c d) =
    show_nat (unat a) @ ''.'' @ show_nat (unat b) @ ''.'' @ show_nat (unat c) @ ''.'' @ show_nat (unat d)"
| "show_ip v6 (IpV6 bs) = v6 bs"

section \<open>The files\<close>

record indexer_config =
  chain_indexer_url :: string
  upload_buffer :: nat

datatype startup_mode_config = MarshalSync | StateSync

record relayer_config =
  max_retry_views :: u64
  rc_leaders :: "leader_config list"

record named_bootstrapper_entry =
  nb_public_key :: string
  nb_name :: string

record validator_config =
  vc_private_key :: string
  vc_dkg_output :: string
  vc_dkg_share :: string
  vc_startup :: startup_mode_config
  vc_listen_port :: u16
  vc_genesis_leader :: string
  vc_partition_prefix :: string
  vc_num_validators :: u32
  vc_primary_validators :: "string list"
  vc_secondary_validators :: "string list"
  vc_log_level :: string
  vc_worker_threads :: nat
  vc_rayon_threads :: nat
  vc_http_port :: u16
  vc_metrics_port :: u16
  vc_max_propose_bytes :: nat
  vc_max_pool_bytes :: nat
  vc_prune_cadence_blocks :: u64
  vc_bootstrappers :: "named_bootstrapper_entry list"
  vc_indexer :: "indexer_config option"
  vc_relayer :: "relayer_config option"

definition default_prune_cadence_blocks :: u64 where
  "default_prune_cadence_blocks = 1024"

definition default_relayer_retry_views :: u64 where
  "default_relayer_retry_views = 8"

record peer_entry =
  pe_name :: string
  pe_p2p :: string
  pe_http :: string

record peers_file =
  pf_validators :: "peer_entry list"
  pf_secondaries :: "peer_entry list"

record ('o, 's) decoded_config =
  dc_signer :: bytes
  dc_public_key :: bytes
  dc_dkg_output :: 'o
  dc_share :: "'s option"
  dc_genesis_leader :: bytes
  dc_listen_bind :: socket_addr
  dc_listen_advertise :: socket_addr
  dc_primary_participants :: "bytes list"
  dc_secondary_participants :: "bytes list"
  dc_bootstrappers :: "(bytes \<times> socket_addr) list"
  dc_partition_prefix :: string

record ('o, 's) loaded_config =
  ld_decoded :: "('o, 's) decoded_config"
  ld_startup :: startup_mode_config
  ld_log_level :: string
  ld_worker_threads :: nat
  ld_rayon_threads :: nat
  ld_http_listen :: socket_addr
  ld_metrics_listen :: socket_addr
  ld_max_propose_bytes :: nat
  ld_max_pool_bytes :: nat
  ld_prune_cadence_blocks :: u64
  ld_json_logs :: bool
  ld_deployer_managed :: bool
  ld_indexer :: "indexer_config option"
  ld_relayer :: "relayer_config option"

section \<open>Decoding\<close>

text \<open>Keys stand for their encodings; \<open>'o\<close> is the type of DKG outputs and \<open>'s\<close> that of shares.\<close>

record ('o, 's) config_lib =
  to_hex :: "bytes \<Rightarrow> string"
  of_hex :: "string \<Rightarrow> bytes option"
  sk_read :: "bytes \<Rightarrow> bytes option"
  sk_public :: "bytes \<Rightarrow> bytes"
  key_read :: "bytes \<Rightarrow> bytes option"
  output_read :: "u32 \<Rightarrow> bytes \<Rightarrow> 'o option"
  output_encode :: "'o \<Rightarrow> bytes"
  share_read :: "bytes \<Rightarrow> 's option"
  share_encode :: "'s \<Rightarrow> bytes"
  parse_socket_v6 :: "string \<Rightarrow> socket_addr option"
  show_v6 :: "bytes \<Rightarrow> string"

datatype config_panic =
    BadHex string
  | BadPrivateKey
  | ZeroValidators
  | BadDkgOutput
  | BadShare
  | BadPublicKey
  | BadSocket string
  | SelfNotListed string
  | MissingSelf string
  | MissingBootstrapper string
  | RelayerOnPrimary
  | RelayerAndIndexer

definition decode_hex_field :: "('o, 's, 'x) config_lib_scheme \<Rightarrow> string \<Rightarrow> string \<Rightarrow> (config_panic, bytes) result" where
  "decode_hex_field lib field_name s = ok_or (of_hex lib s) (BadHex field_name)"

definition decode_private_key :: "('o, 's, 'x) config_lib_scheme \<Rightarrow> string \<Rightarrow> (config_panic, bytes) result" where
  "decode_private_key lib s =
    bind_res (decode_hex_field lib ''private_key'' s) (\<lambda>bytes. ok_or (sk_read lib bytes) BadPrivateKey)"

definition decode_dkg_output :: "('o, 's, 'x) config_lib_scheme \<Rightarrow> string \<Rightarrow> u32 \<Rightarrow> (config_panic, 'o) result" where
  "decode_dkg_output lib s num_validators =
    bind_res (decode_hex_field lib ''dkg_output'' s) (\<lambda>bytes.
      if num_validators = 0 then Err ZeroValidators else ok_or (output_read lib num_validators bytes) BadDkgOutput)"

definition decode_share_opt :: "('o, 's, 'x) config_lib_scheme \<Rightarrow> string \<Rightarrow> (config_panic, 's option) result" where
  "decode_share_opt lib s =
    (if s = [] then Ok None
     else bind_res (decode_hex_field lib ''dkg_share'' s) (\<lambda>bytes.
       bind_res (ok_or (share_read lib bytes) BadShare) (\<lambda>share. Ok (Some share))))"

definition decode_public_key :: "('o, 's, 'x) config_lib_scheme \<Rightarrow> string \<Rightarrow> string \<Rightarrow> (config_panic, bytes) result" where
  "decode_public_key lib field_name s =
    bind_res (decode_hex_field lib field_name s) (\<lambda>bytes. ok_or (key_read lib bytes) BadPublicKey)"

definition parse_socket :: "('o, 's, 'x) config_lib_scheme \<Rightarrow> string \<Rightarrow> string \<Rightarrow> (config_panic, socket_addr) result" where
  "parse_socket lib name s =
    (case parse_socket_v4 s of
       Some a \<Rightarrow> Ok a
     | None \<Rightarrow> ok_or (parse_socket_v6 lib s) (BadSocket name))"

definition resolve_named_http_url :: "(bytes \<Rightarrow> string) \<Rightarrow> string \<Rightarrow> (string \<rightharpoonup> ip_addr) \<Rightarrow> string" where
  "resolve_named_http_url v6 url hosts_by_name =
    (case strip_prefix ''http://'' url of
       None \<Rightarrow> url
     | Some rest \<Rightarrow>
         (case (case split_once CHR ''/'' rest of
              Some (authority, path) \<Rightarrow> (authority, ''/'' @ path)
            | None \<Rightarrow> (rest, [])) of
            (authority, path) \<Rightarrow>
              (case rsplit_once CHR '':'' authority of
                 None \<Rightarrow> url
               | Some (host, port) \<Rightarrow>
                   (case hosts_by_name host of
                      None \<Rightarrow> url
                    | Some ip \<Rightarrow> ''http://'' @ show_ip v6 ip @ '':'' @ port @ path))))"

text \<open>The first error ends the collection of an iterator of decoded values.\<close>

fun traverse :: "('a \<Rightarrow> ('e, 'b) result) \<Rightarrow> 'a list \<Rightarrow> ('e, 'b list) result" where
  "traverse f [] = Ok []"
| "traverse f (x # xs) = bind_res (f x) (\<lambda>y. bind_res (traverse f xs) (\<lambda>ys. Ok (y # ys)))"

definition any_address :: "string \<Rightarrow> u16 \<Rightarrow> (config_panic, socket_addr) result" where
  "any_address name port = ok_or (parse_socket_v4 (''0.0.0.0:'' @ show_port port)) (BadSocket name)"

definition decode_with_network ::
    "('o, 's, 'x) config_lib_scheme \<Rightarrow> validator_config \<Rightarrow> socket_addr \<Rightarrow> bytes list \<Rightarrow> bytes list
      \<Rightarrow> (bytes \<times> socket_addr) list \<Rightarrow> bool \<Rightarrow> (config_panic, ('o, 's) loaded_config) result" where
  "decode_with_network lib config public_listen primary_participants secondary_participants bootstrappers json_logs =
    bind_res (decode_private_key lib (vc_private_key config)) (\<lambda>signer.
    bind_res (decode_dkg_output lib (vc_dkg_output config) (vc_num_validators config)) (\<lambda>dkg_output.
    bind_res (decode_share_opt lib (vc_dkg_share config)) (\<lambda>share.
    if share \<noteq> None \<and> vc_relayer config \<noteq> None then Err RelayerOnPrimary
    else if vc_indexer config \<noteq> None \<and> vc_relayer config \<noteq> None then Err RelayerAndIndexer
    else
      bind_res (decode_public_key lib ''genesis_leader'' (vc_genesis_leader config)) (\<lambda>genesis_leader.
      bind_res (any_address ''listen'' (vc_listen_port config)) (\<lambda>listen_bind.
      bind_res (any_address ''http'' (vc_http_port config)) (\<lambda>http_listen.
      bind_res (any_address ''metrics'' (vc_metrics_port config)) (\<lambda>metrics_listen.
      Ok \<lparr>ld_decoded =
            \<lparr>dc_signer = signer, dc_public_key = sk_public lib signer, dc_dkg_output = dkg_output, dc_share = share,
             dc_genesis_leader = genesis_leader, dc_listen_bind = listen_bind, dc_listen_advertise = public_listen,
             dc_primary_participants = primary_participants, dc_secondary_participants = secondary_participants,
             dc_bootstrappers = bootstrappers, dc_partition_prefix = vc_partition_prefix config\<rparr>,
          ld_startup = vc_startup config, ld_log_level = vc_log_level config,
          ld_worker_threads = vc_worker_threads config, ld_rayon_threads = vc_rayon_threads config,
          ld_http_listen = http_listen, ld_metrics_listen = metrics_listen,
          ld_max_propose_bytes = vc_max_propose_bytes config, ld_max_pool_bytes = vc_max_pool_bytes config,
          ld_prune_cadence_blocks = vc_prune_cadence_blocks config, ld_json_logs = json_logs,
          ld_deployer_managed = json_logs, ld_indexer = vc_indexer config, ld_relayer = vc_relayer config\<rparr>)))))))"

definition decode_participants ::
    "('o, 's, 'x) config_lib_scheme \<Rightarrow> string list \<Rightarrow> string list \<Rightarrow> bytes \<Rightarrow> (config_panic, bytes list \<times> bytes list) result" where
  "decode_participants lib primary_hex secondary_hex self_key =
    bind_res (traverse (decode_public_key lib ''primary_validators'') primary_hex) (\<lambda>primary.
    bind_res (traverse (decode_public_key lib ''secondary_validators'') secondary_hex) (\<lambda>secondary.
    if self_key \<notin> set primary \<and> self_key \<notin> set secondary then Err (SelfNotListed (to_hex lib self_key))
    else Ok (primary, secondary)))"

text \<open>A hash map collected from pairs: the last entry of a key wins.\<close>

definition collect_map :: "('k \<times> 'v) list \<Rightarrow> 'k \<rightharpoonup> 'v" where
  "collect_map xs = map_of (rev xs)"

definition load_local_config ::
    "('o, 's, 'x) config_lib_scheme \<Rightarrow> peers_file \<Rightarrow> validator_config \<Rightarrow> (config_panic, ('o, 's) loaded_config) result" where
  "load_local_config lib peers config =
    bind_res (decode_private_key lib (vc_private_key config)) (\<lambda>signer.
    let self_public_key = sk_public lib signer; self_name = to_hex lib self_public_key in
    bind_res (decode_participants lib (vc_primary_validators config) (vc_secondary_validators config) self_public_key)
      (\<lambda>(primary_participants, secondary_participants).
    let peers_by_name = collect_map (map (\<lambda>p. (pe_name p, p)) (pf_validators peers @ pf_secondaries peers)) in
    bind_res (ok_or (peers_by_name self_name) (MissingSelf self_name)) (\<lambda>self_peer.
    bind_res (parse_socket lib ''self p2p'' (pe_p2p self_peer)) (\<lambda>public_listen.
    bind_res (parse_socket lib ''self http'' (pe_http self_peer)) (\<lambda>_.
    bind_res (traverse (\<lambda>b.
        bind_res (decode_public_key lib ''bootstrapper public_key'' (nb_public_key b)) (\<lambda>public_key.
        bind_res (ok_or (peers_by_name (nb_name b)) (MissingBootstrapper (nb_name b))) (\<lambda>peer.
        bind_res (parse_socket lib ''bootstrapper p2p'' (pe_p2p peer)) (\<lambda>address.
        Ok (public_key, address))))) (vc_bootstrappers config)) (\<lambda>bootstrappers.
    decode_with_network lib config public_listen primary_participants secondary_participants bootstrappers False))))))"

text \<open>The hosts file is the list of names and addresses.\<close>

definition load_deployer_config ::
    "('o, 's, 'x) config_lib_scheme \<Rightarrow> (string \<times> ip_addr) list \<Rightarrow> validator_config
      \<Rightarrow> (config_panic, ('o, 's) loaded_config) result" where
  "load_deployer_config lib hosts config =
    bind_res (decode_private_key lib (vc_private_key config)) (\<lambda>signer.
    let self_public_key = sk_public lib signer; self_name = to_hex lib self_public_key in
    bind_res (decode_participants lib (vc_primary_validators config) (vc_secondary_validators config) self_public_key)
      (\<lambda>(primary_participants, secondary_participants).
    let hosts_by_name = collect_map hosts;
        resolve = (\<lambda>url. resolve_named_http_url (show_v6 lib) url hosts_by_name);
        config = config
          \<lparr>vc_indexer := map_option (\<lambda>i. i\<lparr>chain_indexer_url := resolve (chain_indexer_url i)\<rparr>) (vc_indexer config),
           vc_relayer := map_option
             (\<lambda>r. r\<lparr>rc_leaders := map (\<lambda>l. l\<lparr>lc_url := resolve (lc_url l)\<rparr>) (rc_leaders r)\<rparr>) (vc_relayer config)\<rparr> in
    bind_res (ok_or (hosts_by_name self_name) (MissingSelf self_name)) (\<lambda>self_ip.
    let public_listen = \<lparr>sa_ip = self_ip, sa_port = vc_listen_port config\<rparr> in
    bind_res (traverse (\<lambda>b.
        bind_res (decode_public_key lib ''bootstrapper public_key'' (nb_public_key b)) (\<lambda>public_key.
        bind_res (ok_or (hosts_by_name (nb_name b)) (MissingBootstrapper (nb_name b))) (\<lambda>ip.
        Ok (public_key, \<lparr>sa_ip = ip, sa_port = vc_listen_port config\<rparr>)))) (vc_bootstrappers config)) (\<lambda>bootstrappers.
    decode_with_network lib config public_listen primary_participants secondary_participants bootstrappers True))))"

section \<open>What a node starts\<close>

datatype http_service =
    ServesMempool socket_addr
  | ServesRelayer socket_addr relayer_config
  | ServesNothing

definition is_primary :: "('o, 's) loaded_config \<Rightarrow> bool" where
  "is_primary l = (dc_share (ld_decoded l) \<noteq> None)"

definition http_service_of :: "('o, 's) loaded_config \<Rightarrow> http_service" where
  "http_service_of l =
    (if is_primary l then ServesMempool (ld_http_listen l)
     else case ld_relayer l of
       Some relayer_config \<Rightarrow> ServesRelayer (ld_http_listen l) relayer_config
     | None \<Rightarrow> ServesNothing)"

definition maybe_build_indexer :: "bool \<Rightarrow> indexer_config option \<Rightarrow> indexer_config option" where
  "maybe_build_indexer primary indexer =
    (case indexer of None \<Rightarrow> None | Some cfg \<Rightarrow> if primary then None else Some cfg)"

definition reports_to_mempool :: "('o, 's) loaded_config \<Rightarrow> bool" where
  "reports_to_mempool l = is_primary l"

section \<open>Addresses and names\<close>

lemma parse_show_port [simp]: "parse_port (show_port p) = Some p"
proof -
  have "unat p < 65536" using unsigned_less [of p] by simp
  then show ?thesis by (simp add: parse_port_def show_port_def)
qed

lemma show_nat_leading_zero: "hd (show_nat n) = CHR ''0'' \<longleftrightarrow> n = 0"
proof (induction n rule: show_nat.induct)
  case (1 n)
  have "digit_char 0 = CHR ''0''" by code_simp
  moreover have "(of_char CHR ''0'' :: nat) = 48" by code_simp
  ultimately have "digit_char n = CHR ''0'' \<longleftrightarrow> n = 0" if "n < 10"
    using of_char_digit [OF that] by auto
  with 1 show ?case by (subst show_nat.simps) (auto simp: hd_append)
qed

lemma show_nat_three: "n < 1000 \<Longrightarrow> length (show_nat n) \<le> 3"
  by (simp add: show_nat.simps [of n] show_nat.simps [of "n div 10"] show_nat.simps [of "n div 10 div 10"])

lemma parse_show_octet [simp]: "parse_octet (show_nat (unat b)) = Some b"
proof -
  have "unat b < 256" using unsigned_less [of b] by simp
  moreover have "hd (show_nat (unat b)) = CHR ''0'' \<longrightarrow> length (show_nat (unat b)) = 1"
    unfolding show_nat_leading_zero by (simp add: show_nat.simps)
  ultimately show ?thesis using show_nat_three [of "unat b"] by (simp add: parse_octet_def)
qed

lemma digits_no_separator [simp]:
  "CHR ''.'' \<notin> set (show_nat n)" "CHR '':'' \<notin> set (show_nat n)" "CHR ''/'' \<notin> set (show_nat n)"
  by (rule show_nat_avoid, simp add: is_digit_def)+

lemma show_ipv4_no_separator [simp]:
  "CHR '':'' \<notin> set (show_ip v6 (IpV4 a b c d))" "CHR ''/'' \<notin> set (show_ip v6 (IpV4 a b c d))"
  by simp_all

lemma parse_ipv4_show [simp]: "parse_ipv4 (show_ip v6 (IpV4 a b c d)) = Some (IpV4 a b c d)"
  by (simp add: parse_ipv4_def)

lemma parse_socket_v4_show:
  "parse_socket_v4 (show_ip v6 (IpV4 a b c d) @ '':'' @ show_port p) = Some \<lparr>sa_ip = IpV4 a b c d, sa_port = p\<rparr>"
proof -
  have "split_once CHR '':'' (show_ip v6 (IpV4 a b c d) @ '':'' @ show_port p) = Some (show_ip v6 (IpV4 a b c d), show_port p)"
    using split_once_append [OF show_ipv4_no_separator(1)] by simp
  then show ?thesis unfolding parse_socket_v4_def by (simp del: show_ip.simps)
qed

lemma show_small: "show_nat 0 = ''0''" "show_nat (Suc 0) = ''1''" "show_nat 127 = ''127''"
  by code_simp+

lemma any_address_eq: "any_address name p = Ok \<lparr>sa_ip = IpV4 0 0 0 0, sa_port = p\<rparr>"
  using parse_socket_v4_show [of undefined 0 0 0 0 p] by (simp add: any_address_def show_small)

lemma parse_loopback: "parse_socket_v4 (''127.0.0.1:'' @ show_port p) = Some \<lparr>sa_ip = IpV4 127 0 0 1, sa_port = p\<rparr>"
  using parse_socket_v4_show [of undefined 127 0 0 1 p] by (simp add: show_small)

lemma resolve_named:
  assumes "CHR ''/'' \<notin> set host"
  shows "resolve_named_http_url v6 (''http://'' @ host @ '':'' @ show_port p) hosts =
    ''http://'' @ (case hosts host of None \<Rightarrow> host | Some ip \<Rightarrow> show_ip v6 ip) @ '':'' @ show_port p"
proof -
  have "split_once CHR ''/'' (host @ '':'' @ show_port p) = None"
    using assms by (intro split_once_None) (simp add: show_port_def)
  moreover have "rsplit_once CHR '':'' (host @ '':'' @ show_port p) = Some (host, show_port p)"
    using rsplit_once_append [of "CHR '':''" "show_port p" host] by (simp add: show_port_def)
  ultimately show ?thesis
    unfolding resolve_named_http_url_def strip_prefix_append by (simp split: option.splits)
qed

section \<open>Decoding what was encoded\<close>

lemma traverse_map: "(\<And>x. x \<in> set xs \<Longrightarrow> f x = Ok (g x)) \<Longrightarrow> traverse f xs = Ok (map g xs)"
  by (induction xs) simp_all

lemma traverse_Ok_length: "traverse f xs = Ok ys \<Longrightarrow> length ys = length xs"
  by (induction xs arbitrary: ys) (auto simp: bind_res_Ok_iff)

lemma collect_map_distinct:
  assumes "distinct (map fst xs)" "(k, v) \<in> set xs"
  shows "collect_map xs k = Some v"
  unfolding collect_map_def using assms by (intro map_of_is_SomeI) (simp_all add: rev_map [symmetric])

text \<open>What is relied on of the libraries: hex prints two characters for a byte, of the lower-case digits, and
  reads them back; the encodings of keys read back.\<close>

definition config_lib_ok :: "('o, 's, 'x) config_lib_scheme \<Rightarrow> bool" where
  "config_lib_ok lib \<longleftrightarrow>
    (\<forall>bs. of_hex lib (to_hex lib bs) = Some bs \<and> length (to_hex lib bs) = 2 * length bs \<and>
      set (to_hex lib bs) \<subseteq> set ''0123456789abcdef'')"

lemma config_hex: "config_lib_ok lib \<Longrightarrow> of_hex lib (to_hex lib bs) = Some bs"
  by (simp add: config_lib_ok_def)

lemma config_hex_inj: "config_lib_ok lib \<Longrightarrow> to_hex lib x = to_hex lib y \<longleftrightarrow> x = y"
  by (metis config_hex option.inject)

lemma config_hex_chars:
  assumes "config_lib_ok lib"
  shows "CHR ''/'' \<notin> set (to_hex lib bs)"
proof -
  have "set (to_hex lib bs) \<subseteq> set ''0123456789abcdef''" using assms by (simp only: config_lib_ok_def)
  then show ?thesis by auto
qed

lemma decode_private_key_hex:
  "config_lib_ok lib \<Longrightarrow> sk_read lib sk = Some sk \<Longrightarrow> decode_private_key lib (to_hex lib sk) = Ok sk"
  by (simp add: decode_private_key_def decode_hex_field_def config_hex)

lemma decode_public_key_hex:
  "config_lib_ok lib \<Longrightarrow> key_read lib k = Some k \<Longrightarrow> decode_public_key lib name (to_hex lib k) = Ok k"
  by (simp add: decode_public_key_def decode_hex_field_def config_hex)

lemma decode_dkg_output_hex:
  "config_lib_ok lib \<Longrightarrow> n \<noteq> 0 \<Longrightarrow> output_read lib n (output_encode lib out) = Some out \<Longrightarrow>
    decode_dkg_output lib (to_hex lib (output_encode lib out)) n = Ok out"
  by (simp add: decode_dkg_output_def decode_hex_field_def config_hex)

lemma decode_share_hex:
  assumes "config_lib_ok lib" "share_encode lib sh \<noteq> []" "share_read lib (share_encode lib sh) = Some sh"
  shows "decode_share_opt lib (to_hex lib (share_encode lib sh)) = Ok (Some sh)"
proof -
  have "length (to_hex lib (share_encode lib sh)) = 2 * length (share_encode lib sh)"
    using assms(1) by (simp only: config_lib_ok_def)
  then have "to_hex lib (share_encode lib sh) \<noteq> []" using assms(2) by auto
  with assms(1,3) show ?thesis by (simp add: decode_share_opt_def decode_hex_field_def config_hex)
qed

lemma decode_participants_hex:
  assumes "config_lib_ok lib" "\<forall>k \<in> set ps \<union> set ss. key_read lib k = Some k" "self \<in> set ps \<union> set ss"
  shows "decode_participants lib (map (to_hex lib) ps) (map (to_hex lib) ss) self = Ok (ps, ss)"
proof -
  have "traverse (decode_public_key lib name) (map (to_hex lib) xs) = Ok xs"
    if "\<forall>k \<in> set xs. key_read lib k = Some k" for xs name
    using that by (induction xs) (simp_all add: decode_public_key_hex [OF assms(1)])
  with assms(2,3) show ?thesis by (auto simp: decode_participants_def)
qed

section \<open>What a loaded configuration guarantees\<close>

lemma decode_with_network_eq:
  assumes "decode_private_key lib (vc_private_key config) = Ok signer"
    and "decode_dkg_output lib (vc_dkg_output config) (vc_num_validators config) = Ok out"
    and "decode_share_opt lib (vc_dkg_share config) = Ok share"
  shows "decode_with_network lib config listen ps ss bs json =
    (if share \<noteq> None \<and> vc_relayer config \<noteq> None then Err RelayerOnPrimary
     else if vc_indexer config \<noteq> None \<and> vc_relayer config \<noteq> None then Err RelayerAndIndexer
     else bind_res (decode_public_key lib ''genesis_leader'' (vc_genesis_leader config)) (\<lambda>genesis_leader.
      Ok \<lparr>ld_decoded =
            \<lparr>dc_signer = signer, dc_public_key = sk_public lib signer, dc_dkg_output = out, dc_share = share,
             dc_genesis_leader = genesis_leader,
             dc_listen_bind = \<lparr>sa_ip = IpV4 0 0 0 0, sa_port = vc_listen_port config\<rparr>, dc_listen_advertise = listen,
             dc_primary_participants = ps, dc_secondary_participants = ss,
             dc_bootstrappers = bs, dc_partition_prefix = vc_partition_prefix config\<rparr>,
          ld_startup = vc_startup config, ld_log_level = vc_log_level config,
          ld_worker_threads = vc_worker_threads config, ld_rayon_threads = vc_rayon_threads config,
          ld_http_listen = \<lparr>sa_ip = IpV4 0 0 0 0, sa_port = vc_http_port config\<rparr>,
          ld_metrics_listen = \<lparr>sa_ip = IpV4 0 0 0 0, sa_port = vc_metrics_port config\<rparr>,
          ld_max_propose_bytes = vc_max_propose_bytes config, ld_max_pool_bytes = vc_max_pool_bytes config,
          ld_prune_cadence_blocks = vc_prune_cadence_blocks config, ld_json_logs = json,
          ld_deployer_managed = json, ld_indexer = vc_indexer config, ld_relayer = vc_relayer config\<rparr>))"
  by (simp add: decode_with_network_def assms any_address_eq)

lemma decode_with_network_Ok:
  assumes "decode_with_network lib config listen ps ss bs json = Ok l"
  obtains signer out share gl where
    "decode_private_key lib (vc_private_key config) = Ok signer"
    "decode_dkg_output lib (vc_dkg_output config) (vc_num_validators config) = Ok out"
    "decode_share_opt lib (vc_dkg_share config) = Ok share"
    "share \<noteq> None \<or> vc_indexer config \<noteq> None \<longrightarrow> vc_relayer config = None"
    "dc_signer (ld_decoded l) = signer" "dc_public_key (ld_decoded l) = sk_public lib signer"
    "dc_share (ld_decoded l) = share" "dc_listen_advertise (ld_decoded l) = listen"
    "dc_primary_participants (ld_decoded l) = ps" "dc_secondary_participants (ld_decoded l) = ss"
    "dc_bootstrappers (ld_decoded l) = bs" "ld_indexer l = vc_indexer config" "ld_relayer l = vc_relayer config"
    "ld_http_listen l = \<lparr>sa_ip = IpV4 0 0 0 0, sa_port = vc_http_port config\<rparr>"
proof -
  obtain signer out share where d: "decode_private_key lib (vc_private_key config) = Ok signer"
    "decode_dkg_output lib (vc_dkg_output config) (vc_num_validators config) = Ok out"
    "decode_share_opt lib (vc_dkg_share config) = Ok share"
    using assms by (auto simp: decode_with_network_def bind_res_Ok_iff)
  show thesis
    by (rule that [OF d]; use assms [unfolded decode_with_network_eq [OF d]] in \<open>auto simp: bind_res_Ok_iff split: if_splits\<close>)
qed

text \<open>Whichever loader built it, a loaded configuration has the key of the file, which is one of the participants;
  a node plays one role: it serves its mempool, or serves as a relayer, or uploads to the index, or only follows.\<close>

lemma loaded_config_sound:
  assumes "load_local_config lib peers config = Ok l \<or> load_deployer_config lib hosts config = Ok l"
  shows "decode_private_key lib (vc_private_key config) = Ok (dc_signer (ld_decoded l)) \<and>
    dc_public_key (ld_decoded l) = sk_public lib (dc_signer (ld_decoded l)) \<and>
    dc_public_key (ld_decoded l) \<in> set (dc_primary_participants (ld_decoded l)) \<union> set (dc_secondary_participants (ld_decoded l)) \<and>
    (case http_service_of l of
       ServesMempool a \<Rightarrow> is_primary l \<and> maybe_build_indexer (is_primary l) (ld_indexer l) = None \<and> ld_relayer l = None
     | ServesRelayer a r \<Rightarrow> \<not> is_primary l \<and> maybe_build_indexer (is_primary l) (ld_indexer l) = None \<and> ld_relayer l = Some r
     | ServesNothing \<Rightarrow> \<not> is_primary l \<and> ld_relayer l = None)"
proof -
  obtain sk ps ss cfg listen bs json where
    d: "decode_private_key lib (vc_private_key config) = Ok sk"
      "decode_participants lib (vc_primary_validators config) (vc_secondary_validators config) (sk_public lib sk) = Ok (ps, ss)"
      "decode_with_network lib cfg listen ps ss bs json = Ok l" "vc_private_key cfg = vc_private_key config"
  proof (rule disjE [OF assms])
    assume "load_local_config lib peers config = Ok l"
    then show thesis
      unfolding load_local_config_def Let_def by (auto simp: bind_res_Ok_iff intro: that)
  next
    assume "load_deployer_config lib hosts config = Ok l"
    then show thesis
      unfolding load_deployer_config_def Let_def by (auto simp: bind_res_Ok_iff intro: that)
  qed
  from d(2) have listed: "sk_public lib sk \<in> set ps \<union> set ss"
    by (auto simp: decode_participants_def bind_res_Ok_iff split: if_splits)
  from decode_with_network_Ok [OF d(3)] obtain share where
    l: "dc_signer (ld_decoded l) = sk" "dc_public_key (ld_decoded l) = sk_public lib sk" "dc_share (ld_decoded l) = share"
      "dc_primary_participants (ld_decoded l) = ps" "dc_secondary_participants (ld_decoded l) = ss"
      "share \<noteq> None \<or> ld_indexer l \<noteq> None \<longrightarrow> ld_relayer l = None"
    using d(1,4) by (metis result.inject(2))
  show ?thesis
    using l d(1) listed
    by (auto simp: http_service_of_def is_primary_def maybe_build_indexer_def split: option.splits)
qed

end
