(* ===== verification/Client.thy ===== *)
theory Client
  imports Relayer
begin

text \<open>
  The HTTP client of the mempool, \<open>src/crates/mempool/src/webserver/client.rs\<close>. A request is the
  method's URL and body; the answer of the network is an argument, \<open>None\<close> when the request fails, and
  \<open>resp_bytes\<close> is \<open>None\<close> when the body cannot be read. JSON parsing is a library function. The lemma
  composes the client with the handlers of \<open>Http\<close>: the caller sees what the handler decided.
\<close>

datatype submit_error =
    SubmitBadRequest
  | SubmitPayloadTooLarge
  | SubmitServiceUnavailable
  | SubmitInternalServerError
  | SubmitHttp
  | SubmitInvalidResponse
  | SubmitUnexpected nat

record client =
  cl_url :: string

definition client_new :: "string \<Rightarrow> client" where
  "client_new url = \<lparr>cl_url = url\<rparr>"

definition parsed_body :: "(bytes \<Rightarrow> 'a option) \<Rightarrow> http_response \<Rightarrow> (submit_error, 'a) result" where
  "parsed_body parse r =
    bind_res (ok_or (resp_bytes r) SubmitHttp) (\<lambda>bytes. ok_or (parse bytes) SubmitInvalidResponse)"

definition client_submit ::
    "'x tx_env_scheme \<Rightarrow> (bytes list \<Rightarrow> bytes) \<Rightarrow> (bytes \<Rightarrow> tx_status option)
      \<Rightarrow> (string \<Rightarrow> bytes \<Rightarrow> http_response option) \<Rightarrow> client \<Rightarrow> signed_transaction list
      \<Rightarrow> (submit_error, tx_status) result" where
  "client_submit c encode parse post cl ts =
    (let body = encode (map (signed_transaction_write c) ts) in
     bind_res (ok_or (post (cl_url cl @ ''/transactions'') body) SubmitHttp) (\<lambda>r.
       if resp_status r = 200 then parsed_body parse r
       else if resp_status r = 400 then Err SubmitBadRequest
       else if resp_status r = 413 then Err SubmitPayloadTooLarge
       else if resp_status r = 500 then Err SubmitInternalServerError
       else if resp_status r = 503 then Err SubmitServiceUnavailable
       else Err (SubmitUnexpected (resp_status r))))"

definition client_ingest_encoded ::
    "(bytes \<Rightarrow> string list option) \<Rightarrow> (string \<Rightarrow> bytes \<Rightarrow> http_response option) \<Rightarrow> client \<Rightarrow> bytes
      \<Rightarrow> (submit_error, string list) result" where
  "client_ingest_encoded parse post cl body =
    bind_res (ok_or (post (cl_url cl @ ''/transactions/ingest'') body) SubmitHttp) (\<lambda>r.
      if resp_status r = 202 then parsed_body parse r
      else if resp_status r = 400 then Err SubmitBadRequest
      else if resp_status r = 413 then Err SubmitPayloadTooLarge
      else if resp_status r = 500 then Err SubmitInternalServerError
      else if resp_status r = 503 then Err SubmitServiceUnavailable
      else Err (SubmitUnexpected (resp_status r)))"

definition client_ingest ::
    "'x tx_env_scheme \<Rightarrow> (bytes list \<Rightarrow> bytes) \<Rightarrow> (bytes \<Rightarrow> string list option)
      \<Rightarrow> (string \<Rightarrow> bytes \<Rightarrow> http_response option) \<Rightarrow> client \<Rightarrow> signed_transaction list
      \<Rightarrow> (submit_error, string list) result" where
  "client_ingest c encode parse post cl ts =
    client_ingest_encoded parse post cl (encode (map (signed_transaction_write c) ts))"

definition client_fetch_account ::
    "(tx_public_key \<Rightarrow> string) \<Rightarrow> (bytes \<Rightarrow> account_response option) \<Rightarrow> (string \<Rightarrow> http_response option)
      \<Rightarrow> client \<Rightarrow> tx_public_key \<Rightarrow> (submit_error, account_response option) result" where
  "client_fetch_account show_key parse get cl public_key =
    bind_res (ok_or (get (cl_url cl @ ''/account/'' @ show_key public_key)) SubmitHttp) (\<lambda>r.
      if resp_status r = 200 then bind_res (parsed_body parse r) (\<lambda>a. Ok (Some a))
      else if resp_status r = 404 then Ok None
      else if resp_status r = 400 then Err SubmitBadRequest
      else if resp_status r = 500 then Err SubmitInternalServerError
      else if resp_status r = 503 then Err SubmitServiceUnavailable
      else Err (SubmitUnexpected (resp_status r)))"

section \<open>Client and handlers\<close>

text \<open>The response that the web server makes of what a handler returned; \<open>json\<close> serializes.\<close>

definition response_of :: "(body \<Rightarrow> bytes) \<Rightarrow> status_code \<times> body \<Rightarrow> http_response" where
  "response_of json r = \<lparr>resp_status = code_number (fst r), resp_bytes = Some (json (snd r)), resp_text = []\<rparr>"

lemma verify_body_errors:
  "verify_body c lib st rng died body = Err code \<Longrightarrow>
    code \<in> {BAD_REQUEST_400, PAYLOAD_TOO_LARGE_413, INTERNAL_SERVER_ERROR_500}"
  by (auto simp: verify_body_def Let_def split: option.splits result.splits if_splits)

fun error_of :: "status_code \<Rightarrow> submit_error" where
  "error_of BAD_REQUEST_400 = SubmitBadRequest"
| "error_of PAYLOAD_TOO_LARGE_413 = SubmitPayloadTooLarge"
| "error_of INTERNAL_SERVER_ERROR_500 = SubmitInternalServerError"
| "error_of SERVICE_UNAVAILABLE_503 = SubmitServiceUnavailable"
| "error_of code = SubmitUnexpected (code_number code)"

text \<open>Through the client, a submission answers the status that the pool sent, or the error that stands for the
  reason the handler refused it for: the batch, a full or closed mailbox, or a lost answer.\<close>

lemma client_submit_handler:
  assumes "\<And>s. parse (json (TxBody s)) = Some s"
  shows "client_submit c encode parse
      (\<lambda>_ body. Some (response_of json (snd (submit_batch c lib st rng died body tx out recv)))) cl ts =
    (case verify_body c lib st rng died (encode (map (signed_transaction_write c) ts)) of
       Err code \<Rightarrow> Err (error_of code)
     | Ok _ \<Rightarrow>
         if out \<noteq> Sent then Err SubmitServiceUnavailable
         else (case recv of None \<Rightarrow> Err SubmitInternalServerError | Some s \<Rightarrow> Ok s))"
proof (cases "verify_body c lib st rng died (encode (map (signed_transaction_write c) ts))")
  case (Err code)
  with verify_body_errors [OF Err] show ?thesis
    by (auto simp: client_submit_def submit_batch_def Let_def response_of_def)
next
  case (Ok batch)
  then show ?thesis
    by (cases recv) (auto simp: client_submit_def submit_batch_def Let_def response_of_def try_submit_def parsed_body_def assms)
qed

lemma client_fetch_account_handler:
  assumes "\<And>a. parse (json (AccountBody a)) = Some a" "from_hex lib (show_key pk) = Some (pk_write pk)"
    and "crypto_ok c" "pk_wf c pk"
  shows "client_fetch_account show_key parse (\<lambda>_. Some (response_of json (fetch_account c lib st (show_key pk)))) cl pk =
    (case account_reader st of
       None \<Rightarrow> Err SubmitServiceUnavailable
     | Some reader \<Rightarrow> Ok (map_option account_response_from (reader pk)))"
proof -
  have "pk_read c (pk_write pk) = Ok (pk, [])" using pk_read_write [OF assms(3,4), of "[]"] by simp
  moreover have "length (pk_write pk) = public_key_size" by (rule length_pk_write [OF assms(3,4)])
  ultimately show ?thesis
    by (auto simp: client_fetch_account_def fetch_account_def assms(1,2) response_of_def parsed_body_def split: option.splits)
qed

end
