(* ===== verification/Spammer.thy ===== *)
theory Spammer
  imports Client Executor Strings
begin

text \<open>
  The load generator, \<open>src/bin/spammer/src\<close>: settings (\<open>main.rs\<close>, \<open>config.rs\<close>), deterministic accounts
  (\<open>accounts.rs\<close>), the signing of batches around the ring of accounts (\<open>signer.rs\<close>), the jitter of batch
  sizes and the presigner (\<open>main.rs\<close>), and the submission through a relayer (\<open>submitter.rs\<close>). Ed25519
  key derivation and signing are parameters; \<open>floor (accounts * jitter)\<close> is computed in floating point
  and enters as the number \<open>extra\<close>. Shown: the presigner never panics, and whatever the sizes of its
  batches, every transaction it produces is validly signed and none is filtered by an executor that
  takes them in order on fresh accounts.
\<close>

section \<open>Accounts\<close>

record spam_lib =
  from_seed :: "u64 \<Rightarrow> bytes"
  public_of :: "bytes \<Rightarrow> bytes"
  ed_sign :: "bytes \<Rightarrow> bytes \<Rightarrow> bytes \<Rightarrow> bytes"

record spam_account =
  private_key :: bytes
  public_key :: bytes

definition generate_accounts :: "spam_lib \<Rightarrow> u32 \<Rightarrow> u64 \<Rightarrow> spam_account list" where
  "generate_accounts lib n seed_offset =
    map (\<lambda>i. let private_key = from_seed lib (seed_offset + word_of_nat i) in
           \<lparr>private_key = private_key, public_key = public_of lib private_key\<rparr>) [0..<unat n]"

section \<open>Signing\<close>

definition transaction_namespace :: bytes where
  "transaction_namespace = as_bytes ''constantinople-tx''"

text \<open>\<open>None\<close> is a panic.\<close>

definition sign_one ::
    "'x tx_env_scheme \<Rightarrow> spam_lib \<Rightarrow> spam_account \<Rightarrow> bytes \<Rightarrow> u64 \<Rightarrow> u64 \<Rightarrow> signed_transaction option" where
  "sign_one c lib sender recipient value nonce =
    map_option (transaction_seal_and_sign c (ed_sign lib (private_key sender)) transaction_namespace)
      (transaction_new c (pk_ed25519 (public_key sender)) (pk_ed25519 recipient) value nonce)"

text \<open>The loop that hands out nonces: the work items, the nonces and the cursor after it.\<close>

fun work_loop :: "nat \<Rightarrow> u64 list \<Rightarrow> nat \<Rightarrow> (nat \<times> u64) list \<times> u64 list \<times> nat" where
  "work_loop 0 nonces cursor = ([], nonces, cursor)"
| "work_loop (Suc k) nonces cursor =
    (let nonce = nonces ! cursor;
         (work, nonces', cursor') = work_loop k (nonces[cursor := nonce + 1]) ((cursor + 1) mod length nonces) in
     ((cursor, nonce) # work, nonces', cursor'))"

definition sign_batch ::
    "'x tx_env_scheme \<Rightarrow> spam_lib \<Rightarrow> spam_account list \<Rightarrow> u64 \<Rightarrow> u64 list \<Rightarrow> nat \<Rightarrow> nat
      \<Rightarrow> (signed_transaction list \<times> u64 list \<times> nat) option" where
  "sign_batch c lib accounts value nonces cursor n =
    (if length accounts \<noteq> length nonces \<or> accounts = [] \<or> n = 0 then None
     else
       (case work_loop n nonces cursor of
          (work, nonces, cursor) \<Rightarrow>
            map_option (\<lambda>ts. (ts, nonces, cursor))
              (collect_opt (map (\<lambda>(i, nonce).
                 sign_one c lib (accounts ! i) (public_key (accounts ! ((i + 1) mod length accounts))) value nonce) work))))"

section \<open>Batch sizes\<close>

definition jitter_rng_new :: "u64 \<Rightarrow> u64" where
  "jitter_rng_new seed = (if seed = 0 then 0x9E3779B97F4A7C15 else seed)"

definition jitter_next_u64 :: "u64 \<Rightarrow> u64" where
  "jitter_next_u64 state =
    (let x = state;
         x = xor x (push_bit 13 x);
         x = xor x (drop_bit 7 x);
         x = xor x (push_bit 17 x)
     in x)"

text \<open>The state of the generator is the number it returns.\<close>

definition jitter_range :: "u64 \<Rightarrow> nat \<Rightarrow> nat \<Rightarrow> nat \<times> u64" where
  "jitter_range state lo hi =
    (let span = word_of_nat (hi - lo) + 1; x = jitter_next_u64 state in (lo + unat (x mod span), x))"

definition jittered_batch_size :: "nat \<Rightarrow> nat \<Rightarrow> u64 \<Rightarrow> nat \<times> u64" where
  "jittered_batch_size accounts extra rng =
    (if extra = 0 then (accounts, rng)
     else (case jitter_range rng 0 extra of (r, rng) \<Rightarrow> (saturating_add_usize accounts r, rng)))"

definition relayer_target_for :: "string list \<Rightarrow> nat \<Rightarrow> string option" where
  "relayer_target_for targets index = (if targets = [] then None else Some (targets ! (index mod length targets)))"

text \<open>The first \<open>k\<close> batches that the presigner sends.\<close>

fun presign_loop ::
    "'x tx_env_scheme \<Rightarrow> spam_lib \<Rightarrow> spam_account list \<Rightarrow> u64 \<Rightarrow> nat \<Rightarrow> nat \<Rightarrow> u64 \<Rightarrow> u64 list \<Rightarrow> nat
      \<Rightarrow> signed_transaction list list option" where
  "presign_loop c lib accounts value extra 0 rng nonces cursor = Some []"
| "presign_loop c lib accounts value extra (Suc k) rng nonces cursor =
    (case jittered_batch_size (length accounts) extra rng of
       (batch_size, rng) \<Rightarrow>
         (case sign_batch c lib accounts value nonces cursor batch_size of
            None \<Rightarrow> None
          | Some (batch, nonces, cursor) \<Rightarrow>
              map_option ((#) batch) (presign_loop c lib accounts value extra k rng nonces cursor)))"

definition spawn_presigner ::
    "'x tx_env_scheme \<Rightarrow> spam_lib \<Rightarrow> spam_account list \<Rightarrow> u64 \<Rightarrow> nat \<Rightarrow> u64 \<Rightarrow> nat \<Rightarrow> signed_transaction list list option" where
  "spawn_presigner c lib accounts value extra account_offset k =
    presign_loop c lib accounts value extra k (jitter_rng_new (account_offset + 1)) (replicate (length accounts) 0) 0"

section \<open>Settings\<close>

text \<open>The fraction is a float of type \<open>'j\<close>; \<open>jitter_ok\<close> says that it lies between 0 and 1.\<close>

record 'j spammer_config =
  sc_accounts :: u32
  sc_value :: u64
  sc_seed_offset :: u64
  sc_rayon_threads :: nat
  sc_http_port :: u16
  sc_relayer_url :: string
  sc_relayer_submitters :: nat
  sc_presigned_batches :: nat
  sc_primary_validators :: "string list"
  sc_accounts_jitter :: 'j

record 'j spammer_cli =
  sl_relayer_url :: "string option"
  sl_relayer_submitters :: nat
  sl_presigned_batches :: nat
  sl_relayer_targets :: "string list"
  sl_accounts :: u32
  sl_value :: u64
  sl_seed_offset :: u64
  sl_rayon_threads :: nat
  sl_accounts_jitter :: 'j

record 'j relayer_mode_config =
  rm_relayer_url :: string
  rm_accounts_count :: u32
  rm_value :: u64
  rm_seed_offset :: u64
  rm_accounts_jitter :: 'j
  rm_relayer_submitters :: nat
  rm_presigned_batches :: nat
  rm_relayer_targets :: "string list"

definition spammer_settings ::
    "('j \<Rightarrow> bool) \<Rightarrow> (string \<Rightarrow> string) \<Rightarrow> 'j spammer_cli \<Rightarrow> 'j spammer_config option \<Rightarrow> 'j relayer_mode_config option" where
  "spammer_settings jitter_ok resolve cli config =
    (case (case config of
         Some cfg \<Rightarrow>
           Some \<lparr>rm_relayer_url = resolve (sc_relayer_url cfg), rm_accounts_count = sc_accounts cfg,
             rm_value = sc_value cfg, rm_seed_offset = sc_seed_offset cfg,
             rm_accounts_jitter = sc_accounts_jitter cfg,
             rm_relayer_submitters =
               (if sc_relayer_submitters cfg = 0 then max (length (sc_primary_validators cfg)) 1
                else sc_relayer_submitters cfg),
             rm_presigned_batches = sc_presigned_batches cfg,
             rm_relayer_targets =
               (if sc_primary_validators cfg = [] then sl_relayer_targets cli else sc_primary_validators cfg)\<rparr>
       | None \<Rightarrow>
           map_option (\<lambda>url.
             \<lparr>rm_relayer_url = url, rm_accounts_count = sl_accounts cli, rm_value = sl_value cli,
              rm_seed_offset = sl_seed_offset cli, rm_accounts_jitter = sl_accounts_jitter cli,
              rm_relayer_submitters = max (sl_relayer_submitters cli) 1,
              rm_presigned_batches = sl_presigned_batches cli, rm_relayer_targets = sl_relayer_targets cli\<rparr>)
             (sl_relayer_url cli)) of
       None \<Rightarrow> None
     | Some s \<Rightarrow>
         if jitter_ok (rm_accounts_jitter s) \<and> 0 < rm_presigned_batches s \<and> 2 \<le> rm_accounts_count s \<and>
            0 < rm_value s \<and> rm_value s \<le> default_account_balance
         then Some s else None)"

text \<open>The streams that \<open>run_relayer_mode\<close> starts: the offset of its accounts and its target.\<close>

definition relayer_streams :: "'j relayer_mode_config \<Rightarrow> (u64 \<times> string option) list" where
  "relayer_streams s =
    map (\<lambda>index. (rm_seed_offset s + word_of_nat index * ucast (rm_accounts_count s),
        relayer_target_for (rm_relayer_targets s) index)) [0..<rm_relayer_submitters s]"

section \<open>Submission\<close>

datatype relayer_batch_status =
    RelayFinalized u64
  | RelayPartiallyFinalized u64 "string list" "string list"
  | RelayDropped

record stats =
  st_finalized :: u64
  st_filtered :: u64
  st_dropped :: u64
  st_errors :: u64

definition stats_new :: stats where
  "stats_new = \<lparr>st_finalized = 0, st_filtered = 0, st_dropped = 0, st_errors = 0\<rparr>"

record relayer_submitter =
  sub_url :: string
  target_leader :: "string option"
  leader_fanout :: nat

definition relayer_submitter_new :: "string \<Rightarrow> string option \<Rightarrow> relayer_submitter" where
  "relayer_submitter_new url target = \<lparr>sub_url = trim_end_slashes url, target_leader = target, leader_fanout = 1\<rparr>"

text \<open>The headers of a request, as the relayer looks them up.\<close>

definition submit_headers :: "relayer_submitter \<Rightarrow> string \<Rightarrow> string option" where
  "submit_headers s name =
    (if name = ''content-type'' then Some ''application/octet-stream''
     else if name = leader_fanout_header then Some (show_nat (leader_fanout s))
     else if name = target_leader_header then target_leader s
     else None)"

definition submit_encoded ::
    "(bytes \<Rightarrow> relayer_batch_status option) \<Rightarrow> (string \<Rightarrow> (string \<Rightarrow> string option) \<Rightarrow> bytes \<Rightarrow> http_response option)
      \<Rightarrow> relayer_submitter \<Rightarrow> bytes \<Rightarrow> (submit_error, relayer_batch_status) result" where
  "submit_encoded parse post s body =
    bind_res (ok_or (post (sub_url s @ ''/transactions'') (submit_headers s) body) SubmitHttp) (\<lambda>r.
      if resp_status r = 200 then parsed_body parse r
      else if resp_status r = 400 then Err SubmitBadRequest
      else if resp_status r = 413 then Err SubmitPayloadTooLarge
      else if resp_status r = 500 then Err SubmitInternalServerError
      else if resp_status r = 503 then Err SubmitServiceUnavailable
      else Err (SubmitUnexpected (resp_status r)))"

definition spam_submit ::
    "'x tx_env_scheme \<Rightarrow> (bytes list \<Rightarrow> bytes) \<Rightarrow> (bytes \<Rightarrow> relayer_batch_status option)
      \<Rightarrow> (string \<Rightarrow> (string \<Rightarrow> string option) \<Rightarrow> bytes \<Rightarrow> http_response option)
      \<Rightarrow> relayer_submitter \<Rightarrow> signed_transaction list \<Rightarrow> stats \<Rightarrow> stats" where
  "spam_submit c encode parse post s batch st =
    (let n = word_of_nat (length batch) in
     case submit_encoded parse post s (encode (map (signed_transaction_write c) batch)) of
       Ok (RelayFinalized _) \<Rightarrow> st\<lparr>st_finalized := st_finalized st + n\<rparr>
     | Ok (RelayPartiallyFinalized _ included filtered) \<Rightarrow>
         st\<lparr>st_finalized := st_finalized st + word_of_nat (length included),
            st_filtered := st_filtered st + word_of_nat (length filtered)\<rparr>
     | Ok RelayDropped \<Rightarrow> st\<lparr>st_dropped := st_dropped st + n\<rparr>
     | Err _ \<Rightarrow> st\<lparr>st_errors := st_errors st + 1\<rparr>)"

text \<open>Each batch with what the network answers to its request.\<close>

definition submit_presigned_batches ::
    "'x tx_env_scheme \<Rightarrow> (bytes list \<Rightarrow> bytes) \<Rightarrow> (bytes \<Rightarrow> relayer_batch_status option) \<Rightarrow> relayer_submitter
      \<Rightarrow> (signed_transaction list \<times> (string \<Rightarrow> (string \<Rightarrow> string option) \<Rightarrow> bytes \<Rightarrow> http_response option)) list
      \<Rightarrow> stats \<Rightarrow> stats" where
  "submit_presigned_batches c encode parse s batches st =
    fold (\<lambda>(batch, post). spam_submit c encode parse post s batch) batches st"

section \<open>Money goes round the ring\<close>

text \<open>Before the account at \<open>cursor\<close> pays, the first account has paid once more than it was paid, unless a round is
  complete, and the account at \<open>cursor\<close> holds the difference.\<close>

definition ring_balance :: "nat \<Rightarrow> nat \<Rightarrow> nat \<Rightarrow> nat \<Rightarrow> nat" where
  "ring_balance b v cursor i =
    (if cursor = 0 then b else if i = 0 then b - v else if i = cursor then b + v else b)"

definition ring_ledger :: "account_key list \<Rightarrow> nat \<Rightarrow> nat \<Rightarrow> u64 list \<Rightarrow> nat \<Rightarrow> ledger \<Rightarrow> bool" where
  "ring_ledger keys b v nonces cursor L \<longleftrightarrow>
    (\<forall>i < length keys. L (keys ! i) = Some (ring_balance b v cursor i, {..<unat (nonces ! i)}))"

lemma first_free_lessThan: "first_free {..<n} = n"
  unfolding first_free_def by (rule Least_equality) auto

lemma spec_consume_next: "n < 18446744073709551615 \<Longrightarrow> spec_consume n {..<n} = {..<Suc n}"
  by (auto simp: spec_consume_def spec_accepts_def first_free_lessThan)

lemma unat_inc: "unat n < 18446744073709551615 \<Longrightarrow> unat (n + 1 :: u64) = Suc (unat n)"
  using unat_word_ariths(1) [of n 1] by simp

lemma ring_next:
  fixes n :: nat
  assumes "cursor < n" "2 \<le> n"
  shows "(cursor + 1) mod n = (if cursor + 1 = n then 0 else cursor + 1)"
  using assms by auto

lemma ring_balance_next:
  assumes "cursor < n" "2 \<le> n" "r = (cursor + 1) mod n" "v \<le> b" "i < n"
  shows "ring_balance b v r i =
    (if i = r then ring_balance b v cursor r + v
     else if i = cursor then ring_balance b v cursor cursor - v else ring_balance b v cursor i)"
  using assms(1,2,4,5) unfolding assms(3) ring_next [OF assms(1,2)] by (auto simp: ring_balance_def)

definition ring_transfer :: "account_key list \<Rightarrow> u64 \<Rightarrow> nat \<Rightarrow> u64 \<Rightarrow> prepared_transfer \<Rightarrow> bool" where
  "ring_transfer keys v i nonce t \<longleftrightarrow>
    pt_sender t = keys ! i \<and> pt_recipient t = keys ! ((i + 1) mod length keys) \<and> pt_value t = v \<and> pt_nonce t = nonce"

lemma ring_step:
  assumes "distinct keys" "length keys = n" "length nonces = n" "2 \<le> n" "cursor < n"
    and "unat v \<le> b" "b + unat v < 18446744073709551616" "unat (nonces ! cursor) < 18446744073709551615"
    and "ring_ledger keys b (unat v) nonces cursor L" "ring_transfer keys v cursor (nonces ! cursor) t"
  shows "\<exists>L'. spec_transfer t L = Some L' \<and>
    ring_ledger keys b (unat v) (nonces[cursor := nonces ! cursor + 1]) ((cursor + 1) mod n) L'"
proof -
  let ?r = "(cursor + 1) mod n" and ?b = "ring_balance b (unat v)"
  have r: "?r < n" "?r \<noteq> cursor" unfolding ring_next [OF assms(5,4)] using assms(4,5) by auto
  have ne: "keys ! cursor \<noteq> keys ! ?r" using assms(1,2,5) r by (simp add: nth_eq_iff_index_eq)
  have L: "L (keys ! i) = Some (?b cursor i, {..<unat (nonces ! i)})" if "i < n" for i
    using assms(2,9) that by (simp add: ring_ledger_def)
  define L' where "L' = L(keys ! cursor \<mapsto> (?b cursor cursor - unat v, {..<Suc (unat (nonces ! cursor))}),
    keys ! ?r \<mapsto> (?b cursor ?r + unat v, {..<unat (nonces ! ?r)}))"
  have enough: "unat v \<le> ?b cursor cursor" "?b cursor ?r + unat v < 18446744073709551616"
    using assms(6,7) r(2) by (auto simp: ring_balance_def)
  have "spec_transfer t L = Some L'"
    using assms(2,8,10) L [OF assms(5)] L [OF r(1)] ne enough spec_consume_next [OF assms(8)]
    by (simp add: spec_transfer_def ring_transfer_def spec_accepts_def L'_def)
  moreover have "L' (keys ! i) = Some (?b ?r i, {..<unat (nonces[cursor := nonces ! cursor + 1] ! i)})" if i: "i < n" for i
    using L [OF i] i r(2) assms(3,5) unat_inc [OF assms(8)] nth_eq_iff_index_eq [OF assms(1), of i cursor]
      nth_eq_iff_index_eq [OF assms(1), of i ?r] assms(2) r(1)
    unfolding ring_balance_next [OF assms(5,4) refl assms(6) i] by (auto simp: L'_def nth_list_update)
  ultimately show ?thesis using assms(2) by (auto simp: ring_ledger_def)
qed

lemma work_loop_props:
  assumes "work_loop k nonces cursor = (work, nonces', cursor')" "cursor < length nonces"
  shows "length work = k \<and> length nonces' = length nonces \<and> cursor' < length nonces \<and>
    (\<forall>(i, x) \<in> set work. i < length nonces)"
  using assms
proof (induction k arbitrary: nonces cursor work nonces' cursor')
  case (Suc k)
  obtain w ns cu where w: "work_loop k (nonces[cursor := nonces ! cursor + 1]) ((cursor + 1) mod length nonces) = (w, ns, cu)"
    by (metis prod_cases3)
  have "0 < length nonces" using Suc.prems(2) by linarith
  with Suc.IH [OF w] Suc.prems w show ?case by (auto simp: Let_def)
qed auto

definition nonces_below :: "nat \<Rightarrow> u64 list \<Rightarrow> bool" where
  "nonces_below m nonces \<longleftrightarrow> (\<forall>x \<in> set nonces. unat x \<le> m)"

lemma ring_run:
  assumes "work_loop k nonces cursor = (work, nonces', cursor')"
    and "list_all2 (\<lambda>(i, x) t. ring_transfer keys v i x t) work trs"
    and "distinct keys" "length nonces = length keys" "2 \<le> length keys" "cursor < length keys"
    and "unat v \<le> b" "b + unat v < 18446744073709551616"
    and "nonces_below m nonces" "m + k < 18446744073709551615"
    and "overlay_inv ov" "ring_ledger keys b (unat v) nonces cursor (ledger_of ov)"
  shows "\<exists>ov'. strict attempt_transfer trs ov = Some ov' \<and> overlay_inv ov' \<and>
    ring_ledger keys b (unat v) nonces' cursor' (ledger_of ov') \<and> nonces_below (m + k) nonces'"
  using assms(1,2,4,6,9-)
proof (induction k arbitrary: nonces cursor work trs ov m)
  case 0
  then show ?case by auto
next
  case (Suc k)
  let ?ns = "nonces[cursor := nonces ! cursor + 1]"
  obtain w where w: "work_loop k ?ns ((cursor + 1) mod length nonces) = (w, nonces', cursor')"
    and work: "work = (cursor, nonces ! cursor) # w" using Suc.prems(1) by (auto simp: Let_def split: prod.splits)
  obtain t trs' where t: "trs = t # trs'" "ring_transfer keys v cursor (nonces ! cursor) t"
    "list_all2 (\<lambda>(i, x) t. ring_transfer keys v i x t) w trs'"
    using Suc.prems(2) by (auto simp: work list_all2_Cons1)
  have small: "unat (nonces ! cursor) \<le> m" using Suc.prems(3,4,5) by (simp add: nonces_below_def)
  then have lt: "unat (nonces ! cursor) < 18446744073709551615" using Suc.prems(6) by simp
  from ring_step [OF assms(3) refl Suc.prems(3) assms(5) Suc.prems(4) assms(7,8) lt Suc.prems(8) t(2)]
  obtain L' where L': "spec_transfer t (ledger_of ov) = Some L'"
    "ring_ledger keys b (unat v) ?ns ((cursor + 1) mod length keys) L'" by blast
  with apply_transfer_ok(1) [OF Suc.prems(7), of t] obtain ov1 where
    ov1: "attempt_transfer t ov = Some ov1" "ledger_of ov1 = L'" by auto
  have inv: "overlay_inv ov1" by (rule apply_transfer_ok(2) [OF Suc.prems(7) ov1(1)])
  have below: "nonces_below (Suc m) ?ns"
    using Suc.prems(5) small unat_inc [OF lt] set_update_subset_insert [of nonces cursor "nonces ! cursor + 1"]
    by (fastforce simp: nonces_below_def)
  have "0 < length keys" using assms(5) by linarith
  then have "(cursor + 1) mod length keys < length keys" by simp
  with Suc.IH [of ?ns "(cursor + 1) mod length keys" w trs' "Suc m" ov1] w t(3) Suc.prems(3,6) inv L'(2) ov1 below
  show ?case by (simp add: t(1))
qed

section \<open>What the presigner signs\<close>

text \<open>What is relied on of Ed25519: a derived public key and a signature decode, and a signature verifies
  under the public key of its private key.\<close>

definition spam_lib_ok :: "'x tx_env_scheme \<Rightarrow> spam_lib \<Rightarrow> bool" where
  "spam_lib_ok c lib \<longleftrightarrow>
    (\<forall>sk ns m.
      ed_pk_read c (public_of lib sk) = Ok (public_of lib sk, []) \<and>
      ed_sig_read c (ed_sign lib sk ns m) = Ok (ed_sign lib sk ns m, []) \<and>
      ed_batch_add c (ns, m, public_of lib sk, ed_sign lib sk ns m) \<and>
      ed_item_valid c (ns, m, public_of lib sk, ed_sign lib sk ns m))"

definition spam_accounts :: "spam_lib \<Rightarrow> spam_account list \<Rightarrow> bool" where
  "spam_accounts lib accounts \<longleftrightarrow> (\<forall>a \<in> set accounts. public_key a = public_of lib (private_key a))"

lemma spam_accounts_generated: "spam_accounts lib (generate_accounts lib n offset)"
  by (auto simp: spam_accounts_def generate_accounts_def Let_def)

definition good_tx :: "'x tx_env_scheme \<Rightarrow> bytes \<Rightarrow> bytes \<Rightarrow> u64 \<Rightarrow> u64 \<Rightarrow> signed_transaction \<Rightarrow> bool" where
  "good_tx c sender recipient value nonce t \<longleftrightarrow>
    signed_transaction_wf c t \<and> lazy_valid c transaction_namespace (lazy_new t) \<and>
    prepare_transfer c t = Some \<lparr>pt_sender = sender, pt_recipient = recipient, pt_value = value, pt_nonce = nonce,
      pt_digest = message_digest t\<rparr>"

lemma sign_one_ok:
  assumes env: "tx_env_ok c" and lib: "spam_lib_ok c lib" and pk: "public_key a = public_of lib (private_key a)"
    and r: "ed_pk_read c r = Ok (r, [])" and nz: "value \<noteq> 0"
  shows "\<exists>t. sign_one c lib a r value nonce = Some t \<and> good_tx c (public_key a) r value nonce t"
proof -
  let ?tx = "\<lparr>tx_sender = pk_write (pk_ed25519 (public_key a)), tx_to = r, tx_value = value, tx_nonce = nonce\<rparr>"
  let ?sign = "ed_sign lib (private_key a)"
  let ?t = "transaction_seal_and_sign c ?sign transaction_namespace ?tx"
  have cr: "crypto_ok c" using env by simp
  have wf: "pk_wf c (pk_ed25519 (public_key a))" "pk_wf c (pk_ed25519 r)"
    using lib r by (auto simp: pk spam_lib_ok_def intro: pk_wf_constructors)
  note keys = account_key_of_wf [OF cr wf(1), unfolded pk_ed25519_def, simplified, folded pk_ed25519_def]
    account_key_of_wf [OF cr wf(2), unfolded pk_ed25519_def, simplified, folded pk_ed25519_def]
  have len: "length r = 32" using cr r fixed_read_Ok unfolding crypto_ok_def by blast
  have new: "sign_one c lib a r value nonce = Some ?t"
    using keys(2) by (simp add: sign_one_def transaction_new_def pk_ed25519_def)
  have sealed: "st_value ?t = ?tx" "st_signature ?t = sig_ed25519 (?sign transaction_namespace (message_digest ?t))"
    by (simp_all add: transaction_seal_and_sign_def signed_transaction_new_unchecked_def transaction_seal_def
        sealed_new_unchecked_def message_digest_def Let_def)
  have twf: "signed_transaction_wf c ?t"
    by (rule seal_and_sign_wf)
      (use lib len nz pks.enc_size [OF cr wf(1)] in
        \<open>simp_all add: transaction_wf_def account_key_wf_def account_key_size_def sig_wf_constructors spam_lib_ok_def\<close>)
  have sender: "transaction_sender c ?tx = Some (pk_ed25519 (public_key a))"
    using pk_read_write [OF cr wf(1), of "[]"] env by (simp add: transaction_sender_def tx_env_ok_def)
  have valid: "lazy_valid c transaction_namespace (lazy_new ?t)"
    unfolding lazy_valid_def lazy_get_new option.case sealed sender
    using lib by (simp add: signature_valid_def pk_ed25519_def sig_ed25519_def spam_lib_ok_def pk)
  have "prepare_transfer c ?t = Some \<lparr>pt_sender = public_key a, pt_recipient = r, pt_value = value, pt_nonce = nonce,
      pt_digest = message_digest ?t\<rparr>"
    unfolding prepare_transfer_def sealed
    using keys(1) by (simp add: account_key_from_sender_def account_key_from_public_key_def pk_write_def pk_ed25519_def)
  with new twf valid show ?thesis by (auto simp: good_tx_def)
qed

lemma collect_opt_all2: "list_all2 (\<lambda>x t. f x = Some t \<and> P x t) xs ts \<Longrightarrow> collect_opt (map f xs) = Some ts"
  by (induction rule: list_all2_induct) simp_all

lemma sign_batch_ok:
  assumes "tx_env_ok c" "spam_lib_ok c lib" "spam_accounts lib accounts" "value \<noteq> 0"
    and "length nonces = length accounts" "cursor < length accounts" "n \<noteq> 0"
    and wl: "work_loop n nonces cursor = (work, nonces', cursor')"
  shows "\<exists>ts. sign_batch c lib accounts value nonces cursor n = Some (ts, nonces', cursor') \<and>
    list_all2 (\<lambda>(i, x) t. good_tx c (public_key (accounts ! i))
      (public_key (accounts ! ((i + 1) mod length accounts))) value x t) work ts"
proof -
  let ?f = "\<lambda>(i, x). sign_one c lib (accounts ! i) (public_key (accounts ! ((i + 1) mod length accounts))) value x"
  let ?P = "\<lambda>(i, x) t. good_tx c (public_key (accounts ! i)) (public_key (accounts ! ((i + 1) mod length accounts))) value x t"
  have "\<exists>t. ?f w = Some t \<and> ?P w t" if w: "w \<in> set work" for w
  proof -
    obtain i x where ix: "w = (i, x)" by fastforce
    have i: "i < length accounts" using work_loop_props [OF wl] w assms(5,6) by (auto simp: ix)
    then have j: "(i + 1) mod length accounts < length accounts" by (intro mod_less_divisor) linarith
    from i j assms(2,3) show ?thesis
      unfolding ix prod.case
      by (intro sign_one_ok [OF assms(1,2) _ _ assms(4)]) (auto simp: spam_accounts_def spam_lib_ok_def)
  qed
  then have "\<exists>g. \<forall>w \<in> set work. ?f w = Some (g w) \<and> ?P w (g w)" by (intro bchoice) blast
  then obtain g where "\<forall>w \<in> set work. ?f w = Some (g w) \<and> ?P w (g w)" by blast
  then have all2: "list_all2 (\<lambda>w t. ?f w = Some t \<and> ?P w t) work (map g work)"
    by (simp add: list_all2_conv_all_nth)
  have "list_all2 ?P work (map g work)" by (rule list_all2_mono [OF all2]) blast
  moreover have "accounts \<noteq> []" using assms(6) by auto
  ultimately show ?thesis
    using collect_opt_all2 [OF all2] assms(5,7) wl by (auto simp: sign_batch_def)
qed

lemma good_transfers:
  assumes "list_all2 (\<lambda>(i, x) t. good_tx c (public_key (accounts ! i))
      (public_key (accounts ! ((i + 1) mod length accounts))) value x t) work ts"
    and "\<forall>(i, x) \<in> set work. i < length accounts"
  shows "(\<forall>t \<in> set ts. signed_transaction_wf c t \<and> lazy_valid c transaction_namespace (lazy_new t)) \<and>
    (\<exists>trs. map (prepare_transfer c) ts = map Some trs \<and>
      list_all2 (\<lambda>(i, x) t. ring_transfer (map public_key accounts) value i x t) work trs)"
  using assms
proof (induction rule: list_all2_induct)
  case Nil
  then show ?case by simp
next
  case (Cons w work t ts)
  obtain i x where ix: "w = (i, x)" by (rule prod.exhaust)
  let ?tr = "\<lparr>pt_sender = public_key (accounts ! i), pt_recipient = public_key (accounts ! ((i + 1) mod length accounts)),
    pt_value = value, pt_nonce = x, pt_digest = message_digest t\<rparr>"
  have rest: "\<forall>(i, x) \<in> set work. i < length accounts" using Cons.prems by simp
  from Cons.IH [OF rest] obtain trs where trs: "map (prepare_transfer c) ts = map Some trs"
    "list_all2 (\<lambda>(i, x) t. ring_transfer (map public_key accounts) value i x t) work trs"
    and ts: "\<forall>t \<in> set ts. signed_transaction_wf c t \<and> lazy_valid c transaction_namespace (lazy_new t)" by blast
  from Cons.prems have "i < length accounts" by (auto simp: ix)
  moreover from this have "(i + 1) mod length accounts < length accounts" by (intro mod_less_divisor) linarith
  moreover have "signed_transaction_wf c t" "lazy_valid c transaction_namespace (lazy_new t)"
    using Cons.hyps(1) by (simp_all add: ix good_tx_def)
  moreover have "prepare_transfer c t = Some ?tr"
    using Cons.hyps(1) by (simp add: ix good_tx_def)
  ultimately show ?case
    using trs ts by (intro conjI exI [of _ "?tr # trs"]) (simp_all add: ix ring_transfer_def)
qed

lemma jitter_range_bounds:
  assumes "lo \<le> hi" "hi - lo < 18446744073709551615" "jitter_range state lo hi = (r, state')"
  shows "lo \<le> r \<and> r \<le> hi"
proof -
  let ?span = "word_of_nat (hi - lo) + 1 :: u64"
  have span: "unat ?span = Suc (hi - lo)"
    using assms(2) unat_inc [of "word_of_nat (hi - lo)"] by (simp add: unat_of_nat take_bit_nat_eq_self)
  have "unat (jitter_next_u64 state mod ?span) < Suc (hi - lo)"
    using span by (simp add: unat_mod)
  with assms(1,3) show ?thesis by (auto simp: jitter_range_def Let_def)
qed

lemma jittered_batch_size_bounds:
  assumes "accounts + extra < 18446744073709551615" "jittered_batch_size accounts extra rng = (n, rng')"
  shows "accounts \<le> n \<and> n \<le> accounts + extra"
proof (cases "extra = 0")
  case True
  with assms(2) show ?thesis by (simp add: jittered_batch_size_def)
next
  case False
  with assms(2) obtain r where r: "jitter_range rng 0 extra = (r, rng')" "n = saturating_add_usize accounts r"
    by (auto simp: jittered_batch_size_def split: prod.splits)
  from jitter_range_bounds [OF _ _ r(1)] assms(1) have "r \<le> extra" by simp
  with r(2) assms(1) show ?thesis by (simp add: saturating_add_usize_def usize_max_def)
qed

lemma presign_loop_ok:
  assumes "tx_env_ok c" "spam_lib_ok c lib" "spam_accounts lib accounts" "value \<noteq> 0"
    and "distinct (map public_key accounts)" "2 \<le> length accounts"
    and "unat value \<le> b" "b + unat value < 18446744073709551616"
    and "length nonces = length accounts" "cursor < length accounts"
    and "nonces_below m nonces" "m + k * (length accounts + extra) < 18446744073709551615"
    and "overlay_inv ov" "ring_ledger (map public_key accounts) b (unat value) nonces cursor (ledger_of ov)"
  shows "\<exists>batches trs ov'. presign_loop c lib accounts value extra k rng nonces cursor = Some batches \<and>
    (\<forall>t \<in> set (concat batches). signed_transaction_wf c t \<and> lazy_valid c transaction_namespace (lazy_new t)) \<and>
    map (prepare_transfer c) (concat batches) = map Some trs \<and> strict attempt_transfer trs ov = Some ov'"
  using assms(9-)
proof (induction k arbitrary: rng nonces cursor m ov)
  case 0
  then show ?case by simp
next
  case (Suc k)
  let ?keys = "map public_key accounts"
  obtain n rng' where n: "jittered_batch_size (length accounts) extra rng = (n, rng')" by fastforce
  have n_le: "length accounts \<le> n" "n \<le> length accounts + extra"
    using jittered_batch_size_bounds [OF _ n] Suc.prems(4) by simp_all
  have n_pos: "n \<noteq> 0" using n_le(1) assms(6) by linarith
  obtain work nonces' cursor' where wl: "work_loop n nonces cursor = (work, nonces', cursor')" by (metis prod_cases3)
  have work: "length nonces' = length accounts" "cursor' < length accounts" "\<forall>(i, x) \<in> set work. i < length accounts"
    using work_loop_props [OF wl] Suc.prems(1,2) by simp_all
  obtain ts where ts: "sign_batch c lib accounts value nonces cursor n = Some (ts, nonces', cursor')"
    and good: "list_all2 (\<lambda>(i, x) t. good_tx c (public_key (accounts ! i))
      (public_key (accounts ! ((i + 1) mod length accounts))) value x t) work ts"
    using sign_batch_ok [OF assms(1-4) Suc.prems(1,2) n_pos wl] by blast
  obtain trs where trs: "map (prepare_transfer c) ts = map Some trs"
    and ring: "list_all2 (\<lambda>(i, x) t. ring_transfer ?keys value i x t) work trs"
    and ts_good: "\<forall>t \<in> set ts. signed_transaction_wf c t \<and> lazy_valid c transaction_namespace (lazy_new t)"
    using good_transfers [OF good] work by blast
  have len: "length nonces = length ?keys" "2 \<le> length ?keys" "cursor < length ?keys"
    using Suc.prems(1,2) assms(6) by simp_all
  have fits: "m + n < 18446744073709551615" "m + n + k * (length accounts + extra) < 18446744073709551615"
    using Suc.prems(4) n_le(2) by simp_all
  from ring_run [OF wl ring assms(5) len assms(7,8) Suc.prems(3) fits(1) Suc.prems(5,6)] obtain ov1 where
    ov1: "strict attempt_transfer trs ov = Some ov1" "overlay_inv ov1"
      "ring_ledger ?keys b (unat value) nonces' cursor' (ledger_of ov1)" "nonces_below (m + n) nonces'" by blast
  from Suc.IH [OF work(1,2) ov1(4) fits(2) ov1(2,3), of rng'] obtain bs us ov2 where
    bs: "presign_loop c lib accounts value extra k rng' nonces' cursor' = Some bs"
    "\<forall>t \<in> set (concat bs). signed_transaction_wf c t \<and> lazy_valid c transaction_namespace (lazy_new t)"
    "map (prepare_transfer c) (concat bs) = map Some us" "strict attempt_transfer us ov1 = Some ov2" by blast
  have "presign_loop c lib accounts value extra (Suc k) rng nonces cursor = Some (ts # bs)"
    by (simp add: n ts bs(1))
  moreover have "map (prepare_transfer c) (concat (ts # bs)) = map Some (trs @ us)"
    using trs bs(3) by simp
  moreover have "strict attempt_transfer (trs @ us) ov = Some ov2"
    using ov1(1) bs(4) by (simp add: strict_append)
  moreover have "\<forall>t \<in> set (concat (ts # bs)). signed_transaction_wf c t \<and>
      lazy_valid c transaction_namespace (lazy_new t)"
    using ts_good bs(2) unfolding concat.simps set_append by blast
  ultimately show ?case by blast
qed

lemma work_loop_length: "work_loop k nonces cursor = (work, nonces', cursor') \<Longrightarrow> length work = k"
  by (induction k arbitrary: nonces cursor work) (auto simp: Let_def split: prod.splits)

lemma sign_batch_length:
  "sign_batch c lib accounts value nonces cursor n = Some (ts, nonces', cursor') \<Longrightarrow> length ts = n"
  by (auto simp: sign_batch_def collect_opt_Some_iff split: if_splits prod.splits
      dest!: work_loop_length arg_cong [where f = length])

lemma presign_loop_sizes:
  assumes "presign_loop c lib accounts value extra k rng nonces cursor = Some batches"
    and "length accounts + extra < 18446744073709551615"
  shows "length batches = k \<and> (\<forall>b \<in> set batches. length accounts \<le> length b \<and> length b \<le> length accounts + extra)"
  using assms(1)
proof (induction k arbitrary: rng nonces cursor batches)
  case (Suc k)
  obtain n rng' where n: "jittered_batch_size (length accounts) extra rng = (n, rng')" by (rule prod.exhaust)
  from Suc.prems obtain ts ns cu bs where ts: "sign_batch c lib accounts value nonces cursor n = Some (ts, ns, cu)"
    and bs: "presign_loop c lib accounts value extra k rng' ns cu = Some bs" "batches = ts # bs"
    by (auto simp: n split: option.splits)
  from Suc.IH [OF bs(1)] sign_batch_length [OF ts] jittered_batch_size_bounds [OF assms(2) n] bs(2)
  show ?case by simp
qed simp

lemma propose_all:
  assumes "map (prepare_transfer c) ts = map Some trs" "strict attempt_transfer trs (overlay_new st) = Some ov"
  shows "valid (propose c st ts) = ts \<and> invalid (propose c st ts) = []"
proof -
  let ?cands = "candidates (prepare_proposal c ts)"
  have some: "\<forall>t \<in> set ts. prepare_transfer c t \<noteq> None"
    using assms(1) by (metis (no_types, lifting) imageE image_eqI list.set_map option.distinct(1))
  then have cands: "map ptx_transaction ?cands = ts" by (simp add: candidates_transactions filter_id_conv)
  have "map Some (map ptx_transfer ?cands) = map (prepare_transfer c) (map ptx_transaction ?cands)"
    by (auto simp: o_def dest!: candidates_prepared)
  with assms(1) have "map ptx_transfer ?cands = trs" unfolding cands by (simp only: inj_map_eq_map [OF inj_Some])
  with assms(2) have "strict (\<lambda>p. attempt_transfer (ptx_transfer p)) ?cands (overlay_new st) = Some ov"
    by (metis strict_map)
  from strict_sift [OF this]
  have sift: "sift (\<lambda>p. attempt_transfer (ptx_transfer p)) ?cands (overlay_new st) = (?cands, [], ov)" .
  obtain v w ov' where
    s: "sift (\<lambda>p. attempt_transfer (ptx_transfer p)) ?cands (overlay_new st) = (v, w, ov')" and
    e: "propose c st ts =
      \<lparr>valid = map ptx_transaction v,
       invalid = filter (\<lambda>t. prepare_transfer c t = None) ts @ map ptx_transaction w,
       out_changeset = into_changeset ov', transfers = map ptx_transfer v\<rparr>" by (rule propose_sift)
  have vw: "v = ?cands" "w = []" using s sift by simp_all
  have none: "filter (\<lambda>t. prepare_transfer c t = None) ts = []" using some by (simp add: filter_empty_conv)
  show ?thesis unfolding e vw none by (simp add: cands)
qed

lemma spammer_settings_sound:
  "spammer_settings jitter_ok resolve cli config = Some s \<Longrightarrow>
    2 \<le> unat (rm_accounts_count s) \<and> rm_value s \<noteq> 0 \<and> unat (rm_value s) \<le> 100 \<and> 0 < rm_presigned_batches s"
  by (auto simp: spammer_settings_def default_account_balance_def word_le_nat_alt word_less_nat_alt
      split: option.splits if_splits)

lemma ledger_of_new: "ledger_of (overlay_new st) k = map_option abs_account (hm_get st k)"
  by (simp add: ledger_of_def)

lemma abs_account_default: "abs_account account_default = (100, {})"
  by (simp add: abs_account_def account_default_def default_account_balance_def)

section \<open>Properties\<close>

text \<open>C31: The load generator's stream executes without loss. With settings that the program accepts, on
  pairwise different keys whose accounts are fresh, the presigner of each stream signs as many batches as it is
  asked for without panicking, each at least as long as the ring of accounts; every transaction is well formed
  and verifies under the transaction namespace; and an executor that takes the batches in order keeps every
  transaction and filters none, however the jitter cuts the stream into batches.\<close>

theorem spam_stream_executes:
  assumes "tx_env_ok c" "spam_lib_ok c lib"
    and "spammer_settings jitter_ok resolve cli config = Some s" "(account_offset, target) \<in> set (relayer_streams s)"
    and "accounts = generate_accounts lib (rm_accounts_count s) account_offset" "distinct (map public_key accounts)"
    and "state_inv st" "\<forall>a \<in> set accounts. hm_get st (public_key a) = Some account_default"
    and "k * (length accounts + extra) < 2 ^ 64 - 1" "length accounts + extra < 2 ^ 64 - 1"
  shows "\<exists>batches. spawn_presigner c lib accounts (rm_value s) extra account_offset k = Some batches \<and>
    length batches = k \<and> (\<forall>b \<in> set batches. length accounts \<le> length b) \<and>
    (\<forall>t \<in> set (concat batches). signed_transaction_wf c t \<and> lazy_valid c transaction_namespace (lazy_new t)) \<and>
    valid (propose c st (concat batches)) = concat batches \<and> invalid (propose c st (concat batches)) = []"
proof -
  note settings = spammer_settings_sound [OF assms(3)]
  have len: "length accounts = unat (rm_accounts_count s)" by (simp add: assms(5) generate_accounts_def)
  have spam: "spam_accounts lib accounts" unfolding assms(5) by (rule spam_accounts_generated)
  have ledger: "ring_ledger (map public_key accounts) 100 (unat (rm_value s)) (replicate (length accounts) 0) 0
      (ledger_of (overlay_new st))"
    using assms(8) by (simp add: ring_ledger_def ring_balance_def ledger_of_new abs_account_default)
  have fits: "0 + k * (length accounts + extra) < 18446744073709551615" "length accounts + extra < 18446744073709551615"
    "100 + unat (rm_value s) < 18446744073709551616" using assms(9,10) settings by simp_all
  have "nonces_below 0 (replicate (length accounts) 0)" by (simp add: nonces_below_def)
  from presign_loop_ok [OF assms(1,2) spam _ assms(6) _ _ fits(3) _ _ this fits(1) overlay_inv_new [OF assms(7)] ledger,
      of "jitter_rng_new (account_offset + 1)"] settings len
  obtain batches trs ov' where b: "spawn_presigner c lib accounts (rm_value s) extra account_offset k = Some batches"
    "\<forall>t \<in> set (concat batches). signed_transaction_wf c t \<and> lazy_valid c transaction_namespace (lazy_new t)"
    "map (prepare_transfer c) (concat batches) = map Some trs" "strict attempt_transfer trs (overlay_new st) = Some ov'"
    unfolding spawn_presigner_def by fastforce
  from presign_loop_sizes [OF b(1) [unfolded spawn_presigner_def] fits(2)] propose_all [OF b(3,4)] b(1,2)
  show ?thesis by blast
qed

text \<open>A library whose keys repeat one byte, and two fresh accounts.\<close>

definition demo_spam_lib :: spam_lib where
  "demo_spam_lib =
    \<lparr>from_seed = (\<lambda>s. [ucast s]), public_of = (\<lambda>sk. replicate 32 (hd sk)),
     ed_sign = (\<lambda>sk _ _. replicate 64 (hd sk))\<rparr>"

definition demo_cli :: "nat spammer_cli" where
  "demo_cli =
    \<lparr>sl_relayer_url = Some ''http://relayer:8080'', sl_relayer_submitters = 0, sl_presigned_batches = 1,
     sl_relayer_targets = [''validator-0''], sl_accounts = 2, sl_value = 5, sl_seed_offset = 0, sl_rayon_threads = 1,
     sl_accounts_jitter = 0\<rparr>"

definition demo_settings :: "nat relayer_mode_config" where
  "demo_settings =
    \<lparr>rm_relayer_url = ''http://relayer:8080'', rm_accounts_count = 2, rm_value = 5, rm_seed_offset = 0,
     rm_accounts_jitter = 0, rm_relayer_submitters = 1, rm_presigned_batches = 1,
     rm_relayer_targets = [''validator-0'']\<rparr>"

definition demo_spam_state :: state where
  "demo_spam_state = [(replicate 32 0, account_default), (replicate 32 1, account_default)]"

lemma demo_spam_lib_ok: "spam_lib_ok demo_env demo_spam_lib"
  by (simp add: spam_lib_ok_def demo_spam_lib_def take_bytes_def ed_item_valid_def)

lemma demo_settings_accepted: "spammer_settings (\<lambda>j. j \<le> 1) id demo_cli None = Some demo_settings"
  by (simp add: spammer_settings_def demo_cli_def demo_settings_def default_account_balance_def)

lemma demo_stream: "(0, Some ''validator-0'') \<in> set (relayer_streams demo_settings)"
  by (simp add: relayer_streams_def demo_settings_def relayer_target_for_def)

definition demo_accounts :: "spam_account list" where
  "demo_accounts = generate_accounts demo_spam_lib (rm_accounts_count demo_settings) 0"

lemma demo_accounts_eq:
  "demo_accounts = [\<lparr>private_key = [0], public_key = replicate 32 0\<rparr>, \<lparr>private_key = [1], public_key = replicate 32 1\<rparr>]"
proof -
  have "[0..<unat (rm_accounts_count demo_settings)] = [0, 1]" unfolding demo_settings_def by code_simp
  then show ?thesis unfolding demo_accounts_def generate_accounts_def by (simp add: demo_spam_lib_def Let_def)
qed

lemma demo_spam_state_facts:
  "state_inv demo_spam_state" "\<forall>a \<in> set demo_accounts. hm_get demo_spam_state (public_key a) = Some account_default"
  by (auto simp: state_inv_def demo_spam_state_def demo_accounts_eq account_default_def split: if_splits)

theorem spam_stream_executes_witness:
  "\<exists>batches. spawn_presigner demo_env demo_spam_lib demo_accounts (rm_value demo_settings) 1 0 2 = Some batches \<and>
    length batches = 2 \<and> (\<forall>b \<in> set batches. length demo_accounts \<le> length b) \<and>
    (\<forall>t \<in> set (concat batches). signed_transaction_wf demo_env t \<and>
      lazy_valid demo_env transaction_namespace (lazy_new t)) \<and>
    valid (propose demo_env demo_spam_state (concat batches)) = concat batches \<and>
    invalid (propose demo_env demo_spam_state (concat batches)) = []"
  by (rule spam_stream_executes [OF tx_env_ok_demo demo_spam_lib_ok demo_settings_accepted demo_stream demo_accounts_def
        _ demo_spam_state_facts]) (simp_all add: demo_accounts_eq)

end
