(* ===== verification/Deploy.thy ===== *)
theory Deploy
  imports Config Spammer
begin

text \<open>
  The deployment generator, \<open>src/bin/deploy/src\<close>: key and DKG material (\<open>main.rs\<close>), the files and commands of
  a local cluster (\<open>local.rs\<close>) and of a remote one (\<open>remote.rs\<close>). Key derivation, the DKG deal and hex are
  parameters; writing files, YAML, the clock behind the tag and logging are not modelled. \<open>None\<close> is a
  panic. Shown: every node of a generated cluster loads its configuration and starts in the role it was
  generated for, and the addresses in the configurations lead to the right nodes.
\<close>

section \<open>Arguments\<close>

abbreviation storage_class :: string where
  "storage_class \<equiv> ''gp3''"

abbreviation chain_indexer_storage_class :: string where
  "chain_indexer_storage_class \<equiv> ''io2''"

abbreviation exoware_availability_zone_group :: string where
  "exoware_availability_zone_group \<equiv> ''exoware''"

definition chain_indexer_host :: string where
  "chain_indexer_host = ''chain-indexer''"

definition metadata_indexer_host :: string where
  "metadata_indexer_host = ''metadata-indexer''"

definition qmdb_indexer_host :: string where
  "qmdb_indexer_host = ''qmdb-indexer''"

definition default_bootstrapper_count :: nat where
  "default_bootstrapper_count = 3"

definition indexer_upload_buffer :: nat where
  "indexer_upload_buffer = 64"

record 'j generate_args =
  ga_validators :: u32
  ga_indexer :: bool
  ga_relayer :: bool
  ga_output_dir :: string
  ga_log_level :: string
  ga_worker_threads :: nat
  ga_rayon_threads :: nat
  ga_startup :: startup_mode_config
  ga_spammer :: bool
  ga_spammer_accounts :: u32
  ga_spammer_value :: u64
  ga_spammer_seed_offset :: u64
  ga_spammer_rayon_threads :: nat
  ga_spammer_accounts_jitter :: 'j
  ga_spammer_presigned_batches :: nat

record local_args =
  la_base_port :: u16
  la_base_http_port :: u16
  la_base_metrics_port :: u16
  la_chain_indexer_port :: u16
  la_metadata_indexer_port :: u16
  la_qmdb_indexer_port :: u16

record remote_args =
  ra_regions :: "string list"
  ra_instance_type :: string
  ra_storage_size :: int
  ra_chain_indexer_instance_type :: string
  ra_chain_indexer_storage_size :: int
  ra_chain_indexer_storage_iops :: int
  ra_monitoring_instance_type :: string
  ra_monitoring_storage_size :: int
  ra_listen_port :: u16
  ra_http_port :: u16
  ra_http_cidrs :: "string list"
  ra_chain_indexer_port :: u16
  ra_metadata_indexer_port :: u16
  ra_qmdb_indexer_port :: u16
  ra_profiling :: bool
  ra_spammer_instance_type :: "string option"
  ra_spammer_storage_size :: int

datatype secondary_role = IndexerRole | RelayerRole

definition secondary_roles :: "'j generate_args \<Rightarrow> secondary_role list" where
  "secondary_roles args =
    (if ga_indexer args then [IndexerRole] else []) @ (if ga_relayer args then [RelayerRole] else [])"

definition total_secondaries :: "'j generate_args \<Rightarrow> nat" where
  "total_secondaries args = length (secondary_roles args)"

definition indexer_enabled :: "'j generate_args \<Rightarrow> bool" where
  "indexer_enabled args = ga_indexer args"

definition validate_generate_args :: "'j generate_args \<Rightarrow> bool" where
  "validate_generate_args args \<longleftrightarrow> \<not> ga_spammer args \<or> ga_relayer args"

section \<open>Key material\<close>

text \<open>\<open>deal\<close> takes the random generator as its first argument and gives the output and the shares by key.\<close>

record ('o, 's) deploy_lib = "('o, 's) config_lib" +
  seed_key :: "u64 \<Rightarrow> bytes"
  deal :: "nat \<Rightarrow> bytes list \<Rightarrow> ('o \<times> (bytes \<times> 's) list) option"

record ('o, 's) cluster_material =
  cm_signers :: "bytes list"
  cm_public_keys :: "bytes list"
  cm_secondary_signers :: "bytes list"
  cm_secondary_public_keys :: "bytes list"
  cm_dkg_output :: 'o
  cm_shares :: "bytes \<rightharpoonup> 's"
  cm_genesis_leader :: string

definition primary_hex :: "('o, 's, 'x) config_lib_scheme \<Rightarrow> ('o, 's) cluster_material \<Rightarrow> string list" where
  "primary_hex lib m = map (to_hex lib) (cm_public_keys m)"

definition secondary_hex :: "('o, 's, 'x) config_lib_scheme \<Rightarrow> ('o, 's) cluster_material \<Rightarrow> string list" where
  "secondary_hex lib m = map (to_hex lib) (cm_secondary_public_keys m)"

definition secondary_seed_offset :: u64 where
  "secondary_seed_offset = 1000000"

text \<open>The set of participants cannot be built from keys that repeat.\<close>

definition build_cluster_material ::
    "('o, 's) deploy_lib \<Rightarrow> bytes list \<Rightarrow> bytes list \<Rightarrow> nat \<Rightarrow> ('o, 's) cluster_material option" where
  "build_cluster_material lib signers secondary_signers rng =
    (let public_keys = map (sk_public lib) signers; secondary_public_keys = map (sk_public lib) secondary_signers in
     if \<not> distinct public_keys then None
     else
       (case deal lib rng public_keys of
          None \<Rightarrow> None
        | Some (dkg_output, raw_shares) \<Rightarrow>
            if public_keys = [] then None
            else Some \<lparr>cm_signers = signers, cm_public_keys = public_keys, cm_secondary_signers = secondary_signers,
              cm_secondary_public_keys = secondary_public_keys, cm_dkg_output = dkg_output,
              cm_shares = collect_map raw_shares, cm_genesis_leader = to_hex lib (hd public_keys)\<rparr>))"

definition generate_local_cluster_material ::
    "('o, 's) deploy_lib \<Rightarrow> nat \<Rightarrow> u32 \<Rightarrow> nat \<Rightarrow> ('o, 's) cluster_material option" where
  "generate_local_cluster_material lib test_rng validators secondaries =
    build_cluster_material lib
      (map (\<lambda>index. seed_key lib (word_of_nat index)) [0..<unat validators])
      (map (\<lambda>index. seed_key lib (secondary_seed_offset + word_of_nat index)) [0..<secondaries])
      test_rng"

text \<open>The random keys are arguments.\<close>

definition generate_remote_cluster_material ::
    "('o, 's) deploy_lib \<Rightarrow> nat \<Rightarrow> bytes list \<Rightarrow> bytes list \<Rightarrow> ('o, 's) cluster_material option" where
  "generate_remote_cluster_material lib rng random_signers random_secondary_signers =
    build_cluster_material lib (sort_key (sk_public lib) random_signers)
      (sort_key (sk_public lib) random_secondary_signers) rng"

definition default_bootstrappers ::
    "('o, 's, 'x) config_lib_scheme \<Rightarrow> bytes list \<Rightarrow> named_bootstrapper_entry list" where
  "default_bootstrappers lib public_keys =
    map (\<lambda>public_key. let name = to_hex lib public_key in \<lparr>nb_public_key = name, nb_name = name\<rparr>)
      (take (min default_bootstrapper_count (length public_keys)) public_keys)"

definition deploy_max_propose_bytes :: nat where
  "deploy_max_propose_bytes = 8 * 1024 * 1024"

definition deploy_max_pool_bytes :: nat where
  "deploy_max_pool_bytes = 64 * 1024 * 1024"

section \<open>Configurations\<close>

text \<open>The structures that are written; their relayer section has no retry limit and no pruning cadence is set.\<close>

record deploy_relayer_config =
  dr_leaders :: "leader_config list"

record deploy_validator_config =
  dv_private_key :: string
  dv_dkg_output :: string
  dv_dkg_share :: string
  dv_startup :: startup_mode_config
  dv_listen_port :: u16
  dv_genesis_leader :: string
  dv_partition_prefix :: string
  dv_num_validators :: u32
  dv_primary_validators :: "string list"
  dv_secondary_validators :: "string list"
  dv_log_level :: string
  dv_worker_threads :: nat
  dv_rayon_threads :: nat
  dv_http_port :: u16
  dv_metrics_port :: u16
  dv_max_propose_bytes :: nat
  dv_max_pool_bytes :: nat
  dv_bootstrappers :: "named_bootstrapper_entry list"
  dv_indexer :: "indexer_config option"
  dv_relayer :: "deploy_relayer_config option"

text \<open>What a validator reads from the file that was written: the fields by name, and the defaults for the
  fields that the generator does not write.\<close>

definition parsed_config :: "deploy_validator_config \<Rightarrow> validator_config" where
  "parsed_config d =
    \<lparr>vc_private_key = dv_private_key d, vc_dkg_output = dv_dkg_output d, vc_dkg_share = dv_dkg_share d,
     vc_startup = dv_startup d, vc_listen_port = dv_listen_port d, vc_genesis_leader = dv_genesis_leader d,
     vc_partition_prefix = dv_partition_prefix d, vc_num_validators = dv_num_validators d,
     vc_primary_validators = dv_primary_validators d, vc_secondary_validators = dv_secondary_validators d,
     vc_log_level = dv_log_level d, vc_worker_threads = dv_worker_threads d, vc_rayon_threads = dv_rayon_threads d,
     vc_http_port = dv_http_port d, vc_metrics_port = dv_metrics_port d,
     vc_max_propose_bytes = dv_max_propose_bytes d, vc_max_pool_bytes = dv_max_pool_bytes d,
     vc_prune_cadence_blocks = default_prune_cadence_blocks, vc_bootstrappers = dv_bootstrappers d,
     vc_indexer = dv_indexer d,
     vc_relayer = map_option (\<lambda>r. \<lparr>max_retry_views = default_relayer_retry_views, rc_leaders = dr_leaders r\<rparr>) (dv_relayer d)\<rparr>"

definition path_join :: "string \<Rightarrow> string \<Rightarrow> string" where
  "path_join dir file = (if dir = [] \<or> last dir = CHR ''/'' then dir @ file else dir @ ''/'' @ file)"

section \<open>Local clusters\<close>

record generated_local =
  gl_config_file :: string
  gl_config :: deploy_validator_config
  gl_peer :: peer_entry

definition local_url :: "u16 \<Rightarrow> string" where
  "local_url port = ''http://127.0.0.1:'' @ show_port port"

definition local_peer :: "string \<Rightarrow> u16 \<Rightarrow> u16 \<Rightarrow> peer_entry" where
  "local_peer name listen_port http_port =
    \<lparr>pe_name = name, pe_p2p = ''127.0.0.1:'' @ show_port listen_port, pe_http = ''127.0.0.1:'' @ show_port http_port\<rparr>"

definition nth_opt :: "'a list \<Rightarrow> nat \<Rightarrow> 'a option" where
  "nth_opt xs i = (if i < length xs then Some (xs ! i) else None)"

definition local_validator ::
    "('o, 's) deploy_lib \<Rightarrow> 'j generate_args \<Rightarrow> local_args \<Rightarrow> string \<Rightarrow> ('o, 's) cluster_material \<Rightarrow> nat
      \<Rightarrow> generated_local option" where
  "local_validator lib args local output_dir m index =
    Option.bind (nth_opt (cm_public_keys m) index) (\<lambda>public_key.
    Option.bind (cm_shares m public_key) (\<lambda>share.
    Option.bind (checked_add (la_base_port local) (word_of_nat index)) (\<lambda>listen_port.
    Option.bind (checked_add (la_base_http_port local) (word_of_nat index)) (\<lambda>http_port.
    Option.bind (checked_add (la_base_metrics_port local) (word_of_nat index)) (\<lambda>metrics_port.
    Option.bind (nth_opt (cm_signers m) index) (\<lambda>signer.
    Some
      \<lparr>gl_config_file = path_join output_dir (''validator-'' @ show_nat index @ ''.yaml''),
       gl_config =
         \<lparr>dv_private_key = to_hex lib signer, dv_dkg_output = to_hex lib (output_encode lib (cm_dkg_output m)),
          dv_dkg_share = to_hex lib (share_encode lib share), dv_startup = ga_startup args, dv_listen_port = listen_port,
          dv_genesis_leader = cm_genesis_leader m, dv_partition_prefix = ''validator-'' @ show_nat index,
          dv_num_validators = ga_validators args, dv_primary_validators = primary_hex lib m,
          dv_secondary_validators = secondary_hex lib m, dv_log_level = ga_log_level args,
          dv_worker_threads = ga_worker_threads args, dv_rayon_threads = ga_rayon_threads args,
          dv_http_port = http_port, dv_metrics_port = metrics_port,
          dv_max_propose_bytes = deploy_max_propose_bytes, dv_max_pool_bytes = deploy_max_pool_bytes,
          dv_bootstrappers = default_bootstrappers lib (cm_public_keys m), dv_indexer = None, dv_relayer = None\<rparr>,
       gl_peer = local_peer (to_hex lib public_key) listen_port http_port\<rparr>))))))"

definition local_build_validators ::
    "('o, 's) deploy_lib \<Rightarrow> 'j generate_args \<Rightarrow> local_args \<Rightarrow> string \<Rightarrow> ('o, 's) cluster_material
      \<Rightarrow> generated_local list option" where
  "local_build_validators lib args local output_dir m =
    collect_opt (map (local_validator lib args local output_dir m) [0..<unat (ga_validators args)])"

definition local_relayer_config ::
    "('o, 's) deploy_lib \<Rightarrow> local_args \<Rightarrow> ('o, 's) cluster_material \<Rightarrow> deploy_relayer_config option" where
  "local_relayer_config lib local m =
    map_option (\<lambda>leaders. \<lparr>dr_leaders = leaders\<rparr>)
      (collect_opt (map (\<lambda>(index, public_key).
          map_option (\<lambda>port. \<lparr>lc_public_key = public_key, lc_url = local_url port\<rparr>)
            (checked_add (la_base_http_port local) (word_of_nat index)))
        (enumerate 0 (primary_hex lib m))))"

definition local_indexer_config :: "u16 \<Rightarrow> indexer_config" where
  "local_indexer_config port = \<lparr>chain_indexer_url = local_url port, upload_buffer = indexer_upload_buffer\<rparr>"

definition local_secondary ::
    "('o, 's) deploy_lib \<Rightarrow> 'j generate_args \<Rightarrow> local_args \<Rightarrow> string \<Rightarrow> ('o, 's) cluster_material
      \<Rightarrow> nat \<times> secondary_role \<Rightarrow> generated_local option" where
  "local_secondary lib args local output_dir m = (\<lambda>(index, role).
    Option.bind (nth_opt (cm_secondary_public_keys m) index) (\<lambda>public_key.
    Option.bind (checked_add (ucast (ga_validators args)) (word_of_nat index)) (\<lambda>offset.
    Option.bind (checked_add (la_base_port local) offset) (\<lambda>listen_port.
    Option.bind (checked_add (la_base_http_port local) offset) (\<lambda>http_port.
    Option.bind (checked_add (la_base_metrics_port local) offset) (\<lambda>metrics_port.
    Option.bind (nth_opt (cm_secondary_signers m) index) (\<lambda>signer.
    Option.bind (if role = RelayerRole then map_option Some (local_relayer_config lib local m) else Some None) (\<lambda>relayer.
    Some
      \<lparr>gl_config_file = path_join output_dir (''secondary-'' @ show_nat index @ ''.yaml''),
       gl_config =
         \<lparr>dv_private_key = to_hex lib signer, dv_dkg_output = to_hex lib (output_encode lib (cm_dkg_output m)),
          dv_dkg_share = [], dv_startup = ga_startup args, dv_listen_port = listen_port,
          dv_genesis_leader = cm_genesis_leader m, dv_partition_prefix = ''secondary-'' @ show_nat index,
          dv_num_validators = ga_validators args, dv_primary_validators = primary_hex lib m,
          dv_secondary_validators = secondary_hex lib m, dv_log_level = ga_log_level args,
          dv_worker_threads = ga_worker_threads args, dv_rayon_threads = ga_rayon_threads args,
          dv_http_port = http_port, dv_metrics_port = metrics_port,
          dv_max_propose_bytes = deploy_max_propose_bytes, dv_max_pool_bytes = deploy_max_pool_bytes,
          dv_bootstrappers = default_bootstrappers lib (cm_public_keys m),
          dv_indexer = (if role = IndexerRole then Some (local_indexer_config (la_chain_indexer_port local)) else None),
          dv_relayer = relayer\<rparr>,
       gl_peer = local_peer (to_hex lib public_key) listen_port http_port\<rparr>))))))))"

definition local_build_secondaries ::
    "('o, 's) deploy_lib \<Rightarrow> 'j generate_args \<Rightarrow> local_args \<Rightarrow> string \<Rightarrow> ('o, 's) cluster_material
      \<Rightarrow> generated_local list option" where
  "local_build_secondaries lib args local output_dir m =
    collect_opt (map (local_secondary lib args local output_dir m) (enumerate 0 (secondary_roles args)))"

definition relayer_http_port :: "'j generate_args \<Rightarrow> local_args \<Rightarrow> u16 option" where
  "relayer_http_port args local =
    (if ga_relayer args
     then Some (la_base_http_port local + ucast (ga_validators args) + (if ga_indexer args then 1 else 0)) else None)"

record ('o, 's) local_bundle =
  lb_material :: "('o, 's) cluster_material"
  lb_validators :: "generated_local list"
  lb_secondaries :: "generated_local list"
  lb_peers :: peers_file

text \<open>\<open>missing\<close> tells whether the output directory does not exist yet.\<close>

definition local_generate ::
    "('o, 's) deploy_lib \<Rightarrow> nat \<Rightarrow> (string \<Rightarrow> bool) \<Rightarrow> (string \<Rightarrow> string) \<Rightarrow> 'j generate_args \<Rightarrow> local_args
      \<Rightarrow> ('o, 's) local_bundle option" where
  "local_generate lib test_rng missing absolute_path args local =
    (let output_dir = absolute_path (ga_output_dir args) in
     if \<not> validate_generate_args args \<or> ga_validators args = 0 \<or> \<not> missing output_dir then None
     else
       Option.bind (generate_local_cluster_material lib test_rng (ga_validators args) (total_secondaries args)) (\<lambda>m.
       Option.bind (local_build_validators lib args local output_dir m) (\<lambda>validators.
       Option.bind (local_build_secondaries lib args local output_dir m) (\<lambda>secondaries.
       Some \<lparr>lb_material = m, lb_validators = validators, lb_secondaries = secondaries,
         lb_peers = \<lparr>pf_validators = map gl_peer validators, pf_secondaries = map gl_peer secondaries\<rparr>\<rparr>))))"

fun join_strings :: "string \<Rightarrow> string list \<Rightarrow> string" where
  "join_strings sep [] = []"
| "join_strings sep [s] = s"
| "join_strings sep (s # t # ss) = s @ sep @ join_strings sep (t # ss)"

text \<open>The commands that start the cluster; \<open>show_jitter\<close> prints the fraction.\<close>

definition validator_command :: "string \<Rightarrow> string \<Rightarrow> string" where
  "validator_command path peers_path =
    ''cargo run --release --bin constantinople -- --config '' @ path @ '' --peers '' @ peers_path"

definition local_run_commands ::
    "('j \<Rightarrow> string) \<Rightarrow> string \<Rightarrow> 'j generate_args \<Rightarrow> local_args \<Rightarrow> string list \<Rightarrow> string \<Rightarrow> string list option" where
  "local_run_commands show_jitter output_dir args local relayer_targets simplex_verification_material =
    (let peers_path = path_join output_dir ''peers.yaml'';
         nodes =
           map (\<lambda>index. validator_command (path_join output_dir (''validator-'' @ show_nat index @ ''.yaml'')) peers_path)
             [0..<unat (ga_validators args)] @
           map (\<lambda>index. validator_command (path_join output_dir (''secondary-'' @ show_nat index @ ''.yaml'')) peers_path)
             [0..<total_secondaries args];
         relayer_env =
           (case relayer_http_port args local of Some port \<Rightarrow> '' VITE_MEMPOOL_URL='' @ local_url port | None \<Rightarrow> []);
         indexer =
           (if indexer_enabled args then
              [''cargo run --release -p constantinople-indexer --bin chain-indexer -- --port '' @
                 show_port (la_chain_indexer_port local) @ '' --data-dir '' @ path_join output_dir ''chain-indexer'',
               ''cargo run --release -p constantinople-indexer --bin metadata-indexer -- --store-url '' @
                 local_url (la_chain_indexer_port local) @ '' --port '' @ show_port (la_metadata_indexer_port local),
               ''cargo run --release -p constantinople-indexer --bin qmdb-indexer -- --store-url '' @
                 local_url (la_chain_indexer_port local) @ '' --port '' @ show_port (la_qmdb_indexer_port local),
               ''VITE_SQL_URL='' @ local_url (la_metadata_indexer_port local) @
                 '' VITE_QMDB_URL='' @ local_url (la_qmdb_indexer_port local) @
                 '' VITE_STORE_URL='' @ local_url (la_chain_indexer_port local) @
                 '' VITE_SIMPLEX_VERIFICATION_MATERIAL='' @ simplex_verification_material @ relayer_env @
                 '' npm --prefix explorer run dev'']
            else []) in
     if ga_spammer args then
       map_option (\<lambda>relayer_port. nodes @ indexer @
         [''cargo run --release --bin constantinople-spammer -- --relayer-url '' @ local_url relayer_port @
            '' --relayer-submitters '' @ show_nat (unat (ga_validators args)) @
            '' --relayer-targets '' @ join_strings '','' relayer_targets @
            '' --accounts '' @ show_nat (unat (ga_spammer_accounts args)) @
            '' --value '' @ show_nat (unat (ga_spammer_value args)) @
            '' --seed-offset '' @ show_nat (unat (ga_spammer_seed_offset args)) @
            '' --rayon-threads '' @ show_nat (ga_spammer_rayon_threads args) @
            '' --accounts-jitter '' @ show_jitter (ga_spammer_accounts_jitter args) @
            '' --presigned-batches '' @ show_nat (ga_spammer_presigned_batches args)]) (relayer_http_port args local)
     else Some (nodes @ indexer))"

section \<open>Remote clusters\<close>

record generated_remote =
  gr_public_key_hex :: string
  gr_config_name :: string
  gr_config_file :: string
  gr_config :: deploy_validator_config

definition named_url :: "string \<Rightarrow> u16 \<Rightarrow> string" where
  "named_url host port = ''http://'' @ host @ '':'' @ show_port port"

definition remote_validator ::
    "('o, 's) deploy_lib \<Rightarrow> u16 \<Rightarrow> 'j generate_args \<Rightarrow> remote_args \<Rightarrow> string \<Rightarrow> ('o, 's) cluster_material \<Rightarrow> nat
      \<Rightarrow> generated_remote option" where
  "remote_validator lib metrics_port args remote output_dir m index =
    Option.bind (nth_opt (cm_public_keys m) index) (\<lambda>public_key.
    Option.bind (cm_shares m public_key) (\<lambda>share.
    Option.bind (nth_opt (cm_signers m) index) (\<lambda>signer.
    let public_key_hex = to_hex lib public_key; config_name = public_key_hex @ ''.yaml'' in
    Some
      \<lparr>gr_public_key_hex = public_key_hex, gr_config_name = config_name, gr_config_file = path_join output_dir config_name,
       gr_config =
         \<lparr>dv_private_key = to_hex lib signer, dv_dkg_output = to_hex lib (output_encode lib (cm_dkg_output m)),
          dv_dkg_share = to_hex lib (share_encode lib share), dv_startup = ga_startup args,
          dv_listen_port = ra_listen_port remote, dv_genesis_leader = cm_genesis_leader m,
          dv_partition_prefix = ''validator-'' @ show_nat index,
          dv_num_validators = ga_validators args, dv_primary_validators = primary_hex lib m,
          dv_secondary_validators = secondary_hex lib m, dv_log_level = ga_log_level args,
          dv_worker_threads = ga_worker_threads args, dv_rayon_threads = ga_rayon_threads args,
          dv_http_port = ra_http_port remote, dv_metrics_port = metrics_port,
          dv_max_propose_bytes = deploy_max_propose_bytes, dv_max_pool_bytes = deploy_max_pool_bytes,
          dv_bootstrappers = default_bootstrappers lib (cm_public_keys m), dv_indexer = None, dv_relayer = None\<rparr>\<rparr>)))"

definition remote_build_validators ::
    "('o, 's) deploy_lib \<Rightarrow> u16 \<Rightarrow> 'j generate_args \<Rightarrow> remote_args \<Rightarrow> string \<Rightarrow> ('o, 's) cluster_material
      \<Rightarrow> generated_remote list option" where
  "remote_build_validators lib metrics_port args remote output_dir m =
    collect_opt (map (remote_validator lib metrics_port args remote output_dir m) [0..<unat (ga_validators args)])"

definition remote_indexer_config :: "u16 \<Rightarrow> indexer_config" where
  "remote_indexer_config port =
    \<lparr>chain_indexer_url = named_url chain_indexer_host port, upload_buffer = indexer_upload_buffer\<rparr>"

definition remote_relayer_config ::
    "('o, 's) deploy_lib \<Rightarrow> remote_args \<Rightarrow> ('o, 's) cluster_material \<Rightarrow> deploy_relayer_config" where
  "remote_relayer_config lib remote m =
    \<lparr>dr_leaders = map (\<lambda>public_key. \<lparr>lc_public_key = public_key, lc_url = named_url public_key (ra_http_port remote)\<rparr>)
       (primary_hex lib m)\<rparr>"

definition remote_secondary ::
    "('o, 's) deploy_lib \<Rightarrow> u16 \<Rightarrow> 'j generate_args \<Rightarrow> remote_args \<Rightarrow> string \<Rightarrow> ('o, 's) cluster_material
      \<Rightarrow> nat \<times> secondary_role \<Rightarrow> generated_remote option" where
  "remote_secondary lib metrics_port args remote output_dir m = (\<lambda>(index, role).
    Option.bind (nth_opt (cm_secondary_public_keys m) index) (\<lambda>public_key.
    Option.bind (nth_opt (cm_secondary_signers m) index) (\<lambda>signer.
    let public_key_hex = to_hex lib public_key; config_name = public_key_hex @ ''.yaml'' in
    Some
      \<lparr>gr_public_key_hex = public_key_hex, gr_config_name = config_name, gr_config_file = path_join output_dir config_name,
       gr_config =
         \<lparr>dv_private_key = to_hex lib signer, dv_dkg_output = to_hex lib (output_encode lib (cm_dkg_output m)),
          dv_dkg_share = [], dv_startup = ga_startup args,
          dv_listen_port = ra_listen_port remote, dv_genesis_leader = cm_genesis_leader m,
          dv_partition_prefix = ''secondary-'' @ show_nat index,
          dv_num_validators = ga_validators args, dv_primary_validators = primary_hex lib m,
          dv_secondary_validators = secondary_hex lib m, dv_log_level = ga_log_level args,
          dv_worker_threads = ga_worker_threads args, dv_rayon_threads = ga_rayon_threads args,
          dv_http_port = ra_http_port remote, dv_metrics_port = metrics_port,
          dv_max_propose_bytes = deploy_max_propose_bytes, dv_max_pool_bytes = deploy_max_pool_bytes,
          dv_bootstrappers = default_bootstrappers lib (cm_public_keys m),
          dv_indexer = (if role = IndexerRole then Some (remote_indexer_config (ra_chain_indexer_port remote)) else None),
          dv_relayer = (if role = RelayerRole then Some (remote_relayer_config lib remote m) else None)\<rparr>\<rparr>)))"

definition remote_build_secondaries ::
    "('o, 's) deploy_lib \<Rightarrow> u16 \<Rightarrow> 'j generate_args \<Rightarrow> remote_args \<Rightarrow> string \<Rightarrow> ('o, 's) cluster_material
      \<Rightarrow> generated_remote list option" where
  "remote_build_secondaries lib metrics_port args remote output_dir m =
    collect_opt (map (remote_secondary lib metrics_port args remote output_dir m) (enumerate 0 (secondary_roles args)))"

definition relayer_url ::
    "('o, 's) deploy_lib \<Rightarrow> 'j generate_args \<Rightarrow> remote_args \<Rightarrow> ('o, 's) cluster_material \<Rightarrow> string option" where
  "relayer_url lib args remote m =
    map_option (\<lambda>public_key. named_url (to_hex lib public_key) (ra_http_port remote))
      (nth_opt (cm_secondary_public_keys m) (if ga_indexer args then 1 else 0))"

definition remote_spammer_config ::
    "('o, 's) deploy_lib \<Rightarrow> 'j generate_args \<Rightarrow> remote_args \<Rightarrow> ('o, 's) cluster_material \<Rightarrow> 'j spammer_config option" where
  "remote_spammer_config lib args remote m =
    map_option (\<lambda>url.
      \<lparr>sc_accounts = ga_spammer_accounts args, sc_value = ga_spammer_value args,
       sc_seed_offset = ga_spammer_seed_offset args, sc_rayon_threads = ga_spammer_rayon_threads args,
       sc_http_port = ra_http_port remote, sc_relayer_url = url,
       sc_relayer_submitters = unat (ga_validators args), sc_presigned_batches = ga_spammer_presigned_batches args,
       sc_primary_validators = primary_hex lib m, sc_accounts_jitter = ga_spammer_accounts_jitter args\<rparr>)
      (relayer_url lib args remote m)"

record chain_indexer_config =
  ci_port :: u16
  ci_data_dir :: string

record facade_config =
  fc_port :: u16
  fc_chain_indexer_url :: string

definition chain_indexer_config_of :: "'j generate_args \<Rightarrow> remote_args \<Rightarrow> chain_indexer_config option" where
  "chain_indexer_config_of args remote =
    (if indexer_enabled args then Some \<lparr>ci_port = ra_chain_indexer_port remote, ci_data_dir = ''chain-indexer''\<rparr> else None)"

definition metadata_indexer_config :: "'j generate_args \<Rightarrow> remote_args \<Rightarrow> facade_config option" where
  "metadata_indexer_config args remote =
    (if indexer_enabled args
     then Some \<lparr>fc_port = ra_metadata_indexer_port remote,
       fc_chain_indexer_url = named_url chain_indexer_host (ra_chain_indexer_port remote)\<rparr> else None)"

definition qmdb_indexer_config :: "'j generate_args \<Rightarrow> remote_args \<Rightarrow> facade_config option" where
  "qmdb_indexer_config args remote =
    (if indexer_enabled args
     then Some \<lparr>fc_port = ra_qmdb_indexer_port remote,
       fc_chain_indexer_url = named_url chain_indexer_host (ra_chain_indexer_port remote)\<rparr> else None)"

text \<open>The deployer's structures, as far as the generator fills them; the tag comes from the clock.\<close>

record instance_config =
  ic_name :: string
  ic_region :: string
  ic_availability_zone_group :: "string option"
  ic_instance_type :: string
  ic_storage_size :: int
  ic_storage_class :: string
  ic_storage_iops :: "int option"
  ic_storage_throughput :: "int option"
  ic_binary :: string
  ic_config :: string
  ic_profiling :: bool

record port_config =
  pc_protocol :: string
  pc_port :: u16
  pc_cidr :: string

record aws_config =
  aws_tag :: string
  aws_monitoring :: "string \<times> int \<times> string \<times> string"
  aws_instances :: "instance_config list"
  aws_ports :: "port_config list"

definition tcp_port :: "u16 \<Rightarrow> string \<Rightarrow> port_config" where
  "tcp_port port cidr = \<lparr>pc_protocol = ''tcp'', pc_port = port, pc_cidr = cidr\<rparr>"

definition port_configs :: "remote_args \<Rightarrow> bool \<Rightarrow> port_config list" where
  "port_configs remote enabled =
    [tcp_port (ra_listen_port remote) ''0.0.0.0/0''] @
    (if enabled then
       [tcp_port (ra_chain_indexer_port remote) ''0.0.0.0/0'', tcp_port (ra_metadata_indexer_port remote) ''0.0.0.0/0'',
        tcp_port (ra_qmdb_indexer_port remote) ''0.0.0.0/0'']
     else []) @
    map (tcp_port (ra_http_port remote)) (ra_http_cidrs remote)"

definition node_instance ::
    "remote_args \<Rightarrow> string \<Rightarrow> string \<Rightarrow> string option \<Rightarrow> generated_remote \<Rightarrow> instance_config" where
  "node_instance remote validator_binary region zone v =
    \<lparr>ic_name = gr_public_key_hex v, ic_region = region, ic_availability_zone_group = zone,
     ic_instance_type = ra_instance_type remote, ic_storage_size = ra_storage_size remote,
     ic_storage_class = storage_class, ic_storage_iops = None, ic_storage_throughput = None,
     ic_binary = validator_binary, ic_config = gr_config_name v, ic_profiling = ra_profiling remote\<rparr>"

definition facade_instance :: "remote_args \<Rightarrow> string \<Rightarrow> string \<Rightarrow> string \<Rightarrow> string \<Rightarrow> instance_config" where
  "facade_instance remote name region binary config =
    \<lparr>ic_name = name, ic_region = region, ic_availability_zone_group = Some exoware_availability_zone_group,
     ic_instance_type = ra_instance_type remote, ic_storage_size = ra_storage_size remote,
     ic_storage_class = storage_class, ic_storage_iops = None, ic_storage_throughput = None,
     ic_binary = binary, ic_config = config, ic_profiling = False\<rparr>"

definition deployer_instances ::
    "'j generate_args \<Rightarrow> remote_args \<Rightarrow> string \<Rightarrow> generated_remote list \<Rightarrow> generated_remote list \<Rightarrow> instance_config list" where
  "deployer_instances args remote validator_binary validators secondaries =
    (let regions = ra_regions remote; enabled = indexer_enabled args; shared = regions ! 0 in
     map (\<lambda>(index, v). node_instance remote validator_binary (regions ! (index mod length regions)) None v)
       (enumerate 0 validators) @
     map (\<lambda>(index, v). node_instance remote validator_binary
         (if enabled then shared else regions ! (index mod length regions))
         (if dv_indexer (gr_config v) \<noteq> None then Some exoware_availability_zone_group else None) v)
       (enumerate 0 secondaries) @
     (if enabled then
        [\<lparr>ic_name = chain_indexer_host, ic_region = shared,
          ic_availability_zone_group = Some exoware_availability_zone_group,
          ic_instance_type = ra_chain_indexer_instance_type remote,
          ic_storage_size = ra_chain_indexer_storage_size remote, ic_storage_class = chain_indexer_storage_class,
          ic_storage_iops = Some (ra_chain_indexer_storage_iops remote), ic_storage_throughput = None,
          ic_binary = ''chain-indexer'', ic_config = ''chain-indexer.yaml'', ic_profiling = False\<rparr>,
         facade_instance remote metadata_indexer_host shared ''metadata-indexer'' ''metadata-indexer.yaml'',
         facade_instance remote qmdb_indexer_host shared ''qmdb-indexer'' ''qmdb-indexer.yaml'']
      else []) @
     (if ga_spammer args then
        [\<lparr>ic_name = ''spammer'', ic_region = regions ! 0, ic_availability_zone_group = None,
          ic_instance_type = (case ra_spammer_instance_type remote of Some t \<Rightarrow> t | None \<Rightarrow> ra_instance_type remote),
          ic_storage_size = ra_spammer_storage_size remote, ic_storage_class = storage_class, ic_storage_iops = None,
          ic_storage_throughput = None, ic_binary = ''spammer'', ic_config = ''spammer.yaml'', ic_profiling = False\<rparr>]
      else []))"

definition build_deployer_config ::
    "string \<Rightarrow> 'j generate_args \<Rightarrow> remote_args \<Rightarrow> string \<Rightarrow> string \<Rightarrow> generated_remote list \<Rightarrow> generated_remote list
      \<Rightarrow> aws_config" where
  "build_deployer_config tag args remote validator_binary dashboard validators secondaries =
    \<lparr>aws_tag = tag,
     aws_monitoring = (ra_monitoring_instance_type remote, ra_monitoring_storage_size remote, storage_class, dashboard),
     aws_instances = deployer_instances args remote validator_binary validators secondaries,
     aws_ports = port_configs remote (indexer_enabled args)\<rparr>"

record ('o, 's, 'j) remote_bundle =
  rb_material :: "('o, 's) cluster_material"
  rb_validators :: "generated_remote list"
  rb_secondaries :: "generated_remote list"
  rb_chain_indexer :: "chain_indexer_config option"
  rb_metadata_indexer :: "facade_config option"
  rb_qmdb_indexer :: "facade_config option"
  rb_spammer :: "'j spammer_config option"
  rb_deployer :: aws_config

definition remote_generate ::
    "('o, 's) deploy_lib \<Rightarrow> nat \<Rightarrow> bytes list \<Rightarrow> bytes list \<Rightarrow> u16 \<Rightarrow> string \<Rightarrow> (string \<Rightarrow> bool) \<Rightarrow> (string \<Rightarrow> string)
      \<Rightarrow> 'j generate_args \<Rightarrow> remote_args \<Rightarrow> ('o, 's, 'j) remote_bundle option" where
  "remote_generate lib rng random_signers random_secondary_signers metrics_port tag missing absolute_path args remote =
    (let output_dir = absolute_path (ga_output_dir args) in
     if \<not> validate_generate_args args \<or> ga_validators args = 0 \<or> ra_regions remote = [] \<or>
        unat (ga_validators args) < length (ra_regions remote) \<or> \<not> missing output_dir then None
     else
       Option.bind (generate_remote_cluster_material lib rng random_signers random_secondary_signers) (\<lambda>m.
       Option.bind (remote_build_validators lib metrics_port args remote output_dir m) (\<lambda>validators.
       Option.bind (remote_build_secondaries lib metrics_port args remote output_dir m) (\<lambda>secondaries.
       Option.bind (if ga_spammer args then map_option Some (remote_spammer_config lib args remote m) else Some None)
         (\<lambda>spammer.
       Some \<lparr>rb_material = m, rb_validators = validators, rb_secondaries = secondaries,
         rb_chain_indexer = chain_indexer_config_of args remote,
         rb_metadata_indexer = metadata_indexer_config args remote,
         rb_qmdb_indexer = qmdb_indexer_config args remote, rb_spammer = spammer,
         rb_deployer = build_deployer_config tag args remote ''validator'' ''dashboard.json'' validators secondaries\<rparr>)))))"

end
