(* ===== verification/Services.thy ===== *)
theory Services
  imports Deploy
begin

text \<open>
  The settings of the index services, \<open>src/crates/indexer/src/main.rs\<close> (the chain indexer), \<open>bin/sql.rs\<close> (the
  metadata indexer) and \<open>bin/qmdb.rs\<close> (the QMDB indexer): command line or deployer files. The options that name
  files hold the contents of these files. \<open>None\<close> is a panic. The servers themselves are library code.
\<close>

definition path_parent :: "string \<Rightarrow> string option" where
  "path_parent path =
    (let p = trim_end_slashes path in
     if p = [] then None
     else case rsplit_once CHR ''/'' p of
       None \<Rightarrow> Some []
     | Some (dir, _) \<Rightarrow> Some (if trim_end_slashes dir = [] then ''/'' else trim_end_slashes dir))"

record chain_indexer_cli =
  cic_port :: u16
  cic_data_dir :: "string option"
  cic_config :: "(string \<times> chain_indexer_config) option"

definition resolve_data_dir :: "string \<Rightarrow> string \<Rightarrow> string option" where
  "resolve_data_dir config_path data_dir =
    (if data_dir \<noteq> [] \<and> hd data_dir = CHR ''/'' then Some data_dir
     else map_option (\<lambda>parent. path_join parent data_dir) (path_parent config_path))"

definition chain_indexer_settings :: "chain_indexer_cli \<Rightarrow> (string \<times> u16) option" where
  "chain_indexer_settings cli =
    (case cic_config cli of
       Some (config_path, config) \<Rightarrow>
         map_option (\<lambda>dir. (dir, ci_port config)) (resolve_data_dir config_path (ci_data_dir config))
     | None \<Rightarrow> map_option (\<lambda>dir. (dir, cic_port cli)) (cic_data_dir cli))"

record facade_cli =
  fl_store_url :: "string option"
  fl_host :: ip_addr
  fl_port :: u16
  fl_hosts :: "(string \<times> ip_addr) list option"
  fl_config :: "facade_config option"

definition metadata_indexer_settings :: "(bytes \<Rightarrow> string) \<Rightarrow> facade_cli \<Rightarrow> (string \<times> ip_addr \<times> u16) option" where
  "metadata_indexer_settings v6 cli =
    (case fl_config cli of
       Some config \<Rightarrow>
         map_option (\<lambda>hosts.
           (resolve_named_http_url v6 (fc_chain_indexer_url config) (collect_map hosts), fl_host cli, fc_port config))
           (fl_hosts cli)
     | None \<Rightarrow> map_option (\<lambda>url. (url, fl_host cli, fl_port cli)) (fl_store_url cli))"

definition qmdb_indexer_settings :: "(bytes \<Rightarrow> string) \<Rightarrow> facade_cli \<Rightarrow> (string \<times> ip_addr \<times> u16) option" where
  "qmdb_indexer_settings v6 cli =
    (case fl_config cli of
       Some config \<Rightarrow>
         map_option (\<lambda>hosts.
           (resolve_named_http_url v6 (fc_chain_indexer_url config) (collect_map hosts), fl_host cli, fc_port config))
           (fl_hosts cli)
     | None \<Rightarrow> map_option (\<lambda>url. (url, fl_host cli, fl_port cli)) (fl_store_url cli))"

end
