(* ===== verification/Certificates.thy ===== *)
theory Certificates
  imports Block
begin

text \<open>
  The certificate reporter of the indexer (\<open>crates/indexer/src/publisher/certificate.rs\<close> and
  \<open>simplex_block.rs\<close>): blocks, notarizations and finalizations arrive in any order and are paired by the
  digest of the block, which a marshal commitment embeds. The commitment type, its codec and the
  check that a certificate matches a header belong to the consensus library and are fields of
  \<open>cert_lib\<close>; writes to the Store are collected in the order they are made.
\<close>

section \<open>Data\<close>

type_synonym commitment = bytes

record certificate =
  cert_payload :: commitment
  cert_votes :: bytes

datatype simplex_input =
    InBlock sealed_block
  | InNotarization certificate
  | InFinalization certificate

record certified_header =
  ch_commitment :: commitment
  ch_header :: "header sealed"

record cert_lib =
  commitment_size :: nat
  commitment_block :: "commitment \<Rightarrow> digest"
  commitment_read :: "commitment reader"
  certificate_matches :: "certificate \<Rightarrow> certified_header \<Rightarrow> bool"

record pending_certificates =
  pd_block :: "sealed_block option"
  pd_notarization :: "certificate option"
  pd_finalization :: "certificate option"

definition pending_default :: pending_certificates where
  "pending_default = \<lparr>pd_block = None, pd_notarization = None, pd_finalization = None\<rparr>"

text \<open>What is written to the Store: a block by digest, or a batch of certified headers.\<close>

datatype simplex_upload =
    UpBlock "header sealed" bytes
  | UpNotarized certificate certified_header
  | UpFinalized certificate certified_header

section \<open>Blocks in two parts\<close>

definition encode_simplex_block_parts :: "'x block_env_scheme \<Rightarrow> sealed_block \<Rightarrow> (header sealed \<times> bytes) option" where
  "encode_simplex_block_parts c block =
    map_option (\<lambda>ws. (sealed_new_unchecked (b_header (sealed_inner block)) (seal block), vec_write c ws))
      (collect_opt (map (lazy_write c) (b_body (sealed_inner block))))"

text \<open>\<open>decode_cfg\<close> runs the reader of the body on the whole buffer.\<close>

definition decode_simplex_block_parts ::
    "'x block_env_scheme \<Rightarrow> header sealed \<Rightarrow> bytes \<Rightarrow> block_cfg \<Rightarrow> (codec_error, sealed_block) result" where
  "decode_simplex_block_parts c h body cfg =
    bind_res (vec_read c (max_transactions cfg) (lazy_read c) body) (\<lambda>(txs, rest).
      if rest = [] then Ok (sealed_new_unchecked \<lparr>b_header = sealed_inner h, b_body = txs\<rparr> (seal h))
      else Err (ExtraData (length rest)))"

section \<open>Certified headers\<close>

definition certified_header_new :: "commitment \<Rightarrow> sealed_block \<Rightarrow> certified_header" where
  "certified_header_new commitment block =
    \<lparr>ch_commitment = commitment,
     ch_header = sealed_new_unchecked (b_header (sealed_inner block)) (seal block)\<rparr>"

definition certified_block_digest :: "cert_lib \<Rightarrow> certified_header \<Rightarrow> digest" where
  "certified_block_digest lib ch = commitment_block lib (ch_commitment ch)"

definition certified_digest :: "certified_header \<Rightarrow> commitment" where
  "certified_digest ch = ch_commitment ch"

definition certified_height :: "certified_header \<Rightarrow> u64" where
  "certified_height ch = h_height (sealed_inner (ch_header ch))"

definition certified_parent :: "certified_header \<Rightarrow> digest" where
  "certified_parent ch = ctx_parent_digest (h_context (sealed_inner (ch_header ch)))"

definition certified_header_write :: "'x block_env_scheme \<Rightarrow> certified_header \<Rightarrow> bytes" where
  "certified_header_write c ch = ch_commitment ch @ sealed_write (header_write c) (ch_header ch)"

definition certified_header_encode_size :: "'x block_env_scheme \<Rightarrow> certified_header \<Rightarrow> nat" where
  "certified_header_encode_size c ch =
    length (ch_commitment ch) + sealed_encode_size (header_encode_size c) (ch_header ch)"

definition certified_header_read :: "'x block_env_scheme \<Rightarrow> cert_lib \<Rightarrow> certified_header reader" where
  "certified_header_read c lib bs =
    bind_res (commitment_read lib bs) (\<lambda>(commitment, bs).
    bind_res (sealed_read (header_read c) (header_seal c) bs) (\<lambda>(h, bs).
      if commitment_block lib commitment \<noteq> seal h
      then Err (Invalid ''CertifiedHeader'' ''commitment block digest does not match header'')
      else Ok (\<lparr>ch_commitment = commitment, ch_header = h\<rparr>, bs)))"

section \<open>The uploader\<close>

fun input_key :: "cert_lib \<Rightarrow> simplex_input \<Rightarrow> digest" where
  "input_key lib (InBlock block) = seal block"
| "input_key lib (InNotarization n) = commitment_block lib (cert_payload n)"
| "input_key lib (InFinalization f) = commitment_block lib (cert_payload f)"

text \<open>A panic of the code, here a certificate that does not match its header, is \<open>None\<close>.\<close>

definition certify ::
    "cert_lib \<Rightarrow> sealed_block \<Rightarrow> certificate \<Rightarrow> certified_header option" where
  "certify lib block cert =
    (let ch = certified_header_new (cert_payload cert) block in
     if certificate_matches lib cert ch then Some ch else None)"

definition prepare_ready_upload ::
    "cert_lib \<Rightarrow> pending_certificates \<Rightarrow> (bool \<times> pending_certificates \<times> simplex_upload list) option" where
  "prepare_ready_upload lib entry =
    (case pd_block entry of
       None \<Rightarrow> Some (False, entry, [])
     | Some block \<Rightarrow>
         (case (case pd_notarization entry of
                  None \<Rightarrow> Some []
                | Some n \<Rightarrow> map_option (\<lambda>ch. [UpNotarized n ch]) (certify lib block n)) of
            None \<Rightarrow> None
          | Some notarized \<Rightarrow>
              (case (case pd_finalization entry of
                       None \<Rightarrow> Some []
                     | Some f \<Rightarrow> map_option (\<lambda>ch. [UpFinalized f ch]) (certify lib block f)) of
                 None \<Rightarrow> None
               | Some finalized \<Rightarrow>
                   Some (finalized \<noteq> [],
                     entry\<lparr>pd_notarization := None, pd_finalization := None\<rparr>, notarized @ finalized))))"

record uploader =
  up_pending :: "digest \<Rightarrow> pending_certificates option"
  up_uploads :: "simplex_upload list"

fun note_input :: "simplex_input \<Rightarrow> pending_certificates \<Rightarrow> pending_certificates" where
  "note_input (InBlock block) entry = entry\<lparr>pd_block := Some block\<rparr>"
| "note_input (InNotarization n) entry = entry\<lparr>pd_notarization := Some n\<rparr>"
| "note_input (InFinalization f) entry = entry\<lparr>pd_finalization := Some f\<rparr>"

fun block_upload :: "'x block_env_scheme \<Rightarrow> simplex_input \<Rightarrow> simplex_upload list option" where
  "block_upload c (InBlock block) = map_option (\<lambda>(h, body). [UpBlock h body]) (encode_simplex_block_parts c block)"
| "block_upload c _ = Some []"

definition uploader_step :: "'x block_env_scheme \<Rightarrow> cert_lib \<Rightarrow> simplex_input \<Rightarrow> uploader \<Rightarrow> uploader option" where
  "uploader_step c lib input s =
    (let key = input_key lib input;
         entry = (case up_pending s key of None \<Rightarrow> pending_default | Some e \<Rightarrow> e) in
     case block_upload c input of
       None \<Rightarrow> None
     | Some blocks \<Rightarrow>
         (case prepare_ready_upload lib (note_input input entry) of
            None \<Rightarrow> None
          | Some (ended, entry, ups) \<Rightarrow>
              Some \<lparr>up_pending = (if ended then (up_pending s)(key := None) else (up_pending s)(key \<mapsto> entry)),
                    up_uploads = up_uploads s @ blocks @ ups\<rparr>))"

fun run_uploader :: "'x block_env_scheme \<Rightarrow> cert_lib \<Rightarrow> simplex_input list \<Rightarrow> uploader \<Rightarrow> uploader option" where
  "run_uploader c lib [] s = Some s"
| "run_uploader c lib (i # ins) s =
    (case uploader_step c lib i s of None \<Rightarrow> None | Some s \<Rightarrow> run_uploader c lib ins s)"

definition uploader_new :: uploader where
  "uploader_new = \<lparr>up_pending = (\<lambda>_. None), up_uploads = []\<rparr>"

text \<open>\<open>report\<close> forwards notarizations and finalizations and drops every other activity.\<close>

datatype activity = ActNotarization certificate | ActFinalization certificate | ActOther

fun reporter_report :: "activity \<Rightarrow> simplex_input option" where
  "reporter_report (ActNotarization n) = Some (InNotarization n)"
| "reporter_report (ActFinalization f) = Some (InFinalization f)"
| "reporter_report ActOther = None"

section \<open>What the library promises\<close>

text \<open>A certificate matches a header tagged with its payload; commitments have a fixed width.\<close>

definition cert_lib_ok :: "cert_lib \<Rightarrow> bool" where
  "cert_lib_ok lib \<longleftrightarrow>
    (\<forall>cert ch. cert_payload cert = certified_digest ch \<longrightarrow> certificate_matches lib cert ch) \<and>
    (\<forall>x rest. length x = commitment_size lib \<longrightarrow> commitment_read lib (x @ rest) = Ok (x, rest))"

lemma certify_Some: "cert_lib_ok lib \<Longrightarrow> certify lib b x = Some (certified_header_new (cert_payload x) b)"
  by (simp add: certify_def Let_def cert_lib_ok_def certified_header_new_def certified_digest_def)

definition ready_uploads :: "sealed_block \<Rightarrow> pending_certificates \<Rightarrow> simplex_upload list" where
  "ready_uploads b e =
    (case pd_notarization e of None \<Rightarrow> [] | Some n \<Rightarrow> [UpNotarized n (certified_header_new (cert_payload n) b)]) @
    (case pd_finalization e of None \<Rightarrow> [] | Some f \<Rightarrow> [UpFinalized f (certified_header_new (cert_payload f) b)])"

lemma prepare_ready_eq:
  assumes "cert_lib_ok lib"
  shows "prepare_ready_upload lib e = Some
    (case pd_block e of
       None \<Rightarrow> (False, e, [])
     | Some b \<Rightarrow> (pd_finalization e \<noteq> None, e\<lparr>pd_notarization := None, pd_finalization := None\<rparr>, ready_uploads b e))"
  by (simp add: prepare_ready_upload_def ready_uploads_def certify_Some [OF assms] split: option.splits)

definition noted :: "cert_lib \<Rightarrow> simplex_input \<Rightarrow> uploader \<Rightarrow> pending_certificates" where
  "noted lib i s =
    note_input i (case up_pending s (input_key lib i) of None \<Rightarrow> pending_default | Some e \<Rightarrow> e)"

definition settled :: "digest \<Rightarrow> pending_certificates \<Rightarrow> simplex_upload list \<Rightarrow> uploader \<Rightarrow> uploader" where
  "settled key e ups s =
    (case pd_block e of
       None \<Rightarrow> \<lparr>up_pending = (up_pending s)(key \<mapsto> e), up_uploads = up_uploads s @ ups\<rparr>
     | Some b \<Rightarrow>
         \<lparr>up_pending = (up_pending s)(key := if pd_finalization e \<noteq> None then None
             else Some (e\<lparr>pd_notarization := None, pd_finalization := None\<rparr>)),
          up_uploads = up_uploads s @ ups @ ready_uploads b e\<rparr>)"

lemma uploader_step_eq:
  assumes "cert_lib_ok lib" "block_upload c i = Some ups"
  shows "uploader_step c lib i s = Some (settled (input_key lib i) (noted lib i s) ups s)"
  by (simp add: uploader_step_def assms(2) prepare_ready_eq [OF assms(1)] Let_def noted_def settled_def
      split: option.splits)

section \<open>Entries and uploads belong to their key\<close>

definition entry_of :: "cert_lib \<Rightarrow> digest \<Rightarrow> pending_certificates \<Rightarrow> bool" where
  "entry_of lib d e \<longleftrightarrow>
    (\<forall>b. pd_block e = Some b \<longrightarrow> seal b = d) \<and>
    (\<forall>n. pd_notarization e = Some n \<longrightarrow> commitment_block lib (cert_payload n) = d) \<and>
    (\<forall>f. pd_finalization e = Some f \<longrightarrow> commitment_block lib (cert_payload f) = d)"

fun upload_matches :: "cert_lib \<Rightarrow> simplex_upload \<Rightarrow> bool" where
  "upload_matches lib (UpBlock h body) \<longleftrightarrow> True"
| "upload_matches lib (UpNotarized n ch) \<longleftrightarrow>
    certified_digest ch = cert_payload n \<and> certified_block_digest lib ch = seal (ch_header ch)"
| "upload_matches lib (UpFinalized f ch) \<longleftrightarrow>
    certified_digest ch = cert_payload f \<and> certified_block_digest lib ch = seal (ch_header ch)"

lemma entry_of_note:
  "entry_of lib (input_key lib i) e \<Longrightarrow> entry_of lib (input_key lib i) (note_input i e)"
  by (cases i) (auto simp: entry_of_def)

lemma entry_of_default: "entry_of lib d pending_default"
  by (simp add: entry_of_def pending_default_def)

lemma ready_uploads_match:
  "entry_of lib d e \<Longrightarrow> pd_block e = Some b \<Longrightarrow> list_all (upload_matches lib) (ready_uploads b e)"
  by (auto simp: ready_uploads_def entry_of_def certified_header_new_def certified_digest_def
      certified_block_digest_def sealed_new_unchecked_def split: option.splits)

lemma block_upload_matches: "block_upload c i = Some ups \<Longrightarrow> list_all (upload_matches lib) ups"
  by (cases i) auto

definition uploader_inv :: "cert_lib \<Rightarrow> uploader \<Rightarrow> bool" where
  "uploader_inv lib s \<longleftrightarrow> (\<forall>d e. up_pending s d = Some e \<longrightarrow> entry_of lib d e) \<and>
    list_all (upload_matches lib) (up_uploads s)"

lemma uploader_step_inv:
  assumes "block_upload c i = Some ups" "uploader_inv lib s"
  shows "uploader_inv lib (settled (input_key lib i) (noted lib i s) ups s)"
proof -
  let ?k = "input_key lib i" and ?e = "noted lib i s"
  have e: "entry_of lib ?k ?e"
    unfolding noted_def using assms(2)
    by (intro entry_of_note) (auto simp: uploader_inv_def entry_of_default split: option.splits)
  then have e': "entry_of lib ?k (?e\<lparr>pd_notarization := None, pd_finalization := None\<rparr>)"
    by (simp add: entry_of_def)
  have up: "list_all (upload_matches lib) ups" by (rule block_upload_matches [OF assms(1)])
  show ?thesis
  proof (cases "pd_block ?e")
    case None
    then show ?thesis using assms(2) e up by (simp add: settled_def uploader_inv_def)
  next
    case (Some b)
    then show ?thesis using assms(2) e' up ready_uploads_match [OF e Some] by (simp add: settled_def uploader_inv_def)
  qed
qed

section \<open>Pairing\<close>

fun finalizes :: "cert_lib \<Rightarrow> digest \<Rightarrow> simplex_upload \<Rightarrow> bool" where
  "finalizes lib d (UpFinalized f ch) \<longleftrightarrow> commitment_block lib (cert_payload f) = d"
| "finalizes lib d _ \<longleftrightarrow> False"

definition blocks_for :: "digest \<Rightarrow> simplex_input list \<Rightarrow> bool" where
  "blocks_for d ins \<longleftrightarrow> (\<exists>b. InBlock b \<in> set ins \<and> seal b = d)"

definition finalizations_for :: "cert_lib \<Rightarrow> digest \<Rightarrow> simplex_input list \<Rightarrow> certificate list" where
  "finalizations_for lib d ins =
    concat (map (\<lambda>i. case i of InFinalization f \<Rightarrow> if commitment_block lib (cert_payload f) = d then [f] else [] | _ \<Rightarrow> []) ins)"

text \<open>What holds of the entry and the uploads for one digest after the inputs \<open>ins\<close>, as long as at most
  one finalization for it has arrived.\<close>

fun paired_with :: "certificate list \<Rightarrow> bool \<Rightarrow> simplex_upload list \<Rightarrow> pending_certificates option \<Rightarrow> bool" where
  "paired_with [] has_block ups pend \<longleftrightarrow> ups = [] \<and>
    (case pend of
       None \<Rightarrow> \<not> has_block
     | Some e \<Rightarrow> pd_finalization e = None \<and> (pd_block e \<noteq> None \<longleftrightarrow> has_block))"
| "paired_with [f] has_block ups pend \<longleftrightarrow>
    (if has_block
     then (\<exists>ch. ups = [UpFinalized f ch]) \<and> (case pend of None \<Rightarrow> True | Some e \<Rightarrow> pd_finalization e = None)
     else ups = [] \<and> (\<exists>e. pend = Some e \<and> pd_finalization e = Some f \<and> pd_block e = None))"
| "paired_with _ has_block ups pend \<longleftrightarrow> True"

definition paired :: "cert_lib \<Rightarrow> digest \<Rightarrow> simplex_input list \<Rightarrow> uploader \<Rightarrow> bool" where
  "paired lib d ins s \<longleftrightarrow>
    paired_with (finalizations_for lib d ins) (blocks_for d ins) (filter (finalizes lib d) (up_uploads s)) (up_pending s d)"

lemma block_upload_finalizes: "block_upload c i = Some ups \<Longrightarrow> filter (finalizes lib d) ups = []"
  by (cases i) auto

lemma ready_uploads_finalizes:
  "entry_of lib k e \<Longrightarrow> filter (finalizes lib d) (ready_uploads b e) =
    (case pd_finalization e of
       None \<Rightarrow> []
     | Some f \<Rightarrow> if k = d then [UpFinalized f (certified_header_new (cert_payload f) b)] else [])"
  by (auto simp: ready_uploads_def entry_of_def split: option.splits)

lemma noted_entry:
  assumes "uploader_inv lib s"
  shows "entry_of lib (input_key lib i) (noted lib i s)"
  unfolding noted_def using assms
  by (intro entry_of_note) (auto simp: uploader_inv_def entry_of_default split: option.splits)

lemma paired_other:
  assumes "uploader_inv lib s" "block_upload c i = Some ups" "input_key lib i \<noteq> d" "paired lib d ins s"
  shows "paired lib d (ins @ [i]) (settled (input_key lib i) (noted lib i s) ups s)"
proof -
  let ?s = "settled (input_key lib i) (noted lib i s) ups s"
  have "up_pending ?s d = up_pending s d"
    using assms(3) by (simp add: settled_def split: option.splits)
  moreover have "filter (finalizes lib d) (up_uploads ?s) = filter (finalizes lib d) (up_uploads s)"
    using assms(3) block_upload_finalizes [OF assms(2)] ready_uploads_finalizes [OF noted_entry [OF assms(1), of i]]
    by (simp add: settled_def split: option.splits)
  moreover have "finalizations_for lib d (ins @ [i]) = finalizations_for lib d ins"
    using assms(3) by (cases i) (simp_all add: finalizations_for_def)
  moreover have "blocks_for d (ins @ [i]) = blocks_for d ins"
    using assms(3) by (cases i) (auto simp: blocks_for_def)
  ultimately show ?thesis using assms(4) by (simp add: paired_def)
qed

lemma paired_key:
  assumes "uploader_inv lib s" "block_upload c i = Some ups" "input_key lib i = d" "paired lib d ins s"
  shows "paired lib d (ins @ [i]) (settled (input_key lib i) (noted lib i s) ups s)"
proof -
  let ?s = "settled (input_key lib i) (noted lib i s) ups s" and ?e = "noted lib i s"
  have e: "?e = note_input i (case up_pending s d of None \<Rightarrow> pending_default | Some e \<Rightarrow> e)"
    by (simp add: noted_def assms(3))
  have pend: "up_pending ?s d =
      (if pd_block ?e = None then Some ?e
       else if pd_finalization ?e \<noteq> None then None
       else Some (?e\<lparr>pd_notarization := None, pd_finalization := None\<rparr>))"
    using assms(3) by (simp add: settled_def split: option.splits)
  have ups: "filter (finalizes lib d) (up_uploads ?s) = filter (finalizes lib d) (up_uploads s) @
      (case pd_block ?e of None \<Rightarrow> [] | Some b \<Rightarrow>
        (case pd_finalization ?e of None \<Rightarrow> [] | Some f \<Rightarrow> [UpFinalized f (certified_header_new (cert_payload f) b)]))"
    using assms(3) block_upload_finalizes [OF assms(2)] ready_uploads_finalizes [OF noted_entry [OF assms(1), of i]]
    by (simp add: settled_def split: option.splits)
  have fs: "finalizations_for lib d (ins @ [i]) = finalizations_for lib d ins @ (case i of InFinalization f \<Rightarrow> [f] | _ \<Rightarrow> [])"
    using assms(3) by (cases i) (simp_all add: finalizations_for_def)
  have bs: "blocks_for d (ins @ [i]) \<longleftrightarrow> blocks_for d ins \<or> (\<exists>b. i = InBlock b)"
    using assms(3) by (cases i) (auto simp: blocks_for_def)
  from assms(4) show ?thesis
    unfolding paired_def pend ups fs bs unfolding e
    by (cases i; cases "up_pending s d"; cases "finalizations_for lib d ins" rule: remdups_adj.cases)
      (auto simp: pending_default_def split: if_splits)
qed

section \<open>Runs\<close>

fun input_ok :: "'x tx_env_scheme \<Rightarrow> simplex_input \<Rightarrow> bool" where
  "input_ok c (InBlock b) \<longleftrightarrow> list_all (lazy_wf c) (b_body (sealed_inner b))"
| "input_ok c _ \<longleftrightarrow> True"

lemma lazy_wf_write: "lazy_wf c lz \<Longrightarrow> lazy_write c lz \<noteq> None"
  by (auto simp: lazy_wf_def lazy_write_def lazy_get_def split: option.splits)

lemma block_upload_ok: "input_ok c i \<Longrightarrow> \<exists>ups. block_upload c i = Some ups"
proof (cases i)
  case (InBlock b)
  assume "input_ok c i"
  then have "None \<notin> set (map (lazy_write c) (b_body (sealed_inner b)))"
    using InBlock lazy_wf_write [of c] by (fastforce simp: list_all_iff)
  then obtain ws where "collect_opt (map (lazy_write c) (b_body (sealed_inner b))) = Some ws"
    using collect_opt_None_iff by (metis not_None_eq)
  then show ?thesis by (simp add: InBlock encode_simplex_block_parts_def)
qed simp_all

lemma run_uploader_append:
  "run_uploader c lib (xs @ ys) s =
    (case run_uploader c lib xs s of None \<Rightarrow> None | Some s \<Rightarrow> run_uploader c lib ys s)"
  by (induction xs arbitrary: s) (auto split: option.splits)

lemma run_uploader_total:
  assumes "cert_lib_ok lib" "list_all (input_ok c) ins"
  shows "\<exists>s. run_uploader c lib ins uploader_new = Some s \<and> uploader_inv lib s \<and> (\<forall>d. paired lib d ins s)"
  using assms(2)
proof (induction ins rule: rev_induct)
  case Nil
  show ?case
    by (simp add: uploader_inv_def uploader_new_def paired_def finalizations_for_def blocks_for_def)
next
  case (snoc i ins)
  then obtain s where s: "run_uploader c lib ins uploader_new = Some s" "uploader_inv lib s" "\<forall>d. paired lib d ins s"
    by auto
  obtain ups where ups: "block_upload c i = Some ups" using snoc.prems block_upload_ok by auto
  let ?s = "settled (input_key lib i) (noted lib i s) ups s"
  have "run_uploader c lib (ins @ [i]) uploader_new = Some ?s"
    by (simp add: run_uploader_append s(1) uploader_step_eq [OF assms(1) ups])
  moreover have "uploader_inv lib ?s" by (rule uploader_step_inv [OF ups s(2)])
  moreover have "paired lib d (ins @ [i]) ?s" for d
    using paired_key [OF s(2) ups] paired_other [OF s(2) ups] s(3) by metis
  ultimately show ?case by blast
qed

lemma late_notarization_kept:
  assumes "cert_lib_ok lib" "block_upload c (InBlock b) = Some ups"
    and "commitment_block lib (cert_payload f) = seal b" "commitment_block lib (cert_payload n) = seal b"
  shows "\<exists>s e. run_uploader c lib [InBlock b, InFinalization f, InNotarization n] uploader_new = Some s \<and>
    up_pending s (seal b) = Some e \<and> pd_notarization e = Some n \<and> pd_block e = None \<and>
    (\<forall>ch. UpNotarized n ch \<notin> set (up_uploads s))"
proof -
  have "UpNotarized n ch \<notin> set ups" for ch using assms(2) by auto
  with assms(2-4) show ?thesis
    by (simp add: uploader_step_eq [OF assms(1)] noted_def settled_def pending_default_def uploader_new_def
        ready_uploads_def)
qed

section \<open>Properties\<close>

text \<open>C29: Certificates are paired in any order: if a block and exactly one finalization for its digest are
  among the inputs, in whatever order and mixed with inputs for other blocks, the reporter does not
  panic and writes that finalization exactly once, with the header of the block it certifies; and
  every certificate written carries a header whose digest its commitment embeds.\<close>

theorem certificates_paired:
  assumes "cert_lib_ok lib" "list_all (input_ok c) ins" "finalizations_for lib d ins = [f]" "blocks_for d ins"
  shows "\<exists>s ch. run_uploader c lib ins uploader_new = Some s \<and>
    filter (finalizes lib d) (up_uploads s) = [UpFinalized f ch] \<and>
    certified_digest ch = cert_payload f \<and> seal (ch_header ch) = d \<and>
    list_all (upload_matches lib) (up_uploads s)"
proof -
  from run_uploader_total [OF assms(1,2)] obtain s where
    s: "run_uploader c lib ins uploader_new = Some s" "uploader_inv lib s" "paired lib d ins s" by blast
  from s(3) assms(3,4) obtain ch where ch: "filter (finalizes lib d) (up_uploads s) = [UpFinalized f ch]"
    by (auto simp: paired_def)
  then have "UpFinalized f ch \<in> set (filter (finalizes lib d) (up_uploads s))" by simp
  then have mem: "UpFinalized f ch \<in> set (up_uploads s)" "finalizes lib d (UpFinalized f ch)"
    by (simp_all del: finalizes.simps)
  have all: "list_all (upload_matches lib) (up_uploads s)" using s(2) by (simp add: uploader_inv_def)
  with mem have "upload_matches lib (UpFinalized f ch)" unfolding list_all_iff by blast
  with mem(2) s(1) ch all show ?thesis by (auto simp: certified_block_digest_def certified_digest_def)
qed

definition demo_cert_lib :: cert_lib where
  "demo_cert_lib =
    \<lparr>commitment_size = 32, commitment_block = id, commitment_read = take_bytes 32,
     certificate_matches = (\<lambda>cert ch. cert_payload cert = ch_commitment ch)\<rparr>"

lemma cert_lib_ok_demo: "cert_lib_ok demo_cert_lib"
  by (simp add: cert_lib_ok_def demo_cert_lib_def certified_digest_def)

definition demo_certified :: sealed_block where
  "demo_certified = block_seal demo_block_env (block_new (demo_header 4 1000) [demo_signed 7 8 50 0])"

definition demo_finalization :: certificate where
  "demo_finalization = \<lparr>cert_payload = seal demo_certified, cert_votes = [1]\<rparr>"

theorem certificates_paired_witness:
  "\<exists>s ch. run_uploader demo_block_env demo_cert_lib
      [InFinalization demo_finalization, InNotarization demo_finalization, InBlock demo_certified] uploader_new = Some s \<and>
    filter (finalizes demo_cert_lib (seal demo_certified)) (up_uploads s) = [UpFinalized demo_finalization ch]"
proof -
  have wf: "list_all (input_ok demo_block_env)
      [InFinalization demo_finalization, InNotarization demo_finalization, InBlock demo_certified]"
    by (simp add: demo_certified_def block_seal_def sealed_new_unchecked_def block_new_def lazy_wf_constructors
        demo_signed_wf_block)
  have "finalizations_for demo_cert_lib (seal demo_certified)
      [InFinalization demo_finalization, InNotarization demo_finalization, InBlock demo_certified] = [demo_finalization]"
    "blocks_for (seal demo_certified)
      [InFinalization demo_finalization, InNotarization demo_finalization, InBlock demo_certified]"
    by (simp_all add: finalizations_for_def blocks_for_def demo_cert_lib_def demo_finalization_def)
  from certificates_paired [OF cert_lib_ok_demo wf this] show ?thesis by blast
qed

text \<open>Certified headers on the wire: a header tagged with the commitment that embeds its digest is read
  back in front of any continuation and takes \<open>encode_size\<close> bytes; with any other commitment it is
  refused.\<close>

theorem certified_header_codec:
  assumes "block_env_ok c" "cert_lib_ok lib" "header_wf c h" "length x = commitment_size lib"
  shows "length (certified_header_write c \<lparr>ch_commitment = x, ch_header = header_seal c h\<rparr>) =
      certified_header_encode_size c \<lparr>ch_commitment = x, ch_header = header_seal c h\<rparr> \<and>
    certified_header_read c lib (certified_header_write c \<lparr>ch_commitment = x, ch_header = header_seal c h\<rparr> @ rest) =
      (if commitment_block lib x = header_hash_slow c h
       then Ok (\<lparr>ch_commitment = x, ch_header = header_seal c h\<rparr>, rest)
       else Err (Invalid ''CertifiedHeader'' ''commitment block digest does not match header''))"
proof -
  have "commitment_read lib (x @ r) = Ok (x, r)" for r using assms(2,4) by (simp add: cert_lib_ok_def)
  then show ?thesis
    using assms(1,3)
    by (simp add: certified_header_write_def certified_header_read_def certified_header_encode_size_def sealed_write_def
        sealed_encode_size_def header_seal_def sealed_new_unchecked_def sealed_read_def header_read_write header_size)
qed

theorem certified_header_codec_witness:
  "certified_header_read demo_block_env demo_cert_lib
      (certified_header_write demo_block_env
        \<lparr>ch_commitment = replicate 32 9, ch_header = header_seal demo_block_env (demo_header 4 1000)\<rparr> @ [5]) =
    (if commitment_block demo_cert_lib (replicate 32 9) = header_hash_slow demo_block_env (demo_header 4 1000)
     then Ok (\<lparr>ch_commitment = replicate 32 9, ch_header = header_seal demo_block_env (demo_header 4 1000)\<rparr>, [5])
     else Err (Invalid ''CertifiedHeader'' ''commitment block digest does not match header''))"
  using certified_header_codec [OF block_env_ok_demo cert_lib_ok_demo demo_header_wf [of 4 1000], of "replicate 32 9" "[5]"]
  by (simp add: demo_cert_lib_def)

text \<open>Blocks stored as header and body come back with the same seal and, transaction by transaction, the
  same body.\<close>

lemma simplex_parts_round_trip:
  assumes "block_env_ok c" "list_all (signed_transaction_wf c) ts" "max_transactions cfg = (lo, hi)"
    and "lo \<le> length ts" "length ts \<le> hi" "length ts < 2 ^ 32"
  shows "\<exists>hd_part body. encode_simplex_block_parts c (block_seal c (block_new h ts)) = Some (hd_part, body) \<and>
    decode_simplex_block_parts c hd_part body cfg =
      Ok (sealed_new_unchecked \<lparr>b_header = h, b_body = deferred_body c ts\<rparr> (seal (block_seal c (block_new h ts))))"
proof -
  let ?item = "\<lambda>t. write_len c (length (signed_transaction_write c t)) @ signed_transaction_write c t"
  have wf: "signed_transaction_wf c t" if "t \<in> set ts" for t using assms(2) that by (simp add: list_all_iff)
  note lw = lazy_write_new [OF block_env_tx [OF assms(1)] wf]
  have "map (lazy_write c) (map lazy_new ts) = map (\<lambda>t. Some (?item t)) ts" using lw(1) by simp
  then have "encode_simplex_block_parts c (block_seal c (block_new h ts)) =
      Some (sealed_new_unchecked h (seal (block_seal c (block_new h ts))), vec_write c (map ?item ts))"
    by (simp add: encode_simplex_block_parts_def block_seal_def sealed_new_unchecked_def block_new_def del: map_map)
  moreover have "vec_read c (lo, hi) (lazy_read c) (vec_write c (map ?item ts) @ []) = Ok (deferred_body c ts, [])"
  proof (rule vec_read_append [OF assms(1)])
    show "list_all2 (\<lambda>x w. \<forall>r. lazy_read c (w @ r) = Ok (x, r)) (deferred_body c ts) (map ?item ts)"
      using lw(2) by (simp add: deferred_body_def list_all2_conv_all_nth)
  qed (use assms in \<open>simp_all add: deferred_body_def\<close>)
  ultimately show ?thesis
    by (simp add: decode_simplex_block_parts_def assms(3)) (simp add: sealed_new_unchecked_def)
qed

end
