(* ===== verification/Reader.thy ===== *)
theory Reader
  imports Indexer Certificates Strings
begin

text \<open>
  The read side of the index, \<open>src/crates/indexer/src/client.rs\<close>: blocks by digest and by height from
  the Simplex rows, transactions from the \<open>tx_meta\<close> rows. The Simplex client and the SQL session are
  the parameter \<open>index_client\<close>. Shown: what is returned for a digest hashes to it, whatever the Store
  answers; a transaction of an uploaded block is found by its digest; and a finalized block that went
  through the certificate uploader is read back by height and as the latest block.
\<close>

section \<open>Hex payloads\<close>

datatype read_error =
    ReadStore string
  | ReadSimplex string
  | ReadSqlSchema string
  | ReadSql string
  | ReadSqlRow string
  | ReadHex string
  | ReadCodec codec_error

definition map_err :: "('e \<Rightarrow> 'f) \<Rightarrow> ('e, 'a) result \<Rightarrow> ('f, 'a) result" where
  "map_err f r = (case r of Err e \<Rightarrow> Err (f e) | Ok x \<Rightarrow> Ok x)"

definition decode_hex_nibble :: "u8 \<Rightarrow> (read_error, u8) result" where
  "decode_hex_nibble byte =
    (if 48 \<le> byte \<and> byte \<le> 57 then Ok (byte - 48)
     else if 97 \<le> byte \<and> byte \<le> 102 then Ok (byte - 97 + 10)
     else if 65 \<le> byte \<and> byte \<le> 70 then Ok (byte - 65 + 10)
     else Err (ReadHex (''invalid hex character 0x'' @ hex_lower [byte])))"

fun decode_hex_pairs :: "bytes \<Rightarrow> (read_error, bytes) result" where
  "decode_hex_pairs (h # l # rest) =
    bind_res (decode_hex_nibble h) (\<lambda>high.
    bind_res (decode_hex_nibble l) (\<lambda>low.
    bind_res (decode_hex_pairs rest) (\<lambda>out. Ok (or (push_bit 4 high) low # out))))"
| "decode_hex_pairs _ = Ok []"

definition client_decode_hex :: "string \<Rightarrow> (read_error, bytes) result" where
  "client_decode_hex value =
    (let bytes = as_bytes value in
     if length bytes mod 2 \<noteq> 0 then Err (ReadHex ''odd number of hex characters'')
     else decode_hex_pairs bytes)"

section \<open>The client\<close>

text \<open>Record batches of the SQL library: the first column is an array of strings, or of another type.\<close>

datatype sql_array = Utf8Array "string option list" | OtherArray nat

fun num_rows :: "sql_array \<Rightarrow> nat" where
  "num_rows (Utf8Array xs) = length xs"
| "num_rows (OtherArray n) = n"

record index_client =
  get_block_raw :: "digest \<Rightarrow> (string, bytes option) result"
  get_header :: "digest \<Rightarrow> (string, header sealed option) result"
  get_block :: "digest \<Rightarrow> (string, (header sealed \<times> bytes) option) result"
  get_finalized_by_height :: "u64 \<Rightarrow> (string, (certificate \<times> certified_header) option) result"
  latest_finalized :: "(string, (certificate \<times> certified_header) option) result"
  get_finalized_by_view_raw :: "u64 \<Rightarrow> (string, bytes option) result"
  get_finalized_by_view :: "u64 \<Rightarrow> (string, (certificate \<times> certified_header) option) result"
  get_notarized_raw :: "u64 \<Rightarrow> (string, bytes option) result"
  get_notarized :: "u64 \<Rightarrow> (string, (certificate \<times> certified_header) option) result"
  run_sql :: "string \<Rightarrow> (string, sql_array list) result"

definition block_bytes_by_digest :: "index_client \<Rightarrow> digest \<Rightarrow> (read_error, bytes option) result" where
  "block_bytes_by_digest cl d = map_err ReadSimplex (get_block_raw cl d)"

definition header_by_digest :: "index_client \<Rightarrow> digest \<Rightarrow> (read_error, header sealed option) result" where
  "header_by_digest cl d = map_err ReadSimplex (get_header cl d)"

definition block_by_digest ::
    "'x block_env_scheme \<Rightarrow> index_client \<Rightarrow> digest \<Rightarrow> block_cfg \<Rightarrow> (read_error, sealed_block option) result" where
  "block_by_digest c cl d cfg =
    bind_res (map_err ReadSimplex (get_block cl d)) (\<lambda>data.
      case data of
        None \<Rightarrow> Ok None
      | Some (h, body) \<Rightarrow>
          bind_res (map_err ReadCodec (decode_simplex_block_parts c h body cfg)) (\<lambda>b. Ok (Some b)))"

definition certified_header_by_height :: "index_client \<Rightarrow> u64 \<Rightarrow> (read_error, certified_header option) result" where
  "certified_header_by_height cl height =
    bind_res (map_err ReadSimplex (get_finalized_by_height cl height)) (\<lambda>x. Ok (map_option snd x))"

definition digest_by_height :: "cert_lib \<Rightarrow> index_client \<Rightarrow> u64 \<Rightarrow> (read_error, digest option) result" where
  "digest_by_height lib cl height =
    bind_res (certified_header_by_height cl height) (\<lambda>x. Ok (map_option (certified_block_digest lib) x))"

definition block_by_height ::
    "'x block_env_scheme \<Rightarrow> cert_lib \<Rightarrow> index_client \<Rightarrow> u64 \<Rightarrow> block_cfg \<Rightarrow> (read_error, sealed_block option) result" where
  "block_by_height c lib cl height cfg =
    bind_res (digest_by_height lib cl height) (\<lambda>x.
      case x of None \<Rightarrow> Ok None | Some d \<Rightarrow> block_by_digest c cl d cfg)"

definition latest_certified_header :: "index_client \<Rightarrow> (read_error, certified_header option) result" where
  "latest_certified_header cl =
    bind_res (map_err ReadSimplex (latest_finalized cl)) (\<lambda>x. Ok (map_option snd x))"

definition latest_height :: "index_client \<Rightarrow> (read_error, u64 option) result" where
  "latest_height cl = bind_res (latest_certified_header cl) (\<lambda>x. Ok (map_option certified_height x))"

definition latest_block ::
    "'x block_env_scheme \<Rightarrow> cert_lib \<Rightarrow> index_client \<Rightarrow> block_cfg \<Rightarrow> (read_error, sealed_block option) result" where
  "latest_block c lib cl cfg =
    bind_res (latest_certified_header cl) (\<lambda>x.
      case x of None \<Rightarrow> Ok None | Some ch \<Rightarrow> block_by_digest c cl (certified_block_digest lib ch) cfg)"

definition verify_signed_transaction_digest :: "'x tx_env_scheme \<Rightarrow> bytes \<Rightarrow> digest \<Rightarrow> (read_error, unit) result" where
  "verify_signed_transaction_digest c bs d =
    (if length bs < transaction_size
     then Err (ReadSqlRow (''tx_meta.body_hex signed transaction is '' @ show_nat (length bs) @
       '' bytes, shorter than '' @ show_nat transaction_size @ ''-byte transaction body''))
     else if hash c (take transaction_size bs) \<noteq> d
     then Err (ReadSqlRow ''tx_meta.body_hex transaction body does not match tx_digest'')
     else Ok ())"

definition body_query :: "digest \<Rightarrow> string" where
  "body_query d = ''SELECT body_hex FROM tx_meta WHERE tx_digest = X'' @ [CHR 0x27] @ hex_lower d @ [CHR 0x27] @ '' LIMIT 1''"

text \<open>The first batch with a row decides.\<close>

fun first_row :: "'x tx_env_scheme \<Rightarrow> digest \<Rightarrow> sql_array list \<Rightarrow> (read_error, bytes option) result" where
  "first_row c d [] = Ok None"
| "first_row c d (batch # batches) =
    (if num_rows batch = 0 then first_row c d batches
     else
       (case batch of
          OtherArray _ \<Rightarrow> Err (ReadSqlRow ''tx_meta.body_hex must be Utf8'')
        | Utf8Array body_hex \<Rightarrow>
            (case body_hex ! 0 of
               None \<Rightarrow> Err (ReadSqlRow ''tx_meta.body_hex must not be null'')
             | Some value \<Rightarrow>
                 bind_res (client_decode_hex value) (\<lambda>bs.
                 bind_res (verify_signed_transaction_digest c bs d) (\<lambda>_. Ok (Some bs))))))"

definition transaction_bytes :: "'x tx_env_scheme \<Rightarrow> index_client \<Rightarrow> digest \<Rightarrow> (read_error, bytes option) result" where
  "transaction_bytes c cl d =
    bind_res (map_err ReadSql (run_sql cl (body_query d))) (first_row c d)"

text \<open>\<open>from_bytes\<close> of \<open>codec.rs\<close> reads a value and ignores what follows it.\<close>

definition codec_from_bytes :: "'a reader \<Rightarrow> bytes \<Rightarrow> (codec_error, 'a) result" where
  "codec_from_bytes read bs = bind_res (read bs) (\<lambda>(x, rest). Ok x)"

definition transaction_by_digest ::
    "'x tx_env_scheme \<Rightarrow> index_client \<Rightarrow> digest \<Rightarrow> (read_error, signed_transaction option) result" where
  "transaction_by_digest c cl d =
    bind_res (transaction_bytes c cl d) (\<lambda>x.
      case x of
        None \<Rightarrow> Ok None
      | Some bs \<Rightarrow> bind_res (map_err ReadCodec (codec_from_bytes (signed_transaction_read c) bs)) (\<lambda>t. Ok (Some t)))"

definition finalization_bytes :: "index_client \<Rightarrow> u64 \<Rightarrow> (read_error, bytes option) result" where
  "finalization_bytes cl view = map_err ReadSimplex (get_finalized_by_view_raw cl view)"

definition finalization_by_view ::
    "index_client \<Rightarrow> u64 \<Rightarrow> (read_error, (certificate \<times> certified_header) option) result" where
  "finalization_by_view cl view = map_err ReadSimplex (get_finalized_by_view cl view)"

definition notarization_bytes :: "index_client \<Rightarrow> u64 \<Rightarrow> (read_error, bytes option) result" where
  "notarization_bytes cl view = map_err ReadSimplex (get_notarized_raw cl view)"

definition notarization_by_view ::
    "index_client \<Rightarrow> u64 \<Rightarrow> (read_error, (certificate \<times> certified_header) option) result" where
  "notarization_by_view cl view = map_err ReadSimplex (get_notarized cl view)"

lemma map_err_Ok_iff [simp]: "map_err f r = Ok x \<longleftrightarrow> r = Ok x"
  by (cases r) (simp_all add: map_err_def)

lemma map_err_Ok [simp]: "map_err f (Ok x) = Ok x"
  by simp

section \<open>Hex round trip\<close>

lemma hex_nibbles: "list_all (\<lambda>n. decode_hex_nibble (of_char (hex_digits ! n)) = Ok (word_of_nat n)) [0..<16]"
  by code_simp

lemma hex_nibble: "n < 16 \<Longrightarrow> decode_hex_nibble (of_char (hex_digits ! n)) = Ok (word_of_nat n)"
  using hex_nibbles by (simp add: list_all_iff)

lemma low_nibble: "and b 15 = take_bit 4 (b :: u8)"
proof -
  have "(15 :: u8) = mask 4" by (simp add: mask_eq_exp_minus_1)
  then show ?thesis by (simp add: take_bit_eq_mask)
qed

lemma nibbles: "or (push_bit 4 (drop_bit 4 b)) (take_bit 4 b) = (b :: u8)"
  by (rule bit_word_eqI) (auto simp: bit_simps)

lemma nibble_bounds: "unat (drop_bit 4 (b :: u8)) < 16" "unat (take_bit 4 (b :: u8)) < 16"
proof -
  have "unat b < 256" using unsigned_less [of b] by simp
  then show "unat (drop_bit 4 b) < 16" by (simp add: drop_bit_eq_div unat_div less_mult_imp_div_less)
  show "unat (take_bit 4 b) < 16" by (simp add: take_bit_eq_mod unat_mod)
qed

lemma hex_pairs: "decode_hex_pairs (as_bytes (hex_lower bs)) = Ok bs"
proof (induction bs)
  case (Cons b bs)
  then show ?case
    using hex_nibble [OF nibble_bounds(1) [of b]] hex_nibble [OF nibble_bounds(2) [of b]]
    by (simp add: hex_lower_def as_bytes_def low_nibble nibbles)
qed (simp add: hex_lower_def as_bytes_def)

lemma hex_lower_length: "length (hex_lower bs) = 2 * length bs"
  by (induction bs) (simp_all add: hex_lower_def)

lemma hex_round_trip [simp]: "client_decode_hex (hex_lower bs) = Ok bs"
  using hex_pairs [of bs] by (simp add: client_decode_hex_def Let_def as_bytes_def hex_lower_length)

lemma hex_lower_inj: "hex_lower a = hex_lower b \<Longrightarrow> a = b"
  by (metis hex_round_trip result.inject(2))

lemma body_query_inj: "body_query a = body_query b \<Longrightarrow> a = b"
  by (simp add: body_query_def hex_lower_inj)

section \<open>Transactions in the index\<close>

lemma verify_digest_Ok_iff:
  "verify_signed_transaction_digest c bs d = Ok u \<longleftrightarrow>
    transaction_size \<le> length bs \<and> hash c (take transaction_size bs) = d"
  by (auto simp: verify_signed_transaction_digest_def)

lemma first_row_Some:
  assumes "first_row c d batches = Ok (Some bs)"
  shows "transaction_size \<le> length bs \<and> hash c (take transaction_size bs) = d"
  using assms
  by (induction c d batches rule: first_row.induct)
    (auto simp: bind_res_Ok_iff verify_digest_Ok_iff split: if_splits sql_array.splits option.splits)

lemma transaction_by_digest_Some:
  assumes "tx_env_ok c" "transaction_by_digest c cl d = Ok (Some t)"
  shows "signed_transaction_wf c t \<and> message_digest t = d"
proof -
  from assms(2) obtain bs rest batches where
    bs: "first_row c d batches = Ok (Some bs)" "signed_transaction_read c bs = Ok (t, rest)"
    by (auto simp: transaction_by_digest_def transaction_bytes_def codec_from_bytes_def bind_res_Ok_iff
        split: option.splits)
  then have t: "signed_transaction_wf c t" "bs = signed_transaction_write c t @ rest"
    by (simp_all add: signed_transaction_read_Ok [OF assms(1)])
  then have "take transaction_size bs = transaction_write c (st_value t)"
    using transaction_write_length [OF assms(1), of "st_value t"]
    by (simp add: signed_transaction_write_def sealed_write_def signed_transaction_wf_def)
  with first_row_Some [OF bs(1)] t(1) show ?thesis
    by (simp add: signed_transaction_wf_def transaction_hash_slow_def)
qed

text \<open>The body that a row stores for a digest, and what the SQL session answers over a set of rows:
  nothing, or the body of one of the rows with that digest, possibly after empty batches.\<close>

definition tx_meta_body :: "digest \<Rightarrow> sql_row \<Rightarrow> string option" where
  "tx_meta_body d row =
    (if row_table row \<noteq> tx_meta_table then None
     else (case row_values row of
         [CellFixedBinary d', _, CellUtf8 body] \<Rightarrow> if d' = d then Some body else None
       | _ \<Rightarrow> None))"

definition stored_bodies :: "digest \<Rightarrow> sql_row list \<Rightarrow> string set" where
  "stored_bodies d rows = {body. \<exists>row \<in> set rows. tx_meta_body d row = Some body}"

definition sql_serves :: "sql_row list \<Rightarrow> index_client \<Rightarrow> bool" where
  "sql_serves rows cl \<longleftrightarrow>
    (\<forall>d. \<exists>pre post. list_all (\<lambda>b. num_rows b = 0) pre \<and>
      (if stored_bodies d rows = {} then run_sql cl (body_query d) = Ok pre
       else \<exists>body \<in> stored_bodies d rows. run_sql cl (body_query d) = Ok (pre @ Utf8Array [Some body] # post)))"

text \<open>The rows that uploads write.\<close>

definition published_rows :: "'x tx_env_scheme \<Rightarrow> queued_upload list \<Rightarrow> sql_row list" where
  "published_rows c us =
    concat (map (\<lambda>u. case expand_queued_finalized_upload c \<lparr>pu_height = upload_height u, pu_upload = u, pu_completion = 0\<rparr> of
        Ok x \<Rightarrow> expanded_sql x
      | Err _ \<Rightarrow> []) us)"

lemma first_row_skip: "list_all (\<lambda>b. num_rows b = 0) pre \<Longrightarrow> first_row c d (pre @ bs) = first_row c d bs"
  by (induction pre) simp_all

lemma first_row_body:
  assumes "tx_env_ok c" "signed_transaction_wf c t" "message_digest t = d"
  shows "first_row c d (Utf8Array (Some (hex_lower (signed_transaction_write c t)) # xs) # post) =
    Ok (Some (signed_transaction_write c t))"
proof -
  have "signed_transaction_write c t = transaction_write c (st_value t) @ sig_write (st_signature t)"
    by (simp add: signed_transaction_write_def sealed_write_def)
  moreover have "length (transaction_write c (st_value t)) = transaction_size"
    using assms(1,2) by (simp add: signed_transaction_wf_def transaction_write_length)
  moreover have "hash c (transaction_write c (st_value t)) = d"
    using assms(2,3) by (simp add: signed_transaction_wf_def transaction_hash_slow_def)
  ultimately show ?thesis by (simp add: verify_signed_transaction_digest_def)
qed

lemmas table_names = block_meta_table_def tx_meta_table_def tx_activity_table_def account_meta_table_def

lemma tx_meta_body_rows:
  "tx_meta_body d (encode_tx_meta_row r) = (if tm_digest r = d then Some (hex_lower (tm_body r)) else None)"
  "tx_meta_body d (encode_block_meta_row b) = None"
  "tx_meta_body d (encode_tx_activity_row a) = None"
  "tx_meta_body d (encode_account_meta_row m) = None"
  by (simp_all add: tx_meta_body_def encode_tx_meta_row_def encode_block_meta_row_def encode_tx_activity_row_def
      encode_account_meta_row_def table_names)

lemma stored_bodies_simps:
  "stored_bodies d [] = {}"
  "stored_bodies d (row # rows) = set_option (tx_meta_body d row) \<union> stored_bodies d rows"
  "stored_bodies d (xs @ ys) = stored_bodies d xs \<union> stored_bodies d ys"
  "stored_bodies d (concat xss) = (\<Union>xs \<in> set xss. stored_bodies d xs)"
  by (auto simp: stored_bodies_def)

lemma stored_entry:
  "stored_bodies d (entry_rows h a k tx) = (if it_digest tx = d then {hex_lower (it_bytes tx)} else {})"
  by (simp add: entry_rows_def activity_rows_def Let_def stored_bodies_simps tx_meta_body_rows)

lemma stored_account_rows: "stored_bodies d (account_rows_from s off delta) = {}"
proof (induction delta arbitrary: off)
  case (Cons x delta)
  then show ?case by (cases x) (simp_all add: stored_bodies_simps tx_meta_body_rows)
qed (simp add: stored_bodies_simps)

lemma stored_block_rows:
  "stored_bodies d (block_rows c block us a ts) =
    {hex_lower (signed_transaction_write c t) | t. t \<in> set ts \<and> message_digest t = d}"
proof -
  have "stored_bodies d (block_rows c block us a ts) =
      (\<Union>(j, t) \<in> set (enumerate 0 ts). if message_digest t = d then {hex_lower (signed_transaction_write c t)} else {})"
    by (simp add: block_rows_def Let_def stored_bodies_simps tx_meta_body_rows)
      (simp add: split_def stored_entry indexed_entry_def)
  also have "\<dots> = (\<Union>t \<in> snd ` set (enumerate 0 ts). if message_digest t = d then {hex_lower (signed_transaction_write c t)} else {})"
    by (force simp: split_def)
  also have "snd ` set (enumerate 0 ts) = set ts"
    by (metis map_snd_enumerate set_map)
  finally show ?thesis by auto
qed

lemma stored_published:
  assumes "tx_env_ok c" "digest32 c"
    and "\<forall>(u, ts) \<in> set ups. indexable c ns (qu_block u) ts \<and> is_ok (upload_transaction_end u)"
  shows "stored_bodies d (published_rows c (map fst ups)) =
    {hex_lower (signed_transaction_write c t) | t. t \<in> set (concat (map snd ups)) \<and> message_digest t = d}"
  using assms(3)
proof (induction ups)
  case Nil
  then show ?case by (simp add: published_rows_def stored_bodies_simps)
next
  case (Cons x ups)
  obtain u ts where x: "x = (u, ts)" by (cases x)
  from Cons.prems obtain e where e: "indexable c ns (qu_block u) ts" "upload_transaction_end u = Ok e"
    by (cases "upload_transaction_end u") (auto simp: x)
  let ?p = "\<lparr>pu_height = upload_height u, pu_upload = u, pu_completion = 0\<rparr>"
  obtain y where y: "expand_queued_finalized_upload c ?p = Ok y"
    "stored_bodies d (expanded_sql y) =
      {hex_lower (signed_transaction_write c t) | t. t \<in> set ts \<and> message_digest t = d}"
    using expand_Ok [of c ns ?p ts e] assms(1,2) e
    by (auto simp: expanded_sql_def stored_bodies_simps stored_block_rows account_rows_def stored_account_rows)
  have "published_rows c (map fst (x # ups)) = expanded_sql y @ published_rows c (map fst ups)"
    by (simp add: published_rows_def x y(1))
  with Cons y(2) show ?case by (auto simp: stored_bodies_simps x)
qed

section \<open>Blocks in the index\<close>

text \<open>What the Simplex client answers over the uploads it was given: a block by the digest of its header
  and a finalization by height, each one of the uploaded ones if there is any.\<close>

definition simplex_serves :: "simplex_upload list \<Rightarrow> index_client \<Rightarrow> bool" where
  "simplex_serves ups cl \<longleftrightarrow>
    (\<forall>d. if \<exists>h body. UpBlock h body \<in> set ups \<and> seal h = d
      then \<exists>h body. UpBlock h body \<in> set ups \<and> seal h = d \<and> get_block cl d = Ok (Some (h, body))
      else get_block cl d = Ok None) \<and>
    (\<forall>n. if \<exists>f ch. UpFinalized f ch \<in> set ups \<and> certified_height ch = n
      then \<exists>f ch. UpFinalized f ch \<in> set ups \<and> certified_height ch = n \<and>
        get_finalized_by_height cl n = Ok (Some (f, ch))
      else get_finalized_by_height cl n = Ok None)"

text \<open>Where the uploads and the blocks of pending entries come from.\<close>

definition upload_origins :: "'x block_env_scheme \<Rightarrow> simplex_input list \<Rightarrow> uploader \<Rightarrow> bool" where
  "upload_origins c ins s \<longleftrightarrow>
    (\<forall>d e b. up_pending s d = Some e \<longrightarrow> pd_block e = Some b \<longrightarrow> InBlock b \<in> set ins) \<and>
    (\<forall>h body. UpBlock h body \<in> set (up_uploads s) \<longleftrightarrow>
      (\<exists>b. InBlock b \<in> set ins \<and> encode_simplex_block_parts c b = Some (h, body))) \<and>
    (\<forall>f ch. UpFinalized f ch \<in> set (up_uploads s) \<longrightarrow>
      (\<exists>b. InBlock b \<in> set ins \<and> ch = certified_header_new (cert_payload f) b))"

lemma ready_uploads_mem:
  "UpBlock h body \<notin> set (ready_uploads b e)"
  "UpFinalized f ch \<in> set (ready_uploads b e) \<Longrightarrow> ch = certified_header_new (cert_payload f) b"
  by (auto simp: ready_uploads_def split: option.splits)

lemma block_upload_mem:
  assumes "block_upload c i = Some ups"
  shows "UpBlock h body \<in> set ups \<longleftrightarrow> (\<exists>b. i = InBlock b \<and> encode_simplex_block_parts c b = Some (h, body))"
    and "UpFinalized f ch \<notin> set ups"
  using assms by (cases i; auto)+

lemma note_input_block: "pd_block (note_input i e) = Some b \<Longrightarrow> i = InBlock b \<or> pd_block e = Some b"
  by (cases i) auto

lemma noted_origin:
  assumes "upload_origins c ins s" "pd_block (noted lib i s) = Some b"
  shows "InBlock b \<in> set (ins @ [i])"
  using note_input_block [OF assms(2) [unfolded noted_def]] assms(1)
  by (auto simp: upload_origins_def pending_default_def split: option.splits)

lemma settled_origins:
  assumes "upload_origins c ins s" "block_upload c i = Some ups"
  shows "upload_origins c (ins @ [i]) (settled (input_key lib i) (noted lib i s) ups s)"
proof (cases "pd_block (noted lib i s)")
  case None
  then show ?thesis
    using assms(1) block_upload_mem [OF assms(2)]
    by (fastforce simp: settled_def upload_origins_def split: if_splits)
next
  case (Some b)
  note b = noted_origin [OF assms(1) Some]
  let ?s = "settled (input_key lib i) (noted lib i s) ups s"
  have "InBlock x \<in> set (ins @ [i])" if "up_pending ?s d = Some e" "pd_block e = Some x" for d e x
    using that b assms(1) Some by (auto simp: settled_def upload_origins_def split: if_splits)
  moreover have "UpBlock h body \<in> set (up_uploads ?s) \<longleftrightarrow>
      (\<exists>b. InBlock b \<in> set (ins @ [i]) \<and> encode_simplex_block_parts c b = Some (h, body))" for h body
    using assms(1) block_upload_mem(1) [OF assms(2)] ready_uploads_mem(1)
    by (auto simp: settled_def upload_origins_def Some)
  moreover have "\<exists>b. InBlock b \<in> set (ins @ [i]) \<and> ch = certified_header_new (cert_payload f) b"
    if "UpFinalized f ch \<in> set (up_uploads ?s)" for f ch
    using that assms(1) b block_upload_mem(2) [OF assms(2)] ready_uploads_mem(2)
    by (fastforce simp: settled_def upload_origins_def Some)
  ultimately show ?thesis unfolding upload_origins_def by blast
qed

lemma run_uploader_origins:
  assumes "cert_lib_ok lib" "run_uploader c lib ins uploader_new = Some s"
  shows "upload_origins c ins s"
  using assms(2)
proof (induction ins arbitrary: s rule: rev_induct)
  case Nil
  then show ?case by (auto simp: upload_origins_def uploader_new_def)
next
  case (snoc i ins)
  from snoc.prems obtain s' where s': "run_uploader c lib ins uploader_new = Some s'" "uploader_step c lib i s' = Some s"
    by (auto simp: run_uploader_append split: option.splits)
  then obtain ups where ups: "block_upload c i = Some ups"
    by (auto simp: uploader_step_def Let_def split: option.splits)
  with s'(2) have "s = settled (input_key lib i) (noted lib i s') ups s'"
    by (simp add: uploader_step_eq [OF assms(1) ups])
  with settled_origins [OF snoc.IH [OF s'(1)] ups] show ?case by simp
qed

lemma finalized_origin:
  assumes "upload_origins c ins s" "uploader_inv lib s" "UpFinalized f ch \<in> set (up_uploads s)"
  obtains b where "InBlock b \<in> set ins" "certified_height ch = h_height (b_header (sealed_inner b))"
    "certified_block_digest lib ch = seal b"
proof -
  from assms(1,3) obtain b where b: "InBlock b \<in> set ins" "ch = certified_header_new (cert_payload f) b"
    unfolding upload_origins_def by blast
  moreover from assms(2,3) have "upload_matches lib (UpFinalized f ch)" by (auto simp: uploader_inv_def list_all_iff)
  ultimately show thesis
    by (intro that) (simp_all add: certified_height_def certified_header_new_def sealed_new_unchecked_def)
qed

lemma served_digest:
  assumes "cert_lib_ok lib" "list_all (input_ok c) ins" "InBlock b \<in> set ins" "finalizations_for lib (seal b) ins = [f]"
    and "\<forall>b'. InBlock b' \<in> set ins \<longrightarrow>
      h_height (b_header (sealed_inner b')) = h_height (b_header (sealed_inner b)) \<or> seal b' = seal b \<longrightarrow> b' = b"
    and "run_uploader c lib ins uploader_new = Some s" "simplex_serves (up_uploads s) cl"
  shows "digest_by_height lib cl (h_height (b_header (sealed_inner b))) = Ok (Some (seal b))"
proof -
  note origins = run_uploader_origins [OF assms(1,6)]
  from run_uploader_total [OF assms(1,2)] assms(6)
  have inv: "uploader_inv lib s" "paired lib (seal b) ins s" by auto
  have "blocks_for (seal b) ins" using assms(3) by (auto simp: blocks_for_def)
  with inv(2) assms(4) obtain ch where "filter (finalizes lib (seal b)) (up_uploads s) = [UpFinalized f ch]"
    by (auto simp: paired_def)
  then have "UpFinalized f ch \<in> set (filter (finalizes lib (seal b)) (up_uploads s))" by simp
  then have mem: "UpFinalized f ch \<in> set (up_uploads s)" "commitment_block lib (cert_payload f) = seal b" by auto
  from inv(1) mem have "certified_block_digest lib ch = seal b"
    by (auto simp: uploader_inv_def list_all_iff certified_block_digest_def certified_digest_def)
  with finalized_origin [OF origins inv(1) mem(1)] assms(5)
  have "certified_height ch = h_height (b_header (sealed_inner b))" by metis
  with assms(7) mem(1) obtain f' ch' where fin: "UpFinalized f' ch' \<in> set (up_uploads s)"
    "certified_height ch' = h_height (b_header (sealed_inner b))"
    "get_finalized_by_height cl (h_height (b_header (sealed_inner b))) = Ok (Some (f', ch'))"
    unfolding simplex_serves_def by meson
  with finalized_origin [OF origins inv(1) fin(1)] assms(5) have "certified_block_digest lib ch' = seal b" by metis
  then show ?thesis by (simp add: digest_by_height_def certified_header_by_height_def fin(3))
qed

lemma parts_seal: "encode_simplex_block_parts c b = Some (p, body) \<Longrightarrow> seal p = seal b"
  by (auto simp: encode_simplex_block_parts_def sealed_new_unchecked_def)

lemma served_block:
  assumes "upload_origins c ins s" "simplex_serves (up_uploads s) cl" "InBlock b \<in> set ins"
    and "encode_simplex_block_parts c b = Some (p, body)"
    and "\<forall>b'. InBlock b' \<in> set ins \<longrightarrow> seal b' = seal b \<longrightarrow> b' = b"
  shows "get_block cl (seal b) = Ok (Some (p, body))"
proof -
  from assms(1,3,4) have "UpBlock p body \<in> set (up_uploads s)" unfolding upload_origins_def by blast
  with parts_seal [OF assms(4)] assms(2) obtain p' body' where got: "UpBlock p' body' \<in> set (up_uploads s)"
    "seal p' = seal b" "get_block cl (seal b) = Ok (Some (p', body'))" unfolding simplex_serves_def by meson
  from assms(1) got(1) obtain x where x: "InBlock x \<in> set ins" "encode_simplex_block_parts c x = Some (p', body')"
    unfolding upload_origins_def by blast
  with got(2) parts_seal [OF x(2)] assms(5) have "x = b" by simp
  with x(2) assms(4) got(3) show ?thesis by simp
qed

section \<open>Properties\<close>

text \<open>C32: What the index returns for a digest is what was asked for, whatever the Store answers: the bytes
  start with a transaction that hashes to the digest, and a decoded transaction is well formed with
  that message digest.\<close>

theorem reader_integrity:
  assumes "tx_env_ok c"
  shows "(transaction_bytes c cl d = Ok (Some bs) \<longrightarrow>
      transaction_size \<le> length bs \<and> hash c (take transaction_size bs) = d) \<and>
    (transaction_by_digest c cl d = Ok (Some t) \<longrightarrow> signed_transaction_wf c t \<and> message_digest t = d)"
  using transaction_by_digest_Some [OF assms] first_row_Some [of c d _ bs]
  by (auto simp: transaction_bytes_def bind_res_Ok_iff)

definition demo_client :: index_client where
  "demo_client =
    \<lparr>get_block_raw = (\<lambda>_. Ok None), get_header = (\<lambda>_. Ok None),
     get_block = (\<lambda>d. if d = seal demo_certified
       then Ok (encode_simplex_block_parts demo_block_env demo_certified) else Ok None),
     get_finalized_by_height = (\<lambda>n. if n = 4
       then Ok (Some (demo_finalization, certified_header_new (cert_payload demo_finalization) demo_certified))
       else Ok None),
     latest_finalized = Ok None, get_finalized_by_view_raw = (\<lambda>_. Ok None),
     get_finalized_by_view = (\<lambda>_. Ok None), get_notarized_raw = (\<lambda>_. Ok None), get_notarized = (\<lambda>_. Ok None),
     run_sql = (\<lambda>q. if q = body_query (message_digest (demo_signed 7 8 50 0))
       then Ok [OtherArray 0, Utf8Array [Some (hex_lower (signed_transaction_write demo_block_env (demo_signed 7 8 50 0)))]]
       else Ok [])\<rparr>"

lemma demo_client_sql:
  "run_sql demo_client (body_query d) =
    (if d = message_digest (demo_signed 7 8 50 0)
     then Ok [OtherArray 0, Utf8Array [Some (hex_lower (signed_transaction_write demo_block_env (demo_signed 7 8 50 0)))]]
     else Ok [])"
  by (auto simp: demo_client_def dest: body_query_inj)

lemma demo_transaction_found:
  "transaction_by_digest demo_block_env demo_client (message_digest (demo_signed 7 8 50 0)) = Ok (Some (demo_signed 7 8 50 0))"
proof -
  have wf: "signed_transaction_wf demo_block_env (demo_signed 7 8 50 0)" by (simp add: demo_signed_wf_block)
  have "first_row demo_block_env (message_digest (demo_signed 7 8 50 0))
      [OtherArray 0, Utf8Array [Some (hex_lower (signed_transaction_write demo_block_env (demo_signed 7 8 50 0)))]] =
    Ok (Some (signed_transaction_write demo_block_env (demo_signed 7 8 50 0)))"
    using first_row_body [OF block_env_tx [OF block_env_ok_demo] wf refl, of "[]" "[]"] by simp
  moreover have "signed_transaction_read demo_block_env (signed_transaction_write demo_block_env (demo_signed 7 8 50 0)) =
      Ok (demo_signed 7 8 50 0, [])"
    using wf by (simp add: signed_transaction_read_Ok)
  ultimately show ?thesis
    by (simp add: transaction_by_digest_def transaction_bytes_def demo_client_sql codec_from_bytes_def)
qed

theorem reader_integrity_witness:
  "transaction_by_digest demo_block_env demo_client (message_digest (demo_signed 7 8 50 0)) = Ok (Some (demo_signed 7 8 50 0)) \<and>
    signed_transaction_wf demo_block_env (demo_signed 7 8 50 0)"
  using reader_integrity [of demo_block_env demo_client "message_digest (demo_signed 7 8 50 0)" _ "demo_signed 7 8 50 0"]
    demo_transaction_found by simp

text \<open>Indexed transactions are found: when the SQL session answers over the rows of any sequence of
  uploads of verified blocks, a lookup by digest returns a transaction of one of these blocks with that
  digest if there is one, decoded from its row, and nothing otherwise.\<close>

theorem transaction_reads_back:
  assumes "tx_env_ok c" "digest32 c"
    and "\<forall>(u, ts) \<in> set ups. indexable c ns (qu_block u) ts \<and> is_ok (upload_transaction_end u)"
    and "sql_serves (published_rows c (map fst ups)) cl"
  shows "if \<exists>t \<in> set (concat (map snd ups)). message_digest t = d
    then \<exists>t \<in> set (concat (map snd ups)). message_digest t = d \<and> transaction_by_digest c cl d = Ok (Some t)
    else transaction_by_digest c cl d = Ok None"
proof -
  let ?T = "set (concat (map snd ups))"
  note bodies = stored_published [OF assms(1-3), of d]
  from assms(4) obtain pre post where pre: "list_all (\<lambda>b. num_rows b = 0) pre"
    and answer: "if stored_bodies d (published_rows c (map fst ups)) = {} then run_sql cl (body_query d) = Ok pre
      else \<exists>body \<in> stored_bodies d (published_rows c (map fst ups)).
        run_sql cl (body_query d) = Ok (pre @ Utf8Array [Some body] # post)"
    unfolding sql_serves_def by meson
  show ?thesis
  proof (cases "\<exists>t \<in> ?T. message_digest t = d")
    case True
    with bodies have "stored_bodies d (published_rows c (map fst ups)) \<noteq> {}" by blast
    with answer obtain body where body: "body \<in> stored_bodies d (published_rows c (map fst ups))"
      "run_sql cl (body_query d) = Ok (pre @ Utf8Array [Some body] # post)" by auto
    from body(1) [unfolded bodies] obtain t where "body = hex_lower (signed_transaction_write c t)"
      "t \<in> ?T" "message_digest t = d" by blast
    with body(2) have t: "t \<in> ?T" "message_digest t = d"
      "run_sql cl (body_query d) = Ok (pre @ Utf8Array [Some (hex_lower (signed_transaction_write c t))] # post)"
      by simp_all
    from t(1) assms(3) have wf: "signed_transaction_wf c t"
      using indexable_sender(2) [OF assms(1)] by fastforce
    have "transaction_bytes c cl d = Ok (Some (signed_transaction_write c t))"
      unfolding transaction_bytes_def t(3) map_err_Ok bind_res.simps first_row_skip [OF pre]
      by (rule first_row_body [OF assms(1) wf t(2)])
    moreover have "signed_transaction_read c (signed_transaction_write c t) = Ok (t, [])"
      using wf by (simp add: signed_transaction_read_Ok [OF assms(1)])
    ultimately have "transaction_by_digest c cl d = Ok (Some t)"
      by (simp add: transaction_by_digest_def codec_from_bytes_def)
    with t True show ?thesis by auto
  next
    case False
    with bodies have "stored_bodies d (published_rows c (map fst ups)) = {}" by blast
    with answer have "run_sql cl (body_query d) = Ok (pre @ [])" by simp
    with False show ?thesis
      by (simp add: transaction_by_digest_def transaction_bytes_def first_row_skip [OF pre] del: append_Nil2)
  qed
qed

lemma demo_client_serves: "sql_serves (published_rows demo_block_env [demo_upload]) demo_client"
proof -
  let ?t = "demo_signed 7 8 50 0"
  have ok: "\<forall>(u, ts) \<in> set [(demo_upload, [?t])]. indexable demo_block_env [] (qu_block u) ts \<and> is_ok (upload_transaction_end u)"
    using demo_indexable demo_upload_end by (simp add: demo_upload_def)
  have "stored_bodies d (published_rows demo_block_env [demo_upload]) =
      (if d = message_digest ?t then {hex_lower (signed_transaction_write demo_block_env ?t)} else {})" for d
    using stored_published [OF _ digest32_demo ok, of d] by auto
  then show ?thesis
    unfolding sql_serves_def
    by (auto simp: demo_client_sql intro: exI [of _ "[]"] exI [of _ "[OtherArray 0]"])
qed

theorem transaction_reads_back_witness:
  "transaction_by_digest demo_block_env demo_client (message_digest (demo_signed 7 8 50 0)) = Ok (Some (demo_signed 7 8 50 0))"
proof -
  have "\<forall>(u, ts) \<in> set [(demo_upload, [demo_signed 7 8 50 0])].
      indexable demo_block_env [] (qu_block u) ts \<and> is_ok (upload_transaction_end u)"
    using demo_indexable demo_upload_end by (simp add: demo_upload_def)
  from transaction_reads_back [OF _ digest32_demo this, of demo_client "message_digest (demo_signed 7 8 50 0)"]
  show ?thesis using demo_client_serves by simp
qed

text \<open>C33: Finalized blocks are found by height: when the Simplex client answers over what the reporter
  uploaded, a block that was reported together with its one finalization is read back by its height and
  by its digest, with its seal and, transaction by transaction, its body.\<close>

theorem finalized_block_reads_back:
  assumes "block_env_ok c" "cert_lib_ok lib" "list_all (input_ok c) ins"
    and "b = block_seal c (block_new h ts)" "list_all (signed_transaction_wf c) ts" "length ts < 2 ^ 32"
    and "InBlock b \<in> set ins" "finalizations_for lib (seal b) ins = [f]"
    and "\<forall>b'. InBlock b' \<in> set ins \<longrightarrow> h_height (b_header (sealed_inner b')) = h_height h \<or> seal b' = seal b \<longrightarrow> b' = b"
    and "run_uploader c lib ins uploader_new = Some s" "simplex_serves (up_uploads s) cl"
  shows "block_by_height c lib cl (h_height h) block_cfg_default =
      Ok (Some (sealed_new_unchecked \<lparr>b_header = h, b_body = deferred_body c ts\<rparr> (seal b))) \<and>
    block_by_digest c cl (seal b) block_cfg_default =
      Ok (Some (sealed_new_unchecked \<lparr>b_header = h, b_body = deferred_body c ts\<rparr> (seal b)))"
proof -
  have bh: "h_height (b_header (sealed_inner b)) = h_height h"
    by (simp add: assms(4) block_seal_def sealed_new_unchecked_def block_new_def)
  have "digest_by_height lib cl (h_height (b_header (sealed_inner b))) = Ok (Some (seal b))"
    by (rule served_digest [OF assms(2,3,7,8) _ assms(10,11)]) (use assms(9) bh in simp)
  then have by_height: "digest_by_height lib cl (h_height h) = Ok (Some (seal b))" by (simp only: bh)
  have "max_transactions block_cfg_default = (0, usize_max)" "length ts \<le> usize_max"
    using assms(6) by (simp_all add: block_cfg_default_def usize_max_def)
  from simplex_parts_round_trip [OF assms(1,5) this(1) _ this(2) assms(6), of h] obtain p body where
    parts: "encode_simplex_block_parts c b = Some (p, body)"
      "decode_simplex_block_parts c p body block_cfg_default =
        Ok (sealed_new_unchecked \<lparr>b_header = h, b_body = deferred_body c ts\<rparr> (seal b))"
    unfolding assms(4) by auto
  have "get_block cl (seal b) = Ok (Some (p, body))"
    by (rule served_block [OF run_uploader_origins [OF assms(2,10)] assms(11,7) parts(1)]) (use assms(9) in blast)
  then have "block_by_digest c cl (seal b) block_cfg_default =
      Ok (Some (sealed_new_unchecked \<lparr>b_header = h, b_body = deferred_body c ts\<rparr> (seal b)))"
    by (simp add: block_by_digest_def parts(2))
  with by_height show ?thesis by (simp add: block_by_height_def)
qed

lemma demo_parts: "\<exists>p body. encode_simplex_block_parts demo_block_env demo_certified = Some (p, body)"
  using block_upload_ok [of demo_block_env "InBlock demo_certified"]
  by (auto simp: demo_certified_def block_seal_def sealed_new_unchecked_def block_new_def lazy_wf_constructors
      demo_signed_wf_block)

theorem finalized_block_reads_back_witness:
  "\<exists>s x. run_uploader demo_block_env demo_cert_lib [InFinalization demo_finalization, InBlock demo_certified]
      uploader_new = Some s \<and>
    block_by_height demo_block_env demo_cert_lib demo_client 4 block_cfg_default = Ok (Some x) \<and> seal x = seal demo_certified"
proof -
  let ?ins = "[InFinalization demo_finalization, InBlock demo_certified]"
  have wf: "list_all (input_ok demo_block_env) ?ins"
    by (simp add: demo_certified_def block_seal_def sealed_new_unchecked_def block_new_def lazy_wf_constructors
        demo_signed_wf_block)
  have fin: "finalizations_for demo_cert_lib (seal demo_certified) ?ins = [demo_finalization]"
    by (simp add: finalizations_for_def demo_cert_lib_def demo_finalization_def)
  obtain p body where parts: "encode_simplex_block_parts demo_block_env demo_certified = Some (p, body)"
    using demo_parts by blast
  have key: "commitment_block demo_cert_lib (cert_payload demo_finalization) = seal demo_certified"
    by (simp add: demo_cert_lib_def demo_finalization_def)
  define s where "s = \<lparr>up_pending = (\<lambda>_. None), up_uploads = [UpBlock p body,
      UpFinalized demo_finalization (certified_header_new (cert_payload demo_finalization) demo_certified)]\<rparr>"
  have run: "run_uploader demo_block_env demo_cert_lib ?ins uploader_new = Some s"
    using parts key
    by (simp add: uploader_step_eq [OF cert_lib_ok_demo] noted_def settled_def pending_default_def uploader_new_def
        ready_uploads_def s_def fun_eq_iff)
  have "simplex_serves (up_uploads s) demo_client"
    using parts parts_seal [OF parts]
    by (auto simp: simplex_serves_def s_def demo_client_def certified_height_def certified_header_new_def
        sealed_new_unchecked_def demo_certified_def block_seal_def block_new_def demo_header_def)
  from finalized_block_reads_back [OF block_env_ok_demo cert_lib_ok_demo wf demo_certified_def _ _ _ fin _ run this]
  have "block_by_height demo_block_env demo_cert_lib demo_client (h_height (demo_header 4 1000)) block_cfg_default =
      Ok (Some (sealed_new_unchecked \<lparr>b_header = demo_header 4 1000, b_body = deferred_body demo_block_env [demo_signed 7 8 50 0]\<rparr>
        (seal demo_certified)))"
    by (simp add: demo_signed_wf_block)
  then show ?thesis using run by (simp add: demo_header_def sealed_new_unchecked_def)
qed

end
