(* ===== verification/Clusters.thy ===== *)
theory Clusters
  imports Services Reader
begin

text \<open>
  Generated clusters start: the configurations that \<open>Deploy\<close> writes, read back by the loaders of \<open>Config\<close>. The
  lemmas go from the key material over one node's configuration to the whole local or remote cluster.
\<close>

section \<open>Key material\<close>

definition key_ok :: "('o, 's, 'x) config_lib_scheme \<Rightarrow> bytes \<Rightarrow> bool" where
  "key_ok lib sk \<longleftrightarrow> sk_read lib sk = Some sk \<and> key_read lib (sk_public lib sk) = Some (sk_public lib sk)"

text \<open>What is relied on of the DKG: dealing to distinct participants succeeds, the output decodes for their number,
  and every participant gets a share that decodes.\<close>

definition deal_ok :: "('o, 's) deploy_lib \<Rightarrow> bool" where
  "deal_ok lib \<longleftrightarrow>
    (\<forall>rng pks. pks \<noteq> [] \<and> distinct pks \<and> length pks < 2 ^ 32 \<longrightarrow>
      (\<exists>out shares. deal lib rng pks = Some (out, shares) \<and> fst ` set shares = set pks \<and>
        output_read lib (word_of_nat (length pks)) (output_encode lib out) = Some out \<and>
        (\<forall>(k, sh) \<in> set shares. share_encode lib sh \<noteq> [] \<and> share_read lib (share_encode lib sh) = Some sh)))"

definition share_ok :: "('o, 's, 'x) config_lib_scheme \<Rightarrow> 's \<Rightarrow> bool" where
  "share_ok lib sh \<longleftrightarrow> share_encode lib sh \<noteq> [] \<and> share_read lib (share_encode lib sh) = Some sh"

definition cluster_ok :: "('o, 's, 'x) config_lib_scheme \<Rightarrow> ('o, 's) cluster_material \<Rightarrow> bool" where
  "cluster_ok lib m \<longleftrightarrow>
    cm_public_keys m \<noteq> [] \<and> length (cm_public_keys m) < 2 ^ 32 \<and>
    cm_public_keys m = map (sk_public lib) (cm_signers m) \<and>
    cm_secondary_public_keys m = map (sk_public lib) (cm_secondary_signers m) \<and>
    distinct (cm_public_keys m @ cm_secondary_public_keys m) \<and>
    (\<forall>sk \<in> set (cm_signers m @ cm_secondary_signers m). key_ok lib sk) \<and>
    (\<forall>pk \<in> set (cm_public_keys m). \<exists>sh. cm_shares m pk = Some sh \<and> share_ok lib sh) \<and>
    output_read lib (word_of_nat (length (cm_public_keys m))) (output_encode lib (cm_dkg_output m)) = Some (cm_dkg_output m) \<and>
    cm_genesis_leader m = to_hex lib (hd (cm_public_keys m))"

lemma collect_map_mem: "k \<in> fst ` set xs \<Longrightarrow> \<exists>v. collect_map xs k = Some v \<and> (k, v) \<in> set xs"
  unfolding collect_map_def by (metis image_set map_of_SomeD map_of_eq_None_iff not_Some_eq rev_map set_rev)

lemma build_cluster_ok:
  assumes "deal_ok lib" "signers \<noteq> []" "length signers < 2 ^ 32"
    and "distinct (map (sk_public lib) (signers @ secondaries))" "\<forall>sk \<in> set (signers @ secondaries). key_ok lib sk"
  shows "\<exists>m. build_cluster_material lib signers secondaries rng = Some m \<and> cluster_ok lib m \<and>
    cm_signers m = signers \<and> cm_secondary_signers m = secondaries"
proof -
  let ?pks = "map (sk_public lib) signers"
  have pks: "?pks \<noteq> []" "distinct ?pks" "length ?pks < 2 ^ 32" using assms(2-4) by simp_all
  with assms(1) obtain out shares where d: "deal lib rng ?pks = Some (out, shares)" "fst ` set shares = set ?pks"
    "output_read lib (word_of_nat (length ?pks)) (output_encode lib out) = Some out"
    "\<forall>(k, sh) \<in> set shares. share_encode lib sh \<noteq> [] \<and> share_read lib (share_encode lib sh) = Some sh"
    unfolding deal_ok_def by blast
  have "\<exists>sh. collect_map shares pk = Some sh \<and> share_ok lib sh" if "pk \<in> set ?pks" for pk
    using collect_map_mem [of pk shares] that d(2,4) by (auto simp: share_ok_def)
  with assms d(1,3) pks show ?thesis
    by (auto simp: build_cluster_material_def Let_def cluster_ok_def)
qed

section \<open>One node\<close>

text \<open>What the configurations of all nodes of a cluster share.\<close>

definition node_config :: "('o, 's, 'x) config_lib_scheme \<Rightarrow> ('o, 's) cluster_material \<Rightarrow> bytes \<Rightarrow> validator_config \<Rightarrow> bool" where
  "node_config lib m sk v \<longleftrightarrow>
    vc_private_key v = to_hex lib sk \<and> vc_dkg_output v = to_hex lib (output_encode lib (cm_dkg_output m)) \<and>
    vc_genesis_leader v = cm_genesis_leader m \<and> vc_num_validators v = word_of_nat (length (cm_public_keys m)) \<and>
    vc_primary_validators v = primary_hex lib m \<and> vc_secondary_validators v = secondary_hex lib m \<and>
    vc_bootstrappers v = default_bootstrappers lib (cm_public_keys m)"

definition bootstrap_keys :: "('o, 's) cluster_material \<Rightarrow> bytes list" where
  "bootstrap_keys m = take (min default_bootstrapper_count (length (cm_public_keys m))) (cm_public_keys m)"

lemma cluster_facts:
  assumes "cluster_ok lib m"
  shows "cm_public_keys m \<noteq> []" "length (cm_public_keys m) < 2 ^ 32"
    and "cm_public_keys m = map (sk_public lib) (cm_signers m)"
    and "cm_secondary_public_keys m = map (sk_public lib) (cm_secondary_signers m)"
    and "distinct (cm_public_keys m @ cm_secondary_public_keys m)"
    and "output_read lib (word_of_nat (length (cm_public_keys m))) (output_encode lib (cm_dkg_output m)) = Some (cm_dkg_output m)"
    and "cm_genesis_leader m = to_hex lib (hd (cm_public_keys m))"
    and "pk \<in> set (cm_public_keys m) \<Longrightarrow> \<exists>sh. cm_shares m pk = Some sh \<and> share_ok lib sh"
  using assms unfolding cluster_ok_def by blast+

lemma cluster_keys:
  assumes "cluster_ok lib m"
  shows "pk \<in> set (cm_public_keys m) \<union> set (cm_secondary_public_keys m) \<Longrightarrow> key_read lib pk = Some pk"
    and "sk \<in> set (cm_signers m) \<union> set (cm_secondary_signers m) \<Longrightarrow>
      sk_read lib sk = Some sk \<and> sk_public lib sk \<in> set (cm_public_keys m) \<union> set (cm_secondary_public_keys m)"
  using assms by (auto simp: cluster_ok_def key_ok_def)

lemma node_participants:
  assumes "config_lib_ok lib" "cluster_ok lib m" "node_config lib m sk v"
    and "sk \<in> set (cm_signers m) \<union> set (cm_secondary_signers m)"
  shows "decode_private_key lib (vc_private_key v) = Ok sk"
    and "decode_participants lib (vc_primary_validators v) (vc_secondary_validators v) (sk_public lib sk) =
      Ok (cm_public_keys m, cm_secondary_public_keys m)"
  using assms(3) cluster_keys [OF assms(2)] assms(4)
  by (auto simp: node_config_def primary_hex_def secondary_hex_def decode_private_key_hex [OF assms(1)]
      intro!: decode_participants_hex [OF assms(1)])

lemma node_bootstrappers:
  assumes "config_lib_ok lib" "cluster_ok lib m" "node_config lib m sk v"
    and "\<And>pk. pk \<in> set (cm_public_keys m) \<Longrightarrow> f \<lparr>nb_public_key = to_hex lib pk, nb_name = to_hex lib pk\<rparr> = Ok (pk, addr pk)"
  shows "traverse f (vc_bootstrappers v) = Ok (map (\<lambda>pk. (pk, addr pk)) (bootstrap_keys m))"
proof -
  have "traverse f (map (\<lambda>pk. \<lparr>nb_public_key = to_hex lib pk, nb_name = to_hex lib pk\<rparr>) pks) =
      Ok (map (\<lambda>pk. (pk, addr pk)) pks)" if "set pks \<subseteq> set (cm_public_keys m)" for pks
    using that assms(4) by (induction pks) simp_all
  from this [OF set_take_subset] show ?thesis
    using assms(3) by (simp add: node_config_def default_bootstrappers_def bootstrap_keys_def Let_def)
qed

lemma node_decoded:
  assumes "config_lib_ok lib" "cluster_ok lib m" "node_config lib m sk v"
    and "sk \<in> set (cm_signers m) \<union> set (cm_secondary_signers m)"
    and "decode_share_opt lib (vc_dkg_share v) = Ok share" "vc_relayer v = None \<or> share = None \<and> vc_indexer v = None"
  shows "\<exists>l. decode_with_network lib v listen (cm_public_keys m) (cm_secondary_public_keys m) bs json = Ok l \<and>
    dc_signer (ld_decoded l) = sk \<and> dc_public_key (ld_decoded l) = sk_public lib sk \<and>
    dc_dkg_output (ld_decoded l) = cm_dkg_output m \<and> dc_share (ld_decoded l) = share \<and>
    dc_genesis_leader (ld_decoded l) = hd (cm_public_keys m) \<and>
    dc_primary_participants (ld_decoded l) = cm_public_keys m \<and>
    dc_secondary_participants (ld_decoded l) = cm_secondary_public_keys m \<and>
    dc_listen_bind (ld_decoded l) = \<lparr>sa_ip = IpV4 0 0 0 0, sa_port = vc_listen_port v\<rparr> \<and>
    dc_listen_advertise (ld_decoded l) = listen \<and> dc_bootstrappers (ld_decoded l) = bs \<and>
    ld_http_listen l = \<lparr>sa_ip = IpV4 0 0 0 0, sa_port = vc_http_port v\<rparr> \<and>
    ld_indexer l = vc_indexer v \<and> ld_relayer l = vc_relayer v"
proof -
  have n: "(word_of_nat (length (cm_public_keys m)) :: u32) \<noteq> 0"
  proof -
    have "0 < length (cm_public_keys m)" "length (cm_public_keys m) < 4294967296"
      using cluster_facts(1,2) [OF assms(2)] by simp_all
    then have "\<not> 4294967296 dvd length (cm_public_keys m)" by (intro nat_dvd_not_less)
    then show ?thesis by (simp add: word_of_nat_eq_0_iff)
  qed
  have "decode_dkg_output lib (vc_dkg_output v) (vc_num_validators v) = Ok (cm_dkg_output m)"
    using assms(3) decode_dkg_output_hex [OF assms(1) n cluster_facts(6) [OF assms(2)]] by (simp add: node_config_def)
  note eq = decode_with_network_eq [OF node_participants(1) [OF assms(1-4)] this assms(5)]
  have "hd (cm_public_keys m) \<in> set (cm_public_keys m)" using cluster_facts(1) [OF assms(2)] by simp
  then have "decode_public_key lib ''genesis_leader'' (vc_genesis_leader v) = Ok (hd (cm_public_keys m))"
    using assms(3) cluster_keys(1) [OF assms(2)]
    by (auto simp: node_config_def cluster_facts(7) [OF assms(2)] intro!: decode_public_key_hex [OF assms(1)])
  then show ?thesis using assms(6) by (auto simp: eq)
qed

section \<open>Local clusters\<close>

definition loopback :: "u16 \<Rightarrow> socket_addr" where
  "loopback port = \<lparr>sa_ip = IpV4 127 0 0 1, sa_port = port\<rparr>"

definition any_interface :: "u16 \<Rightarrow> socket_addr" where
  "any_interface port = \<lparr>sa_ip = IpV4 0 0 0 0, sa_port = port\<rparr>"

text \<open>The port of the node with a given index: the primaries, then the secondaries.\<close>

definition node_port :: "u16 \<Rightarrow> nat \<Rightarrow> u16" where
  "node_port base_port index = base_port + word_of_nat index"

lemma checked_port: "unat b + i < 65536 \<Longrightarrow> checked_add b (word_of_nat i :: u16) = Some (node_port b i)"
  by (simp add: checked_add_def node_port_def unat_of_nat take_bit_nat_eq_self)

lemma parse_loopback_socket: "parse_socket lib name (''127.0.0.1:'' @ show_port p) = Ok (loopback p)"
  using parse_loopback [of p] by (simp add: parse_socket_def loopback_def)

lemma load_local_node:
  assumes "config_lib_ok lib" "cluster_ok lib m" "node_config lib m sk v"
    and "sk \<in> set (cm_signers m) \<union> set (cm_secondary_signers m)"
    and "\<And>pk. pk \<in> set (cm_public_keys m) \<union> set (cm_secondary_public_keys m) \<Longrightarrow>
      collect_map (map (\<lambda>p. (pe_name p, p)) (pf_validators peers @ pf_secondaries peers)) (to_hex lib pk) =
        Some (local_peer (to_hex lib pk) (listen pk) (http pk))"
  shows "load_local_config lib peers v =
    decode_with_network lib v (loopback (listen (sk_public lib sk))) (cm_public_keys m) (cm_secondary_public_keys m)
      (map (\<lambda>pk. (pk, loopback (listen pk))) (bootstrap_keys m)) False"
proof -
  define P where "P = collect_map (map (\<lambda>p. (pe_name p, p)) (pf_validators peers @ pf_secondaries peers))"
  note P = assms(5) [folded P_def]
  let ?boot = "\<lambda>b. bind_res (decode_public_key lib ''bootstrapper public_key'' (nb_public_key b)) (\<lambda>public_key.
      bind_res (ok_or (P (nb_name b)) (MissingBootstrapper (nb_name b))) (\<lambda>peer.
      bind_res (parse_socket lib ''bootstrapper p2p'' (pe_p2p peer)) (\<lambda>address. Ok (public_key, address))))"
  have boots: "traverse ?boot (vc_bootstrappers v) = Ok (map (\<lambda>pk. (pk, loopback (listen pk))) (bootstrap_keys m))"
    by (rule node_bootstrappers [OF assms(1-3)])
      (simp add: P local_peer_def parse_loopback_socket [unfolded append.simps] decode_public_key_hex [OF assms(1)]
        cluster_keys(1) [OF assms(2)])
  have self: "P (to_hex lib (sk_public lib sk)) =
      Some (local_peer (to_hex lib (sk_public lib sk)) (listen (sk_public lib sk)) (http (sk_public lib sk)))"
    by (rule P) (use cluster_keys(2) [OF assms(2,4)] in blast)
  show ?thesis
    unfolding load_local_config_def Let_def node_participants [OF assms(1-4)] bind_res.simps prod.case P_def [symmetric] self
      ok_or_simps local_peer_def peer_entry.simps parse_loopback_socket boots ..
qed

lemma collect_opt_ex:
  assumes "\<forall>x \<in> set xs. \<exists>y. f x = Some y \<and> P x y"
  shows "\<exists>ys. collect_opt (map f xs) = Some ys \<and> list_all2 P xs ys"
  using assms
proof (induction xs)
  case (Cons x xs)
  then obtain y ys where "f x = Some y" "P x y" "collect_opt (map f xs) = Some ys" "list_all2 P xs ys" by auto
  then show ?case by auto
qed simp

text \<open>The configuration of the primary with a given index.\<close>

definition local_primary ::
    "('o, 's, 'x) config_lib_scheme \<Rightarrow> local_args \<Rightarrow> ('o, 's) cluster_material \<Rightarrow> nat \<Rightarrow> generated_local \<Rightarrow> bool" where
  "local_primary lib local m i g \<longleftrightarrow>
    (let v = parsed_config (gl_config g); pk = cm_public_keys m ! i in
     node_config lib m (cm_signers m ! i) v \<and>
     (\<exists>sh. cm_shares m pk = Some sh \<and> decode_share_opt lib (vc_dkg_share v) = Ok (Some sh)) \<and>
     vc_indexer v = None \<and> vc_relayer v = None \<and>
     vc_listen_port v = node_port (la_base_port local) i \<and> vc_http_port v = node_port (la_base_http_port local) i \<and>
     gl_peer g = local_peer (to_hex lib pk) (node_port (la_base_port local) i) (node_port (la_base_http_port local) i))"

definition ports_fit :: "local_args \<Rightarrow> nat \<Rightarrow> bool" where
  "ports_fit local n \<longleftrightarrow>
    unat (la_base_port local) + n \<le> 65536 \<and> unat (la_base_http_port local) + n \<le> 65536 \<and>
    unat (la_base_metrics_port local) + n \<le> 65536"

lemma local_validator_built:
  assumes "config_lib_ok lib" "cluster_ok lib m" "i < length (cm_public_keys m)" "ports_fit local n" "i < n"
    and "ga_validators args = word_of_nat (length (cm_public_keys m))"
  shows "\<exists>g. local_validator lib args local dir m i = Some g \<and> local_primary lib local m i g"
proof -
  obtain sh where sh: "cm_shares m (cm_public_keys m ! i) = Some sh" "share_ok lib sh"
    using cluster_facts(8) [OF assms(2), of "cm_public_keys m ! i"] assms(3) by auto
  have ports: "checked_add b (word_of_nat i :: u16) = Some (node_port b i)"
    if "b = la_base_port local \<or> b = la_base_http_port local \<or> b = la_base_metrics_port local" for b
    using that assms(4,5) by (intro checked_port) (auto simp: ports_fit_def)
  have len: "i < length (cm_signers m)" using assms(3) arg_cong [OF cluster_facts(3) [OF assms(2)], of length] by simp
  show ?thesis
    using sh len assms(3,6) decode_share_hex [OF assms(1), of sh]
    by (simp add: local_validator_def nth_opt_def ports local_primary_def parsed_config_def node_config_def share_ok_def)
qed

definition leader_list :: "('o, 's, 'x) config_lib_scheme \<Rightarrow> ('o, 's) cluster_material \<Rightarrow> (nat \<Rightarrow> string) \<Rightarrow> leader_config list" where
  "leader_list lib m url =
    map (\<lambda>i. \<lparr>lc_public_key = to_hex lib (cm_public_keys m ! i), lc_url = url i\<rparr>) [0..<length (cm_public_keys m)]"

lemma enumerate_eq_map: "enumerate 0 xs = map (\<lambda>i. (i, xs ! i)) [0..<length xs]"
  by (rule nth_equalityI) (simp_all add: nth_enumerate_eq)

lemma local_relayer_config_eq:
  assumes "ports_fit local n" "length (cm_public_keys m) \<le> n"
  shows "local_relayer_config lib local m =
    Some \<lparr>dr_leaders = leader_list lib m (\<lambda>i. local_url (node_port (la_base_http_port local) i))\<rparr>"
proof -
  have "checked_add (la_base_http_port local) (word_of_nat i) = Some (node_port (la_base_http_port local) i)"
    if "i < length (cm_public_keys m)" for i
    using that assms by (intro checked_port) (auto simp: ports_fit_def)
  then have "map (\<lambda>(index, public_key). map_option (\<lambda>port. \<lparr>lc_public_key = public_key, lc_url = local_url port\<rparr>)
        (checked_add (la_base_http_port local) (word_of_nat index))) (enumerate 0 (primary_hex lib m)) =
      map Some (leader_list lib m (\<lambda>i. local_url (node_port (la_base_http_port local) i)))"
    by (simp add: enumerate_eq_map leader_list_def primary_hex_def)
  then show ?thesis by (simp add: local_relayer_config_def collect_opt_Some_iff)
qed

text \<open>The configuration of the secondary with a given index and role; \<open>n\<close> primaries come before it.\<close>

definition local_secondary_node ::
    "('o, 's, 'x) config_lib_scheme \<Rightarrow> local_args \<Rightarrow> ('o, 's) cluster_material \<Rightarrow> nat \<times> secondary_role \<Rightarrow> generated_local \<Rightarrow> bool" where
  "local_secondary_node lib local m = (\<lambda>(i, role) g.
    let v = parsed_config (gl_config g); pk = cm_secondary_public_keys m ! i; n = length (cm_public_keys m) in
    node_config lib m (cm_secondary_signers m ! i) v \<and> vc_dkg_share v = [] \<and>
    vc_indexer v = (if role = IndexerRole then Some (local_indexer_config (la_chain_indexer_port local)) else None) \<and>
    vc_relayer v =
      (if role = RelayerRole
       then Some \<lparr>max_retry_views = default_relayer_retry_views,
         rc_leaders = leader_list lib m (\<lambda>i. local_url (node_port (la_base_http_port local) i))\<rparr>
       else None) \<and>
    vc_listen_port v = node_port (la_base_port local) (n + i) \<and> vc_http_port v = node_port (la_base_http_port local) (n + i) \<and>
    gl_peer g =
      local_peer (to_hex lib pk) (node_port (la_base_port local) (n + i)) (node_port (la_base_http_port local) (n + i)))"

lemma secondary_offset:
  assumes "n + i < 65536" "validators = word_of_nat n"
  shows "checked_add (ucast (validators :: u32) :: u16) (word_of_nat i) = Some (word_of_nat (n + i))"
proof -
  have n: "unat validators = n" using assms by (simp add: unat_of_nat take_bit_nat_eq_self)
  have "(ucast validators :: u16) = word_of_nat n" unfolding n [symmetric] by (simp only: of_nat_unat)
  then show ?thesis
    using assms(1) by (simp add: checked_add_def unat_of_nat take_bit_nat_eq_self)
qed

lemma local_secondary_built:
  assumes "cluster_ok lib m" "i < length (cm_secondary_public_keys m)" "ports_fit local (length (cm_public_keys m) + k)" "i < k"
    and "ga_validators args = word_of_nat (length (cm_public_keys m))"
  shows "\<exists>g. local_secondary lib args local dir m (i, role) = Some g \<and> local_secondary_node lib local m (i, role) g"
proof -
  let ?n = "length (cm_public_keys m)"
  have "?n + i < 65536" using assms(3,4) by (simp add: ports_fit_def)
  note offset = secondary_offset [OF this assms(5)]
  have ports: "checked_add b (word_of_nat (?n + i) :: u16) = Some (node_port b (?n + i))"
    if "b = la_base_port local \<or> b = la_base_http_port local \<or> b = la_base_metrics_port local" for b
    using that assms(3,4) by (intro checked_port) (auto simp: ports_fit_def)
  have len: "i < length (cm_secondary_signers m)"
    using assms(2) arg_cong [OF cluster_facts(4) [OF assms(1)], of length] by simp
  have relayer: "local_relayer_config lib local m =
      Some \<lparr>dr_leaders = leader_list lib m (\<lambda>i. local_url (node_port (la_base_http_port local) i))\<rparr>"
    by (rule local_relayer_config_eq [OF assms(3)]) simp
  show ?thesis
    unfolding local_secondary_def prod.case offset bind.bind_lunit ports [OF disjI1 [OF refl]]
      ports [OF disjI2 [OF disjI1 [OF refl]]] ports [OF disjI2 [OF disjI2 [OF refl]]] relayer nth_opt_def
    using len assms(2,5)
    by (simp add: local_secondary_node_def parsed_config_def node_config_def)
qed

definition cluster_keys_of :: "('o, 's) cluster_material \<Rightarrow> bytes list" where
  "cluster_keys_of m = cm_public_keys m @ cm_secondary_public_keys m"

definition key_index :: "('o, 's) cluster_material \<Rightarrow> bytes \<Rightarrow> nat" where
  "key_index m pk = length (takeWhile (\<lambda>k. k \<noteq> pk) (cluster_keys_of m))"

lemma length_takeWhile_nth: "distinct xs \<Longrightarrow> j < length xs \<Longrightarrow> length (takeWhile (\<lambda>x. x \<noteq> xs ! j) xs) = j"
proof (induction xs arbitrary: j)
  case (Cons x xs)
  then show ?case by (cases j) (auto simp: in_set_conv_nth)
qed simp

lemma key_index_nth:
  assumes "cluster_ok lib m" "j < length (cluster_keys_of m)"
  shows "key_index m (cluster_keys_of m ! j) = j"
  unfolding key_index_def using cluster_facts(5) [OF assms(1)] assms(2)
  by (intro length_takeWhile_nth) (simp_all add: cluster_keys_of_def)

lemma local_peers:
  assumes "list_all2 (local_primary lib local m) [0..<length (cm_public_keys m)] vs"
    and "list_all2 (local_secondary_node lib local m) (enumerate 0 roles) ss"
    and "length roles = length (cm_secondary_public_keys m)"
  shows "map gl_peer (vs @ ss) =
    map (\<lambda>j. local_peer (to_hex lib (cluster_keys_of m ! j)) (node_port (la_base_port local) j) (node_port (la_base_http_port local) j))
      [0..<length (cluster_keys_of m)]" (is "?l = ?r")
proof (rule nth_equalityI)
  have len: "length vs = length (cm_public_keys m)" "length ss = length roles"
    using list_all2_lengthD [OF assms(1)] list_all2_lengthD [OF assms(2)] by simp_all
  then show "length ?l = length ?r" using assms(3) by (simp add: cluster_keys_of_def)
  fix j assume "j < length ?l"
  then have j: "j < length vs + length ss" by simp
  show "?l ! j = ?r ! j"
  proof (cases "j < length vs")
    case True
    then have "local_primary lib local m j (vs ! j)" using list_all2_nthD [OF assms(1), of j] len(1) by simp
    with True len show ?thesis by (simp add: nth_append local_primary_def Let_def cluster_keys_of_def)
  next
    case False
    let ?i = "j - length vs"
    have i: "?i < length ss" using j False by linarith
    then have "local_secondary_node lib local m (?i, roles ! ?i) (ss ! ?i)"
      using list_all2_nthD2 [OF assms(2), of ?i] len(2) by (simp add: nth_enumerate_eq)
    with False j len assms(3) show ?thesis
      by (simp add: nth_append local_secondary_node_def Let_def cluster_keys_of_def)
  qed
qed

lemma local_peer_lookup:
  assumes "config_lib_ok lib" "cluster_ok lib m" "pk \<in> set (cm_public_keys m) \<union> set (cm_secondary_public_keys m)"
    and "peers = map (\<lambda>j. local_peer (to_hex lib (cluster_keys_of m ! j)) (p j) (h j)) [0..<length (cluster_keys_of m)]"
  shows "collect_map (map (\<lambda>p. (pe_name p, p)) peers) (to_hex lib pk) =
    Some (local_peer (to_hex lib pk) (p (key_index m pk)) (h (key_index m pk)))"
proof (rule collect_map_distinct)
  have names: "map fst (map (\<lambda>p. (pe_name p, p)) peers) = map (to_hex lib) (cluster_keys_of m)"
    by (rule nth_equalityI) (simp_all add: assms(4) local_peer_def)
  have "inj_on (to_hex lib) (set (cluster_keys_of m))" using config_hex_inj [OF assms(1)] by (auto simp: inj_on_def)
  then show "distinct (map fst (map (\<lambda>p. (pe_name p, p)) peers))"
    unfolding names distinct_map using cluster_facts(5) [OF assms(2)] by (simp add: cluster_keys_of_def)
  obtain j where j: "j < length (cluster_keys_of m)" "cluster_keys_of m ! j = pk"
    using assms(3) by (metis cluster_keys_of_def in_set_conv_nth set_append)
  from key_index_nth [OF assms(2) j(1)] j
  show "(to_hex lib pk, local_peer (to_hex lib pk) (p (key_index m pk)) (h (key_index m pk)))
      \<in> set (map (\<lambda>p. (pe_name p, p)) peers)"
    by (force simp: assms(4) local_peer_def)
qed

text \<open>The identity of a node and its view of the cluster.\<close>

definition node_identity ::
    "('o, 's, 'x) config_lib_scheme \<Rightarrow> ('o, 's) cluster_material \<Rightarrow> bytes \<Rightarrow> ('o, 's) loaded_config \<Rightarrow> bool" where
  "node_identity lib m sk l \<longleftrightarrow>
    dc_signer (ld_decoded l) = sk \<and> dc_public_key (ld_decoded l) = sk_public lib sk \<and>
    dc_dkg_output (ld_decoded l) = cm_dkg_output m \<and> dc_genesis_leader (ld_decoded l) = hd (cm_public_keys m) \<and>
    dc_primary_participants (ld_decoded l) = cm_public_keys m \<and>
    dc_secondary_participants (ld_decoded l) = cm_secondary_public_keys m"

lemma bootstrap_addresses:
  assumes "cluster_ok lib m"
  shows "map (\<lambda>pk. (pk, f (key_index m pk))) (bootstrap_keys m) =
    map (\<lambda>j. (cm_public_keys m ! j, f j)) [0..<min 3 (length (cm_public_keys m))]"
proof (rule nth_equalityI)
  fix j assume "j < length (map (\<lambda>pk. (pk, f (key_index m pk))) (bootstrap_keys m))"
  then have j: "j < 3" "j < length (cm_public_keys m)" by (simp_all add: bootstrap_keys_def default_bootstrapper_count_def)
  then have "key_index m (cm_public_keys m ! j) = j"
    using key_index_nth [OF assms, of j] by (simp add: cluster_keys_of_def nth_append)
  with j show "map (\<lambda>pk. (pk, f (key_index m pk))) (bootstrap_keys m) ! j =
      map (\<lambda>j. (cm_public_keys m ! j, f j)) [0..<min 3 (length (cm_public_keys m))] ! j"
    by (simp add: bootstrap_keys_def default_bootstrapper_count_def)
qed (simp add: bootstrap_keys_def default_bootstrapper_count_def)

lemma signer_of_key:
  assumes "cluster_ok lib m"
  shows "i < length (cm_public_keys m) \<Longrightarrow>
      cm_signers m ! i \<in> set (cm_signers m) \<and> sk_public lib (cm_signers m ! i) = cm_public_keys m ! i \<and>
      key_index m (cm_public_keys m ! i) = i"
    and "i < length (cm_secondary_public_keys m) \<Longrightarrow>
      cm_secondary_signers m ! i \<in> set (cm_secondary_signers m) \<and>
      sk_public lib (cm_secondary_signers m ! i) = cm_secondary_public_keys m ! i \<and>
      key_index m (cm_secondary_public_keys m ! i) = length (cm_public_keys m) + i"
  using cluster_facts(3,4) [OF assms] key_index_nth [OF assms, of i] key_index_nth [OF assms, of "length (cm_public_keys m) + i"]
  by (auto simp: cluster_keys_of_def nth_append)

text \<open>A node of a local cluster, whose ports are those of \<open>index\<close>, has loaded its configuration.\<close>

definition local_node_loaded ::
    "('o, 's, 'x) config_lib_scheme \<Rightarrow> local_args \<Rightarrow> ('o, 's) cluster_material \<Rightarrow> bytes \<Rightarrow> nat \<Rightarrow> ('o, 's) loaded_config \<Rightarrow> bool" where
  "local_node_loaded lib local m sk index l \<longleftrightarrow>
    node_identity lib m sk l \<and>
    dc_listen_bind (ld_decoded l) = any_interface (node_port (la_base_port local) index) \<and>
    dc_listen_advertise (ld_decoded l) = loopback (node_port (la_base_port local) index) \<and>
    dc_bootstrappers (ld_decoded l) =
      map (\<lambda>j. (cm_public_keys m ! j, loopback (node_port (la_base_port local) j))) [0..<min 3 (length (cm_public_keys m))] \<and>
    ld_http_listen l = any_interface (node_port (la_base_http_port local) index)"

lemma local_node_loads:
  assumes lib: "config_lib_ok lib" and m: "cluster_ok lib m" and v: "node_config lib m sk v"
    and sk: "sk \<in> set (cm_signers m) \<union> set (cm_secondary_signers m)" and i: "key_index m (sk_public lib sk) = i"
    and peers: "pf_validators peers @ pf_secondaries peers =
      map (\<lambda>j. local_peer (to_hex lib (cluster_keys_of m ! j)) (node_port (la_base_port local) j) (node_port (la_base_http_port local) j))
        [0..<length (cluster_keys_of m)]"
    and ports: "vc_listen_port v = node_port (la_base_port local) i" "vc_http_port v = node_port (la_base_http_port local) i"
    and share: "decode_share_opt lib (vc_dkg_share v) = Ok share"
    and roles: "vc_relayer v = None \<or> share = None \<and> vc_indexer v = None"
  shows "\<exists>l. load_local_config lib peers v = Ok l \<and> local_node_loaded lib local m sk i l \<and>
    dc_share (ld_decoded l) = share \<and> ld_indexer l = vc_indexer v \<and> ld_relayer l = vc_relayer v"
proof -
  let ?boots = "map (\<lambda>j. (cm_public_keys m ! j, loopback (node_port (la_base_port local) j))) [0..<min 3 (length (cm_public_keys m))]"
  have load: "load_local_config lib peers v =
      decode_with_network lib v (loopback (node_port (la_base_port local) i)) (cm_public_keys m) (cm_secondary_public_keys m)
        ?boots False"
    using load_local_node [OF lib m v sk local_peer_lookup [OF lib m _ peers]]
    unfolding i bootstrap_addresses [OF m, of "\<lambda>j. loopback (node_port (la_base_port local) j)"] by blast
  obtain l where l: "decode_with_network lib v (loopback (node_port (la_base_port local) i)) (cm_public_keys m)
      (cm_secondary_public_keys m) ?boots False = Ok l"
    and facts: "dc_signer (ld_decoded l) = sk" "dc_public_key (ld_decoded l) = sk_public lib sk"
    "dc_dkg_output (ld_decoded l) = cm_dkg_output m" "dc_share (ld_decoded l) = share"
    "dc_genesis_leader (ld_decoded l) = hd (cm_public_keys m)"
    "dc_primary_participants (ld_decoded l) = cm_public_keys m"
    "dc_secondary_participants (ld_decoded l) = cm_secondary_public_keys m"
    "dc_listen_bind (ld_decoded l) = \<lparr>sa_ip = IpV4 0 0 0 0, sa_port = vc_listen_port v\<rparr>"
    "dc_listen_advertise (ld_decoded l) = loopback (node_port (la_base_port local) i)"
    "dc_bootstrappers (ld_decoded l) = ?boots" "ld_http_listen l = \<lparr>sa_ip = IpV4 0 0 0 0, sa_port = vc_http_port v\<rparr>"
    "ld_indexer l = vc_indexer v" "ld_relayer l = vc_relayer v"
    using node_decoded [OF lib m v sk share roles, of "loopback (node_port (la_base_port local) i)" ?boots False] by blast
  have "local_node_loaded lib local m sk i l"
    unfolding local_node_loaded_def node_identity_def any_interface_def facts ports by simp
  with load l facts(4,12,13) show ?thesis by (intro exI [of _ l]) simp
qed

section \<open>Remote clusters\<close>

text \<open>The hosts file: every instance of the deployment with the address it got.\<close>

definition hosts_file :: "(string \<Rightarrow> ip_addr) \<Rightarrow> aws_config \<Rightarrow> (string \<times> ip_addr) list" where
  "hosts_file address config = map (\<lambda>i. (ic_name i, address (ic_name i))) (aws_instances config)"

definition ip_url :: "('o, 's, 'x) config_lib_scheme \<Rightarrow> ip_addr \<Rightarrow> u16 \<Rightarrow> string" where
  "ip_url lib ip port = ''http://'' @ show_ip (show_v6 lib) ip @ '':'' @ show_port port"

lemma collect_map_graph: "collect_map (map (\<lambda>x. (f x, g (f x))) xs) k = (if k \<in> f ` set xs then Some (g k) else None)"
proof -
  have "map_of (map (\<lambda>x. (f x, g (f x))) ys) k = (if k \<in> f ` set ys then Some (g k) else None)" for ys
    by (induction ys) auto
  from this [of "rev xs"] show ?thesis by (simp add: collect_map_def rev_map)
qed

lemma hosts_lookup:
  "name \<in> ic_name ` set (aws_instances config) \<Longrightarrow> collect_map (hosts_file address config) name = Some (address name)"
  unfolding hosts_file_def collect_map_graph by simp

lemma resolve_host:
  assumes "CHR ''/'' \<notin> set name" "hosts name = Some ip"
  shows "resolve_named_http_url (show_v6 lib) (named_url name port) hosts = ip_url lib ip port"
  unfolding named_url_def resolve_named [OF assms(1)] by (simp add: assms(2) ip_url_def)

definition resolved_config ::
    "('o, 's, 'x) config_lib_scheme \<Rightarrow> (string \<rightharpoonup> ip_addr) \<Rightarrow> validator_config \<Rightarrow> validator_config" where
  "resolved_config lib hosts v =
    (let resolve = (\<lambda>url. resolve_named_http_url (show_v6 lib) url hosts) in
     v\<lparr>vc_indexer := map_option (\<lambda>i. i\<lparr>chain_indexer_url := resolve (chain_indexer_url i)\<rparr>) (vc_indexer v),
       vc_relayer := map_option
         (\<lambda>r. r\<lparr>rc_leaders := map (\<lambda>l. l\<lparr>lc_url := resolve (lc_url l)\<rparr>) (rc_leaders r)\<rparr>) (vc_relayer v)\<rparr>)"

lemma node_config_resolved [simp]: "node_config lib m sk (resolved_config lib hosts v) \<longleftrightarrow> node_config lib m sk v"
  by (simp add: node_config_def resolved_config_def Let_def)

lemma resolved_fields [simp]:
  "vc_listen_port (resolved_config lib hosts v) = vc_listen_port v"
  "vc_http_port (resolved_config lib hosts v) = vc_http_port v"
  "vc_dkg_share (resolved_config lib hosts v) = vc_dkg_share v"
  by (simp_all add: resolved_config_def Let_def)

definition remote_node_loaded ::
    "('o, 's, 'x) config_lib_scheme \<Rightarrow> remote_args \<Rightarrow> (string \<Rightarrow> ip_addr) \<Rightarrow> ('o, 's) cluster_material \<Rightarrow> bytes
      \<Rightarrow> ('o, 's) loaded_config \<Rightarrow> bool" where
  "remote_node_loaded lib remote address m sk l \<longleftrightarrow>
    node_identity lib m sk l \<and>
    dc_listen_bind (ld_decoded l) = any_interface (ra_listen_port remote) \<and>
    dc_listen_advertise (ld_decoded l) =
      \<lparr>sa_ip = address (to_hex lib (sk_public lib sk)), sa_port = ra_listen_port remote\<rparr> \<and>
    dc_bootstrappers (ld_decoded l) =
      map (\<lambda>pk. (pk, \<lparr>sa_ip = address (to_hex lib pk), sa_port = ra_listen_port remote\<rparr>)) (bootstrap_keys m) \<and>
    ld_http_listen l = any_interface (ra_http_port remote)"

lemma remote_node_loads:
  assumes lib: "config_lib_ok lib" and m: "cluster_ok lib m" and v: "node_config lib m sk v"
    and sk: "sk \<in> set (cm_signers m) \<union> set (cm_secondary_signers m)"
    and hosts: "\<And>pk. pk \<in> set (cm_public_keys m) \<union> set (cm_secondary_public_keys m) \<Longrightarrow>
      collect_map hosts (to_hex lib pk) = Some (address (to_hex lib pk))"
    and ports: "vc_listen_port v = ra_listen_port remote" "vc_http_port v = ra_http_port remote"
    and share: "decode_share_opt lib (vc_dkg_share v) = Ok share"
    and roles: "vc_relayer v = None \<or> share = None \<and> vc_indexer v = None"
  shows "\<exists>l. load_deployer_config lib hosts v = Ok l \<and> remote_node_loaded lib remote address m sk l \<and>
    dc_share (ld_decoded l) = share \<and> ld_indexer l = vc_indexer (resolved_config lib (collect_map hosts) v) \<and>
    ld_relayer l = vc_relayer (resolved_config lib (collect_map hosts) v)"
proof -
  let ?H = "collect_map hosts"
  let ?v = "resolved_config lib ?H v" and ?self = "to_hex lib (sk_public lib sk)"
  let ?listen = "\<lparr>sa_ip = address ?self, sa_port = vc_listen_port ?v\<rparr>"
  let ?boots = "map (\<lambda>pk. (pk, \<lparr>sa_ip = address (to_hex lib pk), sa_port = vc_listen_port ?v\<rparr>)) (bootstrap_keys m)"
  have v': "node_config lib m sk ?v" using v by simp
  have boots: "traverse (\<lambda>b. bind_res (decode_public_key lib ''bootstrapper public_key'' (nb_public_key b)) (\<lambda>public_key.
        bind_res (ok_or (?H (nb_name b)) (MissingBootstrapper (nb_name b))) (\<lambda>ip.
        Ok (public_key, \<lparr>sa_ip = ip, sa_port = vc_listen_port ?v\<rparr>)))) (vc_bootstrappers ?v) = Ok ?boots"
    by (rule node_bootstrappers [OF lib m v'])
      (simp add: hosts decode_public_key_hex [OF lib] cluster_keys(1) [OF m])
  have self: "?H ?self = Some (address ?self)" by (rule hosts) (use cluster_keys(2) [OF m sk] in blast)
  have load: "load_deployer_config lib hosts v = decode_with_network lib ?v ?listen (cm_public_keys m) (cm_secondary_public_keys m) ?boots True"
    unfolding load_deployer_config_def Let_def node_participants [OF lib m v sk] bind_res.simps prod.case self ok_or_simps
      resolved_config_def [unfolded Let_def, symmetric] boots ..
  obtain l where l: "decode_with_network lib ?v ?listen (cm_public_keys m) (cm_secondary_public_keys m) ?boots True = Ok l"
    and facts: "dc_signer (ld_decoded l) = sk" "dc_public_key (ld_decoded l) = sk_public lib sk"
    "dc_dkg_output (ld_decoded l) = cm_dkg_output m" "dc_share (ld_decoded l) = share"
    "dc_genesis_leader (ld_decoded l) = hd (cm_public_keys m)"
    "dc_primary_participants (ld_decoded l) = cm_public_keys m"
    "dc_secondary_participants (ld_decoded l) = cm_secondary_public_keys m"
    "dc_listen_bind (ld_decoded l) = \<lparr>sa_ip = IpV4 0 0 0 0, sa_port = vc_listen_port ?v\<rparr>"
    "dc_listen_advertise (ld_decoded l) = ?listen"
    "dc_bootstrappers (ld_decoded l) = ?boots" "ld_http_listen l = \<lparr>sa_ip = IpV4 0 0 0 0, sa_port = vc_http_port ?v\<rparr>"
    "ld_indexer l = vc_indexer ?v" "ld_relayer l = vc_relayer ?v"
    using node_decoded [OF lib m v' sk, of share ?listen ?boots True] share roles
    by (auto simp: resolved_config_def Let_def)
  have "remote_node_loaded lib remote address m sk l"
    unfolding remote_node_loaded_def node_identity_def any_interface_def facts resolved_fields ports by simp
  with load l facts(4,12,13) show ?thesis by (intro exI [of _ l]) simp
qed

definition remote_primary ::
    "('o, 's, 'x) config_lib_scheme \<Rightarrow> remote_args \<Rightarrow> ('o, 's) cluster_material \<Rightarrow> nat \<Rightarrow> generated_remote \<Rightarrow> bool" where
  "remote_primary lib remote m i g \<longleftrightarrow>
    (let v = parsed_config (gr_config g); pk = cm_public_keys m ! i in
     node_config lib m (cm_signers m ! i) v \<and>
     (\<exists>sh. cm_shares m pk = Some sh \<and> decode_share_opt lib (vc_dkg_share v) = Ok (Some sh)) \<and>
     vc_indexer v = None \<and> vc_relayer v = None \<and>
     vc_listen_port v = ra_listen_port remote \<and> vc_http_port v = ra_http_port remote \<and>
     gr_public_key_hex g = to_hex lib pk)"

definition remote_secondary_node ::
    "('o, 's, 'x) config_lib_scheme \<Rightarrow> remote_args \<Rightarrow> ('o, 's) cluster_material \<Rightarrow> nat \<times> secondary_role \<Rightarrow> generated_remote \<Rightarrow> bool" where
  "remote_secondary_node lib remote m = (\<lambda>(i, role) g.
    let v = parsed_config (gr_config g) in
    node_config lib m (cm_secondary_signers m ! i) v \<and> vc_dkg_share v = [] \<and>
    vc_indexer v = (if role = IndexerRole then Some (remote_indexer_config (ra_chain_indexer_port remote)) else None) \<and>
    vc_relayer v =
      (if role = RelayerRole
       then Some \<lparr>max_retry_views = default_relayer_retry_views,
         rc_leaders = leader_list lib m (\<lambda>i. named_url (to_hex lib (cm_public_keys m ! i)) (ra_http_port remote))\<rparr>
       else None) \<and>
    vc_listen_port v = ra_listen_port remote \<and> vc_http_port v = ra_http_port remote \<and>
    gr_public_key_hex g = to_hex lib (cm_secondary_public_keys m ! i))"

lemma remote_validator_built:
  assumes "config_lib_ok lib" "cluster_ok lib m" "i < length (cm_public_keys m)"
    and "ga_validators args = word_of_nat (length (cm_public_keys m))"
  shows "\<exists>g. remote_validator lib metrics_port args remote dir m i = Some g \<and> remote_primary lib remote m i g"
proof -
  obtain sh where sh: "cm_shares m (cm_public_keys m ! i) = Some sh" "share_ok lib sh"
    using cluster_facts(8) [OF assms(2), of "cm_public_keys m ! i"] assms(3) by auto
  have "i < length (cm_signers m)" using assms(3) arg_cong [OF cluster_facts(3) [OF assms(2)], of length] by simp
  with sh assms(3,4) decode_share_hex [OF assms(1), of sh] show ?thesis
    by (simp add: remote_validator_def nth_opt_def remote_primary_def parsed_config_def node_config_def share_ok_def Let_def)
qed

lemma remote_secondary_built:
  assumes "cluster_ok lib m" "i < length (cm_secondary_public_keys m)"
    and "ga_validators args = word_of_nat (length (cm_public_keys m))"
  shows "\<exists>g. remote_secondary lib metrics_port args remote dir m (i, role) = Some g \<and>
    remote_secondary_node lib remote m (i, role) g"
proof -
  have "i < length (cm_secondary_signers m)"
    using assms(2) arg_cong [OF cluster_facts(4) [OF assms(1)], of length] by simp
  moreover have "dr_leaders (remote_relayer_config lib remote m) =
      leader_list lib m (\<lambda>i. named_url (to_hex lib (cm_public_keys m ! i)) (ra_http_port remote))"
    by (rule nth_equalityI) (simp_all add: remote_relayer_config_def leader_list_def primary_hex_def)
  ultimately show ?thesis
    using assms(2,3)
    by (simp add: remote_secondary_def nth_opt_def remote_secondary_node_def parsed_config_def node_config_def Let_def)
qed

lemma node_names:
  "map ic_name (map (\<lambda>(i, v). node_instance remote binary (region i) (zone v) v) (enumerate 0 vs)) = map gr_public_key_hex vs"
  by (rule nth_equalityI) (simp_all add: nth_enumerate_eq node_instance_def)

lemma instance_names:
  "\<exists>rest. map ic_name (deployer_instances args remote binary vs ss) = map gr_public_key_hex vs @ map gr_public_key_hex ss @ rest"
  unfolding deployer_instances_def Let_def map_append node_names by blast

lemma deployer_names:
  assumes "list_all2 (remote_primary lib remote m) [0..<length (cm_public_keys m)] vs"
    and "list_all2 (remote_secondary_node lib remote m) (enumerate 0 roles) ss" "length roles = length (cm_secondary_public_keys m)"
  shows "pk \<in> set (cm_public_keys m) \<union> set (cm_secondary_public_keys m) \<Longrightarrow>
      to_hex lib pk \<in> ic_name ` set (deployer_instances args remote binary vs ss)"
    and "ga_indexer args \<Longrightarrow> chain_indexer_host \<in> ic_name ` set (deployer_instances args remote binary vs ss)"
proof -
  have "map gr_public_key_hex vs = primary_hex lib m"
    using assms(1) by (intro nth_equalityI)
      (auto simp: list_all2_conv_all_nth remote_primary_def Let_def primary_hex_def)
  moreover have "map gr_public_key_hex ss = secondary_hex lib m"
    using assms(2,3) by (intro nth_equalityI)
      (auto simp: list_all2_conv_all_nth remote_secondary_node_def Let_def secondary_hex_def nth_enumerate_eq)
  moreover obtain rest where "map ic_name (deployer_instances args remote binary vs ss) =
      map gr_public_key_hex vs @ map gr_public_key_hex ss @ rest" using instance_names by blast
  ultimately have "ic_name ` set (deployer_instances args remote binary vs ss) =
      set (primary_hex lib m) \<union> set (secondary_hex lib m) \<union> set rest"
    by (metis Un_assoc set_append set_map)
  then show "pk \<in> set (cm_public_keys m) \<union> set (cm_secondary_public_keys m) \<Longrightarrow>
      to_hex lib pk \<in> ic_name ` set (deployer_instances args remote binary vs ss)"
    by (auto simp: primary_hex_def secondary_hex_def)
  show "ga_indexer args \<Longrightarrow> chain_indexer_host \<in> ic_name ` set (deployer_instances args remote binary vs ss)"
    by (simp add: deployer_instances_def Let_def indexer_enabled_def)
qed

lemma remote_generated:
  assumes lib: "config_lib_ok lib" "deal_ok lib"
    and args: "validate_generate_args args" "ga_validators args \<noteq> 0" "missing (absolute_path (ga_output_dir args))"
    and regions: "ra_regions remote \<noteq> []" "length (ra_regions remote) \<le> unat (ga_validators args)"
    and lens: "length signers = unat (ga_validators args)" "length secondaries = total_secondaries args"
    and keys: "\<forall>sk \<in> set (signers @ secondaries). key_ok lib sk" and dist: "distinct (map (sk_public lib) (signers @ secondaries))"
  shows "\<exists>b. remote_generate lib rng signers secondaries metrics_port tag missing absolute_path args remote = Some b \<and>
    cluster_ok lib (rb_material b) \<and>
    length (cm_public_keys (rb_material b)) = unat (ga_validators args) \<and>
    length (cm_secondary_public_keys (rb_material b)) = length (secondary_roles args) \<and>
    list_all2 (remote_primary lib remote (rb_material b)) [0..<unat (ga_validators args)] (rb_validators b) \<and>
    list_all2 (remote_secondary_node lib remote (rb_material b)) (enumerate 0 (secondary_roles args)) (rb_secondaries b) \<and>
    aws_instances (rb_deployer b) = deployer_instances args remote ''validator'' (rb_validators b) (rb_secondaries b) \<and>
    (rb_chain_indexer b = chain_indexer_config_of args remote \<and> rb_metadata_indexer b = metadata_indexer_config args remote \<and>
      rb_qmdb_indexer b = qmdb_indexer_config args remote) \<and>
    (if ga_spammer args then rb_spammer b = remote_spammer_config lib args remote (rb_material b) \<and> rb_spammer b \<noteq> None
     else rb_spammer b = None)"
proof -
  let ?n = "unat (ga_validators args)" and ?dir = "absolute_path (ga_output_dir args)"
  let ?signers = "sort_key (sk_public lib) signers" and ?secs = "sort_key (sk_public lib) secondaries"
  have n: "?n \<noteq> 0" "?n < 2 ^ 32" using args(2) unsigned_less [of "ga_validators args"] by (simp_all add: unat_eq_0)
  have "mset (map (sk_public lib) (?signers @ ?secs)) = mset (map (sk_public lib) (signers @ secondaries))" by simp
  then have "distinct (map (sk_public lib) (?signers @ ?secs))" using dist mset_eq_imp_distinct_iff by blast
  moreover have "?signers \<noteq> []" "length ?signers < 2 ^ 32" using n lens(1) by (metis length_0_conv length_sort, simp)
  ultimately obtain m where m: "generate_remote_cluster_material lib rng signers secondaries = Some m" "cluster_ok lib m"
    "cm_signers m = ?signers" "cm_secondary_signers m = ?secs"
    using build_cluster_ok [OF lib(2), of ?signers ?secs rng] keys by (auto simp: generate_remote_cluster_material_def)
  have len: "length (cm_public_keys m) = ?n" "length (cm_secondary_public_keys m) = length (secondary_roles args)"
    using arg_cong [OF cluster_facts(3) [OF m(2)], of length] arg_cong [OF cluster_facts(4) [OF m(2)], of length] m(3,4) lens
    by (simp_all add: total_secondaries_def)
  have val: "ga_validators args = word_of_nat (length (cm_public_keys m))" unfolding len by simp
  have "\<forall>i \<in> set [0..<?n]. \<exists>g. remote_validator lib metrics_port args remote ?dir m i = Some g \<and> remote_primary lib remote m i g"
    using remote_validator_built [OF lib(1) m(2) _ val] len by simp
  from collect_opt_ex [OF this] obtain vs where vs: "remote_build_validators lib metrics_port args remote ?dir m = Some vs"
    "list_all2 (remote_primary lib remote m) [0..<?n] vs" unfolding remote_build_validators_def by blast
  have "\<forall>x \<in> set (enumerate 0 (secondary_roles args)).
      \<exists>g. remote_secondary lib metrics_port args remote ?dir m x = Some g \<and> remote_secondary_node lib remote m x g"
    using remote_secondary_built [OF m(2) _ val] len(2) by (auto simp: enumerate_eq_map)
  from collect_opt_ex [OF this] obtain ss where ss: "remote_build_secondaries lib metrics_port args remote ?dir m = Some ss"
    "list_all2 (remote_secondary_node lib remote m) (enumerate 0 (secondary_roles args)) ss"
    unfolding remote_build_secondaries_def by blast
  have "ga_spammer args \<Longrightarrow> \<exists>cfg. remote_spammer_config lib args remote m = Some cfg"
    using args(1) len(2)
    by (auto simp: remote_spammer_config_def relayer_url_def nth_opt_def validate_generate_args_def secondary_roles_def)
  with args regions m(1,2) vs ss len show ?thesis
    by (cases "ga_spammer args") (auto simp: remote_generate_def Let_def build_deployer_config_def)
qed

lemma remote_primary_starts:
  assumes "config_lib_ok lib" "cluster_ok lib m"
    and "\<And>pk. pk \<in> set (cm_public_keys m) \<union> set (cm_secondary_public_keys m) \<Longrightarrow>
      collect_map hosts (to_hex lib pk) = Some (address (to_hex lib pk))"
    and "list_all2 (remote_primary lib remote m) [0..<length (cm_public_keys m)] vs"
  shows "\<forall>i < length (cm_public_keys m). \<exists>l sh. load_deployer_config lib hosts (parsed_config (gr_config (vs ! i))) = Ok l \<and>
    remote_node_loaded lib remote address m (cm_signers m ! i) l \<and>
    cm_shares m (cm_public_keys m ! i) = Some sh \<and> dc_share (ld_decoded l) = Some sh \<and>
    http_service_of l = ServesMempool (any_interface (ra_http_port remote)) \<and>
    maybe_build_indexer (is_primary l) (ld_indexer l) = None" (is "\<forall>i < _. \<exists>l sh. ?P i l sh")
proof (intro allI impI)
  fix i assume i: "i < length (cm_public_keys m)"
  let ?v = "parsed_config (gr_config (vs ! i))"
  have "remote_primary lib remote m i (vs ! i)" using list_all2_nthD [OF assms(4), of i] i by simp
  then obtain sh where v: "node_config lib m (cm_signers m ! i) ?v" "cm_shares m (cm_public_keys m ! i) = Some sh"
    "decode_share_opt lib (vc_dkg_share ?v) = Ok (Some sh)" "vc_indexer ?v = None" "vc_relayer ?v = None"
    "vc_listen_port ?v = ra_listen_port remote" "vc_http_port ?v = ra_http_port remote"
    unfolding remote_primary_def Let_def by blast
  note signer = signer_of_key(1) [OF assms(2) i]
  from remote_node_loads [OF assms(1,2) v(1) _ assms(3) v(6,7) v(3)] signer v(5) obtain l where
    l: "load_deployer_config lib hosts ?v = Ok l" "remote_node_loaded lib remote address m (cm_signers m ! i) l"
      "dc_share (ld_decoded l) = Some sh" "ld_indexer l = vc_indexer (resolved_config lib (collect_map hosts) ?v)" by auto
  then have "?P i l sh"
    using v(2,4) by (simp add: http_service_of_def is_primary_def remote_node_loaded_def maybe_build_indexer_def
        resolved_config_def Let_def)
  then show "\<exists>l sh. ?P i l sh" by blast
qed

lemma resolved_leaders:
  assumes "config_lib_ok lib"
    and "\<And>pk. pk \<in> set (cm_public_keys m) \<Longrightarrow> hosts (to_hex lib pk) = Some (address (to_hex lib pk))"
  shows "map (\<lambda>l. l\<lparr>lc_url := resolve_named_http_url (show_v6 lib) (lc_url l) hosts\<rparr>)
      (leader_list lib m (\<lambda>i. named_url (to_hex lib (cm_public_keys m ! i)) port)) =
    leader_list lib m (\<lambda>i. ip_url lib (address (to_hex lib (cm_public_keys m ! i))) port)"
proof -
  have "resolve_named_http_url (show_v6 lib) (named_url (to_hex lib (cm_public_keys m ! i)) port) hosts =
      ip_url lib (address (to_hex lib (cm_public_keys m ! i))) port" if "i < length (cm_public_keys m)" for i
    using that by (intro resolve_host config_hex_chars [OF assms(1)] assms(2)) simp
  then show ?thesis by (simp add: leader_list_def)
qed

lemma remote_secondary_starts:
  assumes "config_lib_ok lib" "cluster_ok lib m"
    and hosts: "\<And>pk. pk \<in> set (cm_public_keys m) \<union> set (cm_secondary_public_keys m) \<Longrightarrow>
      collect_map hosts (to_hex lib pk) = Some (address (to_hex lib pk))"
    and chain: "ga_indexer args \<Longrightarrow> collect_map hosts chain_indexer_host = Some (address chain_indexer_host)"
    and ss: "list_all2 (remote_secondary_node lib remote m) (enumerate 0 (secondary_roles args)) ss"
    and len: "length (cm_secondary_public_keys m) = length (secondary_roles args)"
  shows "\<forall>i < length (secondary_roles args). \<exists>l. load_deployer_config lib hosts (parsed_config (gr_config (ss ! i))) = Ok l \<and>
    remote_node_loaded lib remote address m (cm_secondary_signers m ! i) l \<and> \<not> is_primary l \<and>
    (case secondary_roles args ! i of
       IndexerRole \<Rightarrow>
         http_service_of l = ServesNothing \<and>
         maybe_build_indexer (is_primary l) (ld_indexer l) =
           Some \<lparr>chain_indexer_url = ip_url lib (address chain_indexer_host) (ra_chain_indexer_port remote),
             upload_buffer = indexer_upload_buffer\<rparr>
     | RelayerRole \<Rightarrow>
         maybe_build_indexer (is_primary l) (ld_indexer l) = None \<and>
         http_service_of l = ServesRelayer (any_interface (ra_http_port remote))
           \<lparr>max_retry_views = default_relayer_retry_views,
            rc_leaders = leader_list lib m (\<lambda>i. ip_url lib (address (to_hex lib (cm_public_keys m ! i))) (ra_http_port remote))\<rparr>)"
    (is "\<forall>i < _. \<exists>l. ?P i l")
proof (intro allI impI)
  fix i assume i: "i < length (secondary_roles args)"
  let ?v = "parsed_config (gr_config (ss ! i))" and ?role = "secondary_roles args ! i"
  let ?w = "resolved_config lib (collect_map hosts) ?v"
  let ?relayer = "\<lparr>max_retry_views = default_relayer_retry_views,
    rc_leaders = leader_list lib m (\<lambda>i. named_url (to_hex lib (cm_public_keys m ! i)) (ra_http_port remote))\<rparr>"
  have "remote_secondary_node lib remote m (i, ?role) (ss ! i)"
    using list_all2_nthD [OF ss, of i] i by (simp add: nth_enumerate_eq)
  then have v: "node_config lib m (cm_secondary_signers m ! i) ?v" "vc_dkg_share ?v = []"
    "vc_indexer ?v = (if ?role = IndexerRole then Some (remote_indexer_config (ra_chain_indexer_port remote)) else None)"
    "vc_relayer ?v = (if ?role = RelayerRole then Some ?relayer else None)"
    "vc_listen_port ?v = ra_listen_port remote" "vc_http_port ?v = ra_http_port remote"
    unfolding remote_secondary_node_def Let_def prod.case by blast+
  have share: "decode_share_opt lib (vc_dkg_share ?v) = Ok None" by (simp add: decode_share_opt_def v(2))
  note signer = signer_of_key(2) [OF assms(2) i [folded len]]
  from remote_node_loads [OF assms(1,2) v(1) _ hosts v(5,6) share] signer v(3,4) obtain l where
    l: "load_deployer_config lib hosts ?v = Ok l" "remote_node_loaded lib remote address m (cm_secondary_signers m ! i) l"
      "dc_share (ld_decoded l) = None" "ld_indexer l = vc_indexer ?w" "ld_relayer l = vc_relayer ?w"
    by (cases ?role) auto
  have http: "ld_http_listen l = any_interface (ra_http_port remote)" using l(2) by (simp add: remote_node_loaded_def)
  have leaders: "map (\<lambda>l. l\<lparr>lc_url := resolve_named_http_url (show_v6 lib) (lc_url l) (collect_map hosts)\<rparr>) (rc_leaders ?relayer) =
      leader_list lib m (\<lambda>i. ip_url lib (address (to_hex lib (cm_public_keys m ! i))) (ra_http_port remote))"
    using resolved_leaders [OF assms(1), of m "collect_map hosts" address] hosts by simp
  have "resolve_named_http_url (show_v6 lib) (named_url chain_indexer_host (ra_chain_indexer_port remote)) (collect_map hosts) =
      ip_url lib (address chain_indexer_host) (ra_chain_indexer_port remote)" if "?role = IndexerRole"
  proof (rule resolve_host)
    have "ga_indexer args" using that i by (cases i) (auto simp: secondary_roles_def split: if_splits)
    then show "collect_map hosts chain_indexer_host = Some (address chain_indexer_host)" by (rule chain)
  qed (simp add: chain_indexer_host_def)
  then have "?P i l"
    using l v(3,4) http leaders
    by (cases ?role) (auto simp: http_service_of_def is_primary_def maybe_build_indexer_def resolved_config_def Let_def
        remote_indexer_config_def)
  then show "\<exists>l. ?P i l" by blast
qed

lemma settings_from_config:
  "spammer_settings jitter_ok resolve cli (Some cfg) = Some s \<Longrightarrow>
    rm_relayer_url s = resolve (sc_relayer_url cfg) \<and>
    (sc_primary_validators cfg \<noteq> [] \<longrightarrow> rm_relayer_targets s = sc_primary_validators cfg) \<and>
    (sc_relayer_submitters cfg \<noteq> 0 \<longrightarrow> rm_relayer_submitters s = sc_relayer_submitters cfg)"
  by (auto simp: spammer_settings_def split: if_splits)

lemma remote_spammer_reaches:
  assumes "config_lib_ok lib" "cluster_ok lib m"
    and hosts: "\<And>pk. pk \<in> set (cm_public_keys m) \<union> set (cm_secondary_public_keys m) \<Longrightarrow>
      collect_map hosts (to_hex lib pk) = Some (address (to_hex lib pk))"
    and len: "length (cm_public_keys m) = unat (ga_validators args)"
      "length (cm_secondary_public_keys m) = length (secondary_roles args)"
    and args: "validate_generate_args args" "ga_validators args \<noteq> 0" "ga_spammer args"
  shows "\<exists>cfg r. remote_spammer_config lib args remote m = Some cfg \<and>
    r < length (secondary_roles args) \<and> secondary_roles args ! r = RelayerRole \<and>
    (\<forall>jitter_ok cli s.
      spammer_settings jitter_ok (\<lambda>url. resolve_named_http_url (show_v6 lib) url (collect_map hosts)) cli (Some cfg) = Some s \<longrightarrow>
      rm_relayer_url s = ip_url lib (address (to_hex lib (cm_secondary_public_keys m ! r))) (ra_http_port remote) \<and>
      rm_relayer_targets s = primary_hex lib m \<and> rm_relayer_submitters s = unat (ga_validators args))"
proof -
  define r :: nat where "r = (if ga_indexer args then 1 else 0)"
  have r: "r < length (secondary_roles args)" "secondary_roles args ! r = RelayerRole"
    using args(1,3) by (auto simp: validate_generate_args_def secondary_roles_def r_def)
  let ?name = "to_hex lib (cm_secondary_public_keys m ! r)"
  obtain cfg where cfg: "remote_spammer_config lib args remote m = Some cfg"
    "sc_relayer_url cfg = named_url ?name (ra_http_port remote)" "sc_primary_validators cfg = primary_hex lib m"
    "sc_relayer_submitters cfg = unat (ga_validators args)"
    using r(1) len(2) by (simp add: remote_spammer_config_def relayer_url_def nth_opt_def r_def [symmetric])
  have "cm_secondary_public_keys m ! r \<in> set (cm_secondary_public_keys m)" using r(1) len(2) by (intro nth_mem) simp
  then have "resolve_named_http_url (show_v6 lib) (named_url ?name (ra_http_port remote)) (collect_map hosts) =
      ip_url lib (address ?name) (ra_http_port remote)"
    by (intro resolve_host config_hex_chars [OF assms(1)] hosts) blast
  moreover have "primary_hex lib m \<noteq> []" "unat (ga_validators args) \<noteq> 0"
    using cluster_facts(1) [OF assms(2)] args(2) by (simp_all add: primary_hex_def unat_eq_0)
  ultimately show ?thesis
    using settings_from_config [where cfg = cfg] cfg r by (intro exI [of _ cfg] exI [of _ r]) simp
qed

text \<open>The index services, started with the hosts file and their configurations, listen at their ports and connect to
  the chain indexer.\<close>

definition services_connect ::
    "('o, 's, 'x) config_lib_scheme \<Rightarrow> remote_args \<Rightarrow> ip_addr \<Rightarrow> (string \<times> ip_addr) list
      \<Rightarrow> chain_indexer_config option \<Rightarrow> facade_config option \<Rightarrow> facade_config option \<Rightarrow> bool" where
  "services_connect lib remote chain_ip hosts chain metadata qmdb \<longleftrightarrow>
    chain \<noteq> None \<and> metadata \<noteq> None \<and> qmdb \<noteq> None \<and> map_option ci_port chain = Some (ra_chain_indexer_port remote) \<and>
    (\<forall>cli. fl_hosts cli = Some hosts \<longrightarrow>
      metadata_indexer_settings (show_v6 lib) (cli\<lparr>fl_config := metadata\<rparr>) =
        Some (ip_url lib chain_ip (ra_chain_indexer_port remote), fl_host cli, ra_metadata_indexer_port remote) \<and>
      qmdb_indexer_settings (show_v6 lib) (cli\<lparr>fl_config := qmdb\<rparr>) =
        Some (ip_url lib chain_ip (ra_chain_indexer_port remote), fl_host cli, ra_qmdb_indexer_port remote))"

lemma facades_reach_store:
  assumes "ga_indexer args" "collect_map hosts chain_indexer_host = Some ip"
  shows "services_connect lib remote ip hosts (chain_indexer_config_of args remote) (metadata_indexer_config args remote)
    (qmdb_indexer_config args remote)"
proof -
  have "CHR ''/'' \<notin> set chain_indexer_host" by (simp add: chain_indexer_host_def)
  from resolve_host [where hosts = "collect_map hosts" and lib = lib, OF this assms(2)] assms(1) show ?thesis
    by (simp add: services_connect_def chain_indexer_config_of_def metadata_indexer_config_def qmdb_indexer_config_def
        indexer_enabled_def metadata_indexer_settings_def qmdb_indexer_settings_def)
qed

section \<open>The relayer finds the targets\<close>

lemma to_lowercase_hex:
  assumes "config_lib_ok lib"
  shows "to_lowercase (to_hex lib bs) = to_hex lib bs"
proof -
  have "set (to_hex lib bs) \<subseteq> set ''0123456789abcdef''" using assms by (simp only: config_lib_ok_def)
  then have "\<forall>ch \<in> set (to_hex lib bs). ch \<notin> set ''ABCDEFGHIJKLMNOPQRSTUVWXYZ''" by auto
  then show ?thesis by (simp add: to_lowercase_def map_idI)
qed

lemma find_SomeD: "List.find p xs = Some x \<Longrightarrow> x \<in> set xs \<and> p x"
  by (induction xs) (auto split: if_splits)

text \<open>The name that the load generator sends as target of a primary's stream selects that primary's leader entry,
  so the batch goes to the URL that the configuration has for it.\<close>

lemma target_leader_found:
  assumes "config_lib_ok lib" "cluster_ok lib m" "i < length (cm_public_keys m)"
  shows "\<exists>ls x. normalize_leaders (of_hex lib) (leader_list lib m url) = Some ls \<and>
    leader_by_id ls (primary_hex lib m ! i) = Some x \<and> ld_url x = trim_end_slashes (url i)"
proof -
  let ?n = "length (cm_public_keys m)"
  let ?x = "\<lambda>i. \<lparr>ld_public_key = to_hex lib (cm_public_keys m ! i), ld_sort_key = cm_public_keys m ! i, ld_url = trim_end_slashes (url i)\<rparr>"
  let ?ls = "sort_key leader_key (map ?x [0..<?n])"
  have "map (normalize_leader (of_hex lib)) (leader_list lib m url) = map Some (map ?x [0..<?n])"
    by (simp add: leader_list_def normalize_leader_def to_lowercase_hex [OF assms(1)] config_hex [OF assms(1)])
  then have norm: "normalize_leaders (of_hex lib) (leader_list lib m url) = Some ?ls"
    unfolding normalize_leaders_Some by blast
  have set_ls: "set ?ls = ?x ` {..<?n}" by auto
  have uniq: "x = ?x i" if "x \<in> set ?ls" "ld_public_key x = to_hex lib (cm_public_keys m ! i)" for x
  proof -
    from that(1) obtain j where "j < ?n" "x = ?x j" unfolding set_ls by auto
    moreover have "distinct (cm_public_keys m)" using cluster_facts(5) [OF assms(2)] by simp
    ultimately show ?thesis
      using that(2) assms(3) config_hex_inj [OF assms(1)] by (simp add: nth_eq_iff_index_eq)
  qed
  have "?x i \<in> set ?ls" using assms(3) unfolding set_ls by blast
  then have "leader_by_id ?ls (to_hex lib (cm_public_keys m ! i)) \<noteq> None"
    unfolding leader_by_id_def find_None_iff by auto
  then obtain x where x: "leader_by_id ?ls (to_hex lib (cm_public_keys m ! i)) = Some x" by blast
  note found = find_SomeD [OF x [unfolded leader_by_id_def]]
  have "x = ?x i" by (rule uniq [OF conjunct1 [OF found] conjunct2 [OF found]])
  with norm x assms(3) show ?thesis by (simp add: primary_hex_def)
qed

section \<open>Properties\<close>

text \<open>The seeds of a local cluster with \<open>n\<close> primaries and \<open>k\<close> secondaries.\<close>

definition cluster_seeds :: "nat \<Rightarrow> nat \<Rightarrow> u64 list" where
  "cluster_seeds n k = map word_of_nat [0..<n] @ map (\<lambda>i. secondary_seed_offset + word_of_nat i) [0..<k]"

lemma local_generated:
  assumes lib: "config_lib_ok lib" "deal_ok lib"
    and args: "validate_generate_args args" "ga_validators args \<noteq> 0" "missing (absolute_path (ga_output_dir args))"
    and keys: "\<forall>s \<in> set (cluster_seeds (unat (ga_validators args)) (total_secondaries args)). key_ok lib (seed_key lib s)"
    and dist: "distinct (map (\<lambda>s. sk_public lib (seed_key lib s)) (cluster_seeds (unat (ga_validators args)) (total_secondaries args)))"
    and ports: "ports_fit local (unat (ga_validators args) + total_secondaries args)"
  shows "\<exists>b. local_generate lib rng missing absolute_path args local = Some b \<and> cluster_ok lib (lb_material b) \<and>
    length (cm_public_keys (lb_material b)) = unat (ga_validators args) \<and>
    length (cm_secondary_public_keys (lb_material b)) = total_secondaries args \<and>
    list_all2 (local_primary lib local (lb_material b)) [0..<unat (ga_validators args)] (lb_validators b) \<and>
    list_all2 (local_secondary_node lib local (lb_material b)) (enumerate 0 (secondary_roles args)) (lb_secondaries b) \<and>
    lb_peers b = \<lparr>pf_validators = map gl_peer (lb_validators b), pf_secondaries = map gl_peer (lb_secondaries b)\<rparr>"
proof -
  let ?n = "unat (ga_validators args)" and ?k = "total_secondaries args" and ?dir = "absolute_path (ga_output_dir args)"
  let ?signers = "map (\<lambda>index. seed_key lib (word_of_nat index)) [0..<?n]"
  let ?secs = "map (\<lambda>index. seed_key lib (secondary_seed_offset + word_of_nat index)) [0..<?k]"
  have "?n \<noteq> 0" using args(2) by (simp add: unat_eq_0)
  moreover have "?n < 2 ^ 32" using unsigned_less [of "ga_validators args"] by simp
  ultimately obtain m where m: "generate_local_cluster_material lib rng (ga_validators args) ?k = Some m" "cluster_ok lib m"
    "cm_signers m = ?signers" "cm_secondary_signers m = ?secs"
    using build_cluster_ok [OF lib(2), of ?signers ?secs rng] keys dist
    by (auto simp: generate_local_cluster_material_def cluster_seeds_def o_def)
  have len: "length (cm_public_keys m) = ?n" "length (cm_secondary_public_keys m) = ?k"
    using arg_cong [OF cluster_facts(3) [OF m(2)], of length] arg_cong [OF cluster_facts(4) [OF m(2)], of length] m(3,4) by simp_all
  have val: "ga_validators args = word_of_nat (length (cm_public_keys m))" unfolding len by simp
  have "\<forall>i \<in> set [0..<?n]. \<exists>g. local_validator lib args local ?dir m i = Some g \<and> local_primary lib local m i g"
    using local_validator_built [OF lib(1) m(2) _ ports _ val] len by simp
  from collect_opt_ex [OF this] obtain vs where vs: "local_build_validators lib args local ?dir m = Some vs"
    "list_all2 (local_primary lib local m) [0..<?n] vs" unfolding local_build_validators_def by blast
  have "\<forall>x \<in> set (enumerate 0 (secondary_roles args)).
      \<exists>g. local_secondary lib args local ?dir m x = Some g \<and> local_secondary_node lib local m x g"
    using local_secondary_built [OF m(2) _ ports [folded len(1)] _ val] len(2)
    by (auto simp: enumerate_eq_map total_secondaries_def)
  from collect_opt_ex [OF this] obtain ss where ss: "local_build_secondaries lib args local ?dir m = Some ss"
    "list_all2 (local_secondary_node lib local m) (enumerate 0 (secondary_roles args)) ss"
    unfolding local_build_secondaries_def by blast
  show ?thesis
    using args m(1,2) vs ss len by (simp add: local_generate_def Let_def)
qed

lemma relayer_index:
  assumes "i < length (secondary_roles args)" "secondary_roles args ! i = RelayerRole"
  shows "ga_relayer args \<and> i = (if ga_indexer args then 1 else 0)"
  using assms by (cases i) (auto simp: secondary_roles_def split: if_splits)

lemma relayer_port:
  assumes "i < length (secondary_roles args)" "secondary_roles args ! i = RelayerRole"
  shows "relayer_http_port args local = Some (node_port (la_base_http_port local) (unat (ga_validators args) + i))"
proof -
  have "(ucast (ga_validators args) :: u16) = word_of_nat (unat (ga_validators args))" by (simp only: of_nat_unat)
  with relayer_index [OF assms] show ?thesis by (simp add: relayer_http_port_def node_port_def)
qed

lemma local_primary_starts:
  assumes "config_lib_ok lib" "cluster_ok lib m"
    and "pf_validators peers @ pf_secondaries peers =
      map (\<lambda>j. local_peer (to_hex lib (cluster_keys_of m ! j)) (node_port (la_base_port local) j) (node_port (la_base_http_port local) j))
        [0..<length (cluster_keys_of m)]"
    and "list_all2 (local_primary lib local m) [0..<length (cm_public_keys m)] vs"
  shows "\<forall>i < length (cm_public_keys m). \<exists>l sh. load_local_config lib peers (parsed_config (gl_config (vs ! i))) = Ok l \<and>
    local_node_loaded lib local m (cm_signers m ! i) i l \<and>
    cm_shares m (cm_public_keys m ! i) = Some sh \<and> dc_share (ld_decoded l) = Some sh \<and>
    http_service_of l = ServesMempool (any_interface (node_port (la_base_http_port local) i)) \<and>
    maybe_build_indexer (is_primary l) (ld_indexer l) = None"
proof (intro allI impI)
  fix i assume i: "i < length (cm_public_keys m)"
  let ?v = "parsed_config (gl_config (vs ! i))"
  have "local_primary lib local m i (vs ! i)" using list_all2_nthD [OF assms(4), of i] i by simp
  then obtain sh where v: "node_config lib m (cm_signers m ! i) ?v" "cm_shares m (cm_public_keys m ! i) = Some sh"
    "decode_share_opt lib (vc_dkg_share ?v) = Ok (Some sh)" "vc_indexer ?v = None" "vc_relayer ?v = None"
    "vc_listen_port ?v = node_port (la_base_port local) i" "vc_http_port ?v = node_port (la_base_http_port local) i"
    unfolding local_primary_def Let_def by blast
  note signer = signer_of_key(1) [OF assms(2) i]
  from local_node_loads [OF assms(1,2) v(1) _ _ assms(3) v(6,7) v(3)] signer v(5) obtain l where
    l: "load_local_config lib peers ?v = Ok l" "local_node_loaded lib local m (cm_signers m ! i) i l"
      "dc_share (ld_decoded l) = Some sh" "ld_indexer l = vc_indexer ?v" by auto
  moreover have "http_service_of l = ServesMempool (any_interface (node_port (la_base_http_port local) i))"
    using l(2,3) by (simp add: http_service_of_def is_primary_def local_node_loaded_def)
  moreover have "maybe_build_indexer (is_primary l) (ld_indexer l) = None"
    using l(4) v(4) by (simp add: maybe_build_indexer_def)
  ultimately show "\<exists>l sh. load_local_config lib peers ?v = Ok l \<and> local_node_loaded lib local m (cm_signers m ! i) i l \<and>
    cm_shares m (cm_public_keys m ! i) = Some sh \<and> dc_share (ld_decoded l) = Some sh \<and>
    http_service_of l = ServesMempool (any_interface (node_port (la_base_http_port local) i)) \<and>
    maybe_build_indexer (is_primary l) (ld_indexer l) = None" using v(2) by blast
qed

lemma local_secondary_starts:
  assumes "config_lib_ok lib" "cluster_ok lib m"
    and "pf_validators peers @ pf_secondaries peers =
      map (\<lambda>j. local_peer (to_hex lib (cluster_keys_of m ! j)) (node_port (la_base_port local) j) (node_port (la_base_http_port local) j))
        [0..<length (cluster_keys_of m)]"
    and "list_all2 (local_secondary_node lib local m) (enumerate 0 (secondary_roles args)) ss"
    and "length (cm_secondary_public_keys m) = length (secondary_roles args)"
    and "unat (ga_validators args) = length (cm_public_keys m)"
  shows "\<forall>i < length (secondary_roles args). \<exists>l. load_local_config lib peers (parsed_config (gl_config (ss ! i))) = Ok l \<and>
    local_node_loaded lib local m (cm_secondary_signers m ! i) (unat (ga_validators args) + i) l \<and> \<not> is_primary l \<and>
    (case secondary_roles args ! i of
       IndexerRole \<Rightarrow>
         http_service_of l = ServesNothing \<and>
         maybe_build_indexer (is_primary l) (ld_indexer l) = Some (local_indexer_config (la_chain_indexer_port local))
     | RelayerRole \<Rightarrow>
         maybe_build_indexer (is_primary l) (ld_indexer l) = None \<and>
         (\<exists>port. relayer_http_port args local = Some port \<and>
           http_service_of l = ServesRelayer (any_interface port)
             \<lparr>max_retry_views = default_relayer_retry_views,
              rc_leaders = leader_list lib m (\<lambda>i. local_url (node_port (la_base_http_port local) i))\<rparr>))"
    (is "\<forall>i < _. \<exists>l. ?P i l")
proof (intro allI impI)
  fix i assume i: "i < length (secondary_roles args)"
  let ?v = "parsed_config (gl_config (ss ! i))" and ?role = "secondary_roles args ! i"
  let ?relayer = "\<lparr>max_retry_views = default_relayer_retry_views,
    rc_leaders = leader_list lib m (\<lambda>i. local_url (node_port (la_base_http_port local) i))\<rparr>"
  have "local_secondary_node lib local m (i, ?role) (ss ! i)"
    using list_all2_nthD [OF assms(4), of i] i by (simp add: nth_enumerate_eq)
  then have v: "node_config lib m (cm_secondary_signers m ! i) ?v" "vc_dkg_share ?v = []"
    "vc_indexer ?v = (if ?role = IndexerRole then Some (local_indexer_config (la_chain_indexer_port local)) else None)"
    "vc_relayer ?v = (if ?role = RelayerRole then Some ?relayer else None)"
    "vc_listen_port ?v = node_port (la_base_port local) (length (cm_public_keys m) + i)"
    "vc_http_port ?v = node_port (la_base_http_port local) (length (cm_public_keys m) + i)"
    unfolding local_secondary_node_def Let_def prod.case by blast+
  have share: "decode_share_opt lib (vc_dkg_share ?v) = Ok None" by (simp add: decode_share_opt_def v(2))
  note signer = signer_of_key(2) [OF assms(2) i [folded assms(5)]]
  from local_node_loads [OF assms(1,2) v(1) _ _ assms(3) v(5,6) share] signer v(3,4) obtain l where
    l: "load_local_config lib peers ?v = Ok l"
      "local_node_loaded lib local m (cm_secondary_signers m ! i) (length (cm_public_keys m) + i) l"
      "dc_share (ld_decoded l) = None" "ld_indexer l = vc_indexer ?v" "ld_relayer l = vc_relayer ?v"
    by (cases ?role) auto
  have http: "ld_http_listen l = any_interface (node_port (la_base_http_port local) (unat (ga_validators args) + i))"
    using l(2) assms(6) by (simp add: local_node_loaded_def)
  have "?P i l"
    using l v(3,4) http relayer_port [OF i, of local] assms(6)
    by (cases ?role) (auto simp: http_service_of_def is_primary_def maybe_build_indexer_def)
  then show "\<exists>l. ?P i l" by blast
qed


text \<open>C35: A generated remote cluster starts. When the arguments are accepted and the random keys differ, the generator
  succeeds; with a hosts file that gives every instance of the deployment its address, every node loads its
  configuration with its own key, the DKG output and the participants, advertises its own address, and gets the
  first three primaries at theirs. A primary has its share and serves its mempool; the indexer secondary uploads to
  the address of the chain-indexer instance, to which the metadata and QMDB services connect; the leaders of the relayer are the primaries at their addresses and
  mempool port; and the settings that the load generator accepts from its file send to the relayer's address, with
  one stream for each primary.\<close>

theorem remote_cluster_starts:
  assumes "config_lib_ok lib" "deal_ok lib"
    and "validate_generate_args args" "ga_validators args \<noteq> 0" "missing (absolute_path (ga_output_dir args))"
    and "ra_regions remote \<noteq> []" "length (ra_regions remote) \<le> unat (ga_validators args)"
    and "length signers = unat (ga_validators args)" "length secondaries = total_secondaries args"
    and "\<forall>sk \<in> set (signers @ secondaries). key_ok lib sk" "distinct (map (sk_public lib) (signers @ secondaries))"
  shows "\<exists>b m hosts. remote_generate lib rng signers secondaries metrics_port tag missing absolute_path args remote = Some b \<and>
    rb_material b = m \<and> hosts_file address (rb_deployer b) = hosts \<and>
    (\<forall>i < unat (ga_validators args). \<exists>l sh.
      load_deployer_config lib hosts (parsed_config (gr_config (rb_validators b ! i))) = Ok l \<and>
      remote_node_loaded lib remote address m (cm_signers m ! i) l \<and>
      cm_shares m (cm_public_keys m ! i) = Some sh \<and> dc_share (ld_decoded l) = Some sh \<and>
      http_service_of l = ServesMempool (any_interface (ra_http_port remote)) \<and>
      maybe_build_indexer (is_primary l) (ld_indexer l) = None) \<and>
    (\<forall>i < length (secondary_roles args). \<exists>l.
      load_deployer_config lib hosts (parsed_config (gr_config (rb_secondaries b ! i))) = Ok l \<and>
      remote_node_loaded lib remote address m (cm_secondary_signers m ! i) l \<and> \<not> is_primary l \<and>
      (case secondary_roles args ! i of
         IndexerRole \<Rightarrow>
           http_service_of l = ServesNothing \<and>
           maybe_build_indexer (is_primary l) (ld_indexer l) =
             Some \<lparr>chain_indexer_url = ip_url lib (address chain_indexer_host) (ra_chain_indexer_port remote),
               upload_buffer = indexer_upload_buffer\<rparr>
       | RelayerRole \<Rightarrow>
           maybe_build_indexer (is_primary l) (ld_indexer l) = None \<and>
           http_service_of l = ServesRelayer (any_interface (ra_http_port remote))
             \<lparr>max_retry_views = default_relayer_retry_views,
              rc_leaders = leader_list lib m (\<lambda>i. ip_url lib (address (to_hex lib (cm_public_keys m ! i))) (ra_http_port remote))\<rparr>)) \<and>
    (ga_indexer args \<longrightarrow> services_connect lib remote (address chain_indexer_host) hosts
      (rb_chain_indexer b) (rb_metadata_indexer b) (rb_qmdb_indexer b)) \<and>
    (ga_spammer args \<longrightarrow> (\<exists>cfg r. rb_spammer b = Some cfg \<and>
      r < length (secondary_roles args) \<and> secondary_roles args ! r = RelayerRole \<and>
      (\<forall>jitter_ok cli s.
        spammer_settings jitter_ok (\<lambda>url. resolve_named_http_url (show_v6 lib) url (collect_map hosts)) cli (Some cfg) = Some s \<longrightarrow>
        rm_relayer_url s = ip_url lib (address (to_hex lib (cm_secondary_public_keys m ! r))) (ra_http_port remote) \<and>
        rm_relayer_targets s = primary_hex lib m \<and> rm_relayer_submitters s = unat (ga_validators args))))"
proof -
  let ?n = "unat (ga_validators args)" and ?roles = "secondary_roles args"
  from remote_generated [where missing = missing and absolute_path = absolute_path, OF assms, of rng metrics_port tag]
  obtain b where
    b: "remote_generate lib rng signers secondaries metrics_port tag missing absolute_path args remote = Some b" and
    m: "cluster_ok lib (rb_material b)" and
    len: "length (cm_public_keys (rb_material b)) = ?n" "length (cm_secondary_public_keys (rb_material b)) = length ?roles" and
    vs: "list_all2 (remote_primary lib remote (rb_material b)) [0..<?n] (rb_validators b)" and
    ss: "list_all2 (remote_secondary_node lib remote (rb_material b)) (enumerate 0 ?roles) (rb_secondaries b)" and
    inst: "aws_instances (rb_deployer b) = deployer_instances args remote ''validator'' (rb_validators b) (rb_secondaries b)" and
    facades: "rb_chain_indexer b = chain_indexer_config_of args remote \<and>
      rb_metadata_indexer b = metadata_indexer_config args remote \<and> rb_qmdb_indexer b = qmdb_indexer_config args remote" and
    spam: "if ga_spammer args then rb_spammer b = remote_spammer_config lib args remote (rb_material b) \<and> rb_spammer b \<noteq> None
      else rb_spammer b = None" by blast
  let ?m = "rb_material b" and ?hosts = "hosts_file address (rb_deployer b)"
  note names = deployer_names [OF vs [folded len(1)] ss len(2) [symmetric], where args = args and binary = "''validator''", folded inst]
  have hosts: "collect_map ?hosts (to_hex lib pk) = Some (address (to_hex lib pk))"
    if "pk \<in> set (cm_public_keys ?m) \<union> set (cm_secondary_public_keys ?m)" for pk by (rule hosts_lookup [OF names(1) [OF that]])
  have chain: "collect_map ?hosts chain_indexer_host = Some (address chain_indexer_host)" if "ga_indexer args"
    by (rule hosts_lookup [OF names(2) [OF that]])
  note primaries = remote_primary_starts [OF assms(1) m hosts vs [folded len(1)], unfolded len(1)]
  note secondaries = remote_secondary_starts [OF assms(1) m hosts chain ss len(2)]
  have spammer: "\<exists>cfg r. rb_spammer b = Some cfg \<and> r < length ?roles \<and> ?roles ! r = RelayerRole \<and>
      (\<forall>jitter_ok cli s.
        spammer_settings jitter_ok (\<lambda>url. resolve_named_http_url (show_v6 lib) url (collect_map ?hosts)) cli (Some cfg) = Some s \<longrightarrow>
        rm_relayer_url s = ip_url lib (address (to_hex lib (cm_secondary_public_keys ?m ! r))) (ra_http_port remote) \<and>
        rm_relayer_targets s = primary_hex lib ?m \<and> rm_relayer_submitters s = ?n)" if "ga_spammer args"
    using remote_spammer_reaches [OF assms(1) m hosts len assms(3,4) that] spam that by auto
  have services: "services_connect lib remote (address chain_indexer_host) ?hosts (rb_chain_indexer b) (rb_metadata_indexer b)
      (rb_qmdb_indexer b)" if "ga_indexer args"
    using facades_reach_store [OF that chain [OF that]] facades by simp
  show ?thesis
    by (intro exI [of _ b] exI [of _ ?m] exI [of _ ?hosts] conjI refl b primaries secondaries impI services spammer)
qed

section \<open>An instance\<close>

text \<open>Keys are the bytes of their seeds and are their own public keys; every share is one byte.\<close>

definition demo_deploy_lib :: "(unit, u8) deploy_lib" where
  "demo_deploy_lib =
    \<lparr>to_hex = hex_lower, of_hex = (\<lambda>s. case client_decode_hex s of Ok bs \<Rightarrow> Some bs | Err _ \<Rightarrow> None),
     sk_read = Some, sk_public = id, key_read = Some,
     output_read = (\<lambda>_ _. Some ()), output_encode = (\<lambda>_. [1]),
     share_read = (\<lambda>bs. if bs = [] then None else Some (hd bs)), share_encode = (\<lambda>sh. [sh]),
     parse_socket_v6 = (\<lambda>_. None), show_v6 = (\<lambda>_. []),
     seed_key = u64_to_be, deal = (\<lambda>_ pks. Some ((), map (\<lambda>k. (k, 7)) pks))\<rparr>"

lemma hex_lower_chars: "set (hex_lower bs) \<subseteq> set ''0123456789abcdef''"
proof (induction bs)
  case (Cons b bs)
  have "hex_digits ! n \<in> set hex_digits" if "n < 16" for n
    using that by (intro nth_mem) (simp add: hex_digits_def)
  from this [OF nibble_bounds(1) [of b]] this [OF nibble_bounds(2) [of b]] Cons show ?case
    by (simp add: hex_lower_def hex_digits_def low_nibble)
qed (simp add: hex_lower_def)

lemma demo_deploy_lib_ok: "config_lib_ok demo_deploy_lib" "deal_ok demo_deploy_lib"
  using hex_lower_chars
  by (simp_all add: config_lib_ok_def demo_deploy_lib_def hex_lower_length deal_ok_def image_image)

definition demo_args :: "nat generate_args" where
  "demo_args =
    \<lparr>ga_validators = 2, ga_indexer = True, ga_relayer = True, ga_output_dir = ''out'', ga_log_level = ''info'',
     ga_worker_threads = 2, ga_rayon_threads = 2, ga_startup = MarshalSync, ga_spammer = True,
     ga_spammer_accounts = 10, ga_spammer_value = 1, ga_spammer_seed_offset = 1000, ga_spammer_rayon_threads = 2,
     ga_spammer_accounts_jitter = 0, ga_spammer_presigned_batches = 16\<rparr>"

definition default_local_args :: local_args where
  "default_local_args =
    \<lparr>la_base_port = 9000, la_base_http_port = 8080, la_base_metrics_port = 9090, la_chain_indexer_port = 8090,
     la_metadata_indexer_port = 8091, la_qmdb_indexer_port = 8092\<rparr>"

text \<open>With the default ports, a cluster of ten primaries, an indexer and a relayer gives the relayer the port of the
  metadata indexer.\<close>

lemma default_ports_collide:
  "ga_validators args = 10 \<Longrightarrow> ga_indexer args \<Longrightarrow> ga_relayer args \<Longrightarrow>
    relayer_http_port args default_local_args = Some (la_metadata_indexer_port default_local_args)"
  by (simp add: relayer_http_port_def default_local_args_def)

definition demo_remote :: remote_args where
  "demo_remote =
    \<lparr>ra_regions = [''us-east-1''], ra_instance_type = ''c8g'', ra_storage_size = 25,
     ra_chain_indexer_instance_type = ''c8gb'', ra_chain_indexer_storage_size = 500,
     ra_chain_indexer_storage_iops = 16000, ra_monitoring_instance_type = ''c8g'', ra_monitoring_storage_size = 25,
     ra_listen_port = 9000, ra_http_port = 8080, ra_http_cidrs = [], ra_chain_indexer_port = 8090,
     ra_metadata_indexer_port = 8091, ra_qmdb_indexer_port = 8092, ra_profiling = False,
     ra_spammer_instance_type = None, ra_spammer_storage_size = 25\<rparr>"

lemma demo_args_facts:
  "validate_generate_args demo_args" "ga_validators demo_args \<noteq> 0" "unat (ga_validators demo_args) = 2"
  "secondary_roles demo_args = [IndexerRole, RelayerRole]" "total_secondaries demo_args = 2"
  "ports_fit default_local_args 4"
  by (simp_all add: demo_args_def validate_generate_args_def secondary_roles_def total_secondaries_def ports_fit_def
      default_local_args_def)

lemma demo_seeds: "cluster_seeds 2 2 = [0, 1, 1000000, 1000001]"
  by (simp add: cluster_seeds_def secondary_seed_offset_def upt_rec)

lemma demo_keys:
  "key_ok demo_deploy_lib sk"
  "distinct (map (\<lambda>s. sk_public demo_deploy_lib (seed_key demo_deploy_lib s)) [0, 1, 1000000, 1000001])"
proof -
  show "key_ok demo_deploy_lib sk" by (simp add: key_ok_def demo_deploy_lib_def)
  have "inj u64_to_be" by (metis injI u64_from_to_be)
  then show "distinct (map (\<lambda>s. sk_public demo_deploy_lib (seed_key demo_deploy_lib s)) [0, 1, 1000000, 1000001])"
    by (simp add: demo_deploy_lib_def inj_eq)
qed


theorem remote_cluster_starts_witness:
  "\<exists>b. remote_generate demo_deploy_lib 0 [[1], [2]] [[3], [4]] 9090 ''tag'' (\<lambda>_. True) id demo_args demo_remote = Some b \<and>
    (\<exists>l. load_deployer_config demo_deploy_lib (hosts_file (\<lambda>_. IpV4 10 0 0 1) (rb_deployer b))
        (parsed_config (gr_config (rb_validators b ! 0))) = Ok l \<and>
      http_service_of l = ServesMempool (any_interface 8080))"
proof -
  have "length [[1], [2 :: u8]] = unat (ga_validators demo_args)" "length [[3], [4 :: u8]] = total_secondaries demo_args"
    "ra_regions demo_remote \<noteq> []" "length (ra_regions demo_remote) \<le> unat (ga_validators demo_args)"
    by (simp_all add: demo_args_facts demo_remote_def)
  moreover have "\<forall>sk \<in> set ([[1], [2]] @ [[3], [4]]). key_ok demo_deploy_lib sk"
    "distinct (map (sk_public demo_deploy_lib) ([[1], [2]] @ [[3], [4]]))" by (simp_all add: demo_keys) (simp add: demo_deploy_lib_def)
  moreover have "ra_http_port demo_remote = 8080" "0 < unat (ga_validators demo_args)" by (simp_all add: demo_remote_def demo_args_facts)
  ultimately show ?thesis
    using remote_cluster_starts [where missing = "\<lambda>_. True" and absolute_path = id and rng = 0 and remote = demo_remote
        and address = "\<lambda>_. IpV4 10 0 0 1" and metrics_port = 9090 and tag = "''tag''", OF demo_deploy_lib_ok demo_args_facts(1,2) TrueI]
    by fastforce
qed

end
