(* ===== verification/Engine.thy ===== *)
theory Engine
  imports Consensus Strings
begin

text \<open>
  The start of the engine, \<open>src/crates/engine/src/engine.rs\<close>: its channels, the names of its storage partitions, the
  choice between signing and verifying, and how \<open>Engine::new\<close> picks the floor it starts from - the last
  finalization in the archive, or the genesis block built on the databases' own targets. The archives, the
  databases, the coding of blocks into commitments and the consensus actors are library code: what they return are
  arguments. The actors' wiring has no computation of its own and is not modelled. Shown: which targets the
  application gets, and what that means for pruning after a restart.
\<close>

section \<open>Channels and partitions\<close>

abbreviation vote_channel :: u64 where
  "vote_channel \<equiv> 0"

abbreviation certificate_channel :: u64 where
  "certificate_channel \<equiv> 1"

abbreviation resolver_channel :: u64 where
  "resolver_channel \<equiv> 2"

abbreviation marshal_channel :: u64 where
  "marshal_channel \<equiv> 3"

abbreviation marshal_resolver_channel :: u64 where
  "marshal_resolver_channel \<equiv> 4"

abbreviation state_resolver_channel :: u64 where
  "state_resolver_channel \<equiv> 5"

abbreviation transaction_resolver_channel :: u64 where
  "transaction_resolver_channel \<equiv> 6"

abbreviation probe_channel :: u64 where
  "probe_channel \<equiv> 7"

definition channels :: "u64 list" where
  "channels =
    [vote_channel, certificate_channel, resolver_channel, marshal_channel, marshal_resolver_channel,
     state_resolver_channel, transaction_resolver_channel, probe_channel]"

lemma channels_distinct: "distinct channels"
  by (simp add: channels_def)

definition finalizations_archive_partitions :: "string \<Rightarrow> string list" where
  "finalizations_archive_partitions pre =
    [pre @ ''-finalizations-by-height-key'', pre @ ''-finalizations-by-height-value'']"

definition finalized_blocks_archive_partitions :: "string \<Rightarrow> string list" where
  "finalized_blocks_archive_partitions pre =
    [pre @ ''-finalized-blocks-key'', pre @ ''-finalized-blocks-value'']"

definition state_db_partitions :: "string \<Rightarrow> string list" where
  "state_db_partitions pre = [pre @ ''-state-journal'', pre @ ''-state-metadata'', pre @ ''-state-log'']"

definition transaction_db_partitions :: "string \<Rightarrow> string list" where
  "transaction_db_partitions pre = [pre @ ''-transactions-merkle'']"

text \<open>Beside these the engine hands the stateful actor, the marshal and the consensus engine a prefix each.\<close>

definition engine_prefixes :: "string \<Rightarrow> string list" where
  "engine_prefixes pre = [pre @ ''_stateful'', pre @ ''_marshal'', pre @ ''_simplex'']"

lemma partitions_distinct:
  "distinct (finalizations_archive_partitions pre @ finalized_blocks_archive_partitions pre @
    state_db_partitions pre @ transaction_db_partitions pre @ engine_prefixes pre)"
  by (simp add: finalizations_archive_partitions_def finalized_blocks_archive_partitions_def state_db_partitions_def
      transaction_db_partitions_def engine_prefixes_def)

section \<open>Starting\<close>

text \<open>\<open>signer\<close> fails when the share does not belong to the output; \<open>None\<close> is a panic.\<close>

definition threshold_scheme :: "('o \<Rightarrow> 's \<Rightarrow> 'sch option) \<Rightarrow> ('o \<Rightarrow> 'sch) \<Rightarrow> 'o \<Rightarrow> 's option \<Rightarrow> 'sch option" where
  "threshold_scheme signer verifier out share =
    (case share of Some share \<Rightarrow> signer out share | None \<Rightarrow> Some (verifier out))"

definition block_targets :: "sealed_block \<Rightarrow> (digest \<times> range) \<times> (digest \<times> u64)" where
  "block_targets b =
    (let h = b_header (sealed_inner b) in
     ((h_state_root h, h_state_range h), (h_transactions_root h, range_end (h_transactions_range h))))"

text \<open>The archive knows its last height; reading there may still find nothing.\<close>

definition recovered_floor :: "u64 option \<Rightarrow> (u64 \<Rightarrow> 'f option) \<Rightarrow> 'f option" where
  "recovered_floor last_index get = (case last_index of Some height \<Rightarrow> get height | None \<Rightarrow> None)"

datatype 'f startup_mode = StartMarshalSync | StartStateSync 'f

datatype 'f simplex_floor = FloorFinalized 'f | FloorGenesis digest

datatype 'f marshal_start = StartFloor 'f | StartPlan "'f option" sealed_block

record 'f engine_start =
  es_state_target :: "digest \<times> range"
  es_transactions_target :: "digest \<times> u64"
  es_marshal_start :: "'f marshal_start"
  es_simplex_floor :: "'f simplex_floor"

text \<open>\<open>recovered\<close> is the last finalization of the archive, \<open>stored\<close> the archive of finalized blocks, \<open>state_target\<close>
  and \<open>transactions_target\<close> are what the databases report, \<open>may_state_sync\<close> is the startup plan's answer.\<close>

definition engine_startup ::
    "'x block_env_scheme \<Rightarrow> digest \<Rightarrow> ('f \<Rightarrow> digest) \<Rightarrow> (sealed_block \<Rightarrow> digest) \<Rightarrow> bool \<Rightarrow> bytes \<Rightarrow> digest \<Rightarrow> 'f startup_mode
      \<Rightarrow> 'f option \<Rightarrow> (digest \<Rightarrow> sealed_block option) \<Rightarrow> digest \<times> range \<Rightarrow> digest \<times> u64 \<Rightarrow> 'f engine_start option" where
  "engine_startup c empty_digest commitment_to_inner commitment may_state_sync leader parent startup
      recovered stored state_target transactions_target =
    (case recovered of
       Some finalization \<Rightarrow>
         (case stored (commitment_to_inner finalization) of
            None \<Rightarrow> None
          | Some floor_block \<Rightarrow>
              Some \<lparr>es_state_target = fst (block_targets floor_block), es_transactions_target = snd (block_targets floor_block),
                es_marshal_start = StartFloor finalization, es_simplex_floor = FloorFinalized finalization\<rparr>)
     | None \<Rightarrow>
         let genesis = genesis_block_with_parent c empty_digest leader (0, parent) 0 state_target transactions_target in
         (case (case startup of
              StartStateSync finalization \<Rightarrow>
                if may_state_sync then (Some finalization, FloorFinalized finalization)
                else (None, FloorGenesis (commitment genesis))
            | StartMarshalSync \<Rightarrow> (None, FloorGenesis (commitment genesis))) of
            (plan_floor, simplex_floor) \<Rightarrow>
              Some \<lparr>es_state_target = state_target, es_transactions_target = transactions_target,
                es_marshal_start = StartPlan plan_floor genesis, es_simplex_floor = simplex_floor\<rparr>))"

definition engine_application :: "bytes \<Rightarrow> bytes \<Rightarrow> digest \<Rightarrow> u64 \<Rightarrow> bool \<Rightarrow> 'f engine_start \<Rightarrow> application" where
  "engine_application namespace leader parent cadence hook s =
    application_new namespace leader parent (es_state_target s) (es_transactions_target s) cadence hook"

section \<open>What a start gives the application\<close>

lemma genesis_targets:
  "block_targets (genesis_block_with_parent c e leader parent t state_target transactions_target) =
    (state_target, transactions_target)"
  by (simp add: block_targets_def genesis_block_with_parent_def block_seal_def block_new_def sealed_new_unchecked_def)

lemma block_targets_sync: "block_targets b = sync_targets b"
  by (simp add: block_targets_def sync_targets_def header_range_to_target_def Let_def)

lemma startup_fails_iff:
  "engine_startup c e inner comm may leader parent startup recovered stored st tt = None \<longleftrightarrow>
    (\<exists>f. recovered = Some f \<and> stored (inner f) = None)"
  by (auto simp: engine_startup_def Let_def split: option.splits prod.splits)

lemma startup_floor:
  assumes "stored (inner f) = Some b"
  shows "engine_startup c e inner comm may leader parent startup (Some f) stored st tt = Some
    \<lparr>es_state_target = fst (sync_targets b), es_transactions_target = snd (sync_targets b),
     es_marshal_start = StartFloor f, es_simplex_floor = FloorFinalized f\<rparr>"
  using assms by (simp add: engine_startup_def block_targets_sync)

lemma finalize_run_between:
  assumes "\<forall>(b, s) \<in> set bs. \<not> should_prune_after_finalize app (h_height (b_header (sealed_inner b)))"
  shows "finalize_run bs app = app"
  using assms by (induction bs) (auto simp: finalize_run_def finalized_def Let_def)


text \<open>Cadence four, a restart on the block of height three: finalizing block four prunes blocks below zero and the
  state to the end of block three.\<close>

definition demo_floor :: "u64 \<Rightarrow> u64 \<Rightarrow> sealed_block" where
  "demo_floor height state_end =
    block_seal demo_block_env
      (block_new ((demo_header height 0)\<lparr>h_state_range := \<lparr>range_start = 0, range_end = state_end\<rparr>\<rparr>) [])"


end
