(* ===== verification/Wallet.thy ===== *)
theory Wallet
  imports Http Strings
begin

text \<open>
  Nonces in the explorer, \<open>src/explorer/src\<close>: \<open>nonce.ts\<close>, its own copy of the nonce window, and how \<open>App.tsx\<close> and
  \<open>mempool.ts\<close> fill it from the account that the endpoint serves. A JavaScript \<open>bigint\<close> is an \<open>int\<close> and \<open>null\<close> is
  \<open>None\<close>. Shown: the explorer's window is the chain's, merging two views is the union of what they know to be used,
  and JSON numbers can lose part of a window.
\<close>

unbundle bit_operations_syntax

section \<open>Nonces, nonce.ts\<close>

definition max_u64 :: int where
  "max_u64 = push_bit 64 1 - 1"

abbreviation js_window :: int where
  "js_window \<equiv> 64"

record nonce_state =
  ns_base :: int
  ns_bitmap :: int

definition emptyNonceState :: nonce_state where
  "emptyNonceState = \<lparr>ns_base = 0, ns_bitmap = 0\<rparr>"

definition nextAvailableNonce :: "nonce_state \<Rightarrow> int" where
  "nextAvailableNonce s = ns_base s"

function js_advance :: "int \<Rightarrow> int \<Rightarrow> int" where
  "js_advance m advance =
    (if advance \<le> js_window then
       (if m AND push_bit (nat (advance - 1)) 1 = 0 then advance else js_advance m (advance + 1))
     else advance)"
  by pat_completeness auto

termination js_advance
  by (relation "measure (\<lambda>(m, a). nat (65 - a))") auto

declare js_advance.simps [simp del]

definition consumeBaseNonce :: "nonce_state \<Rightarrow> nonce_state option" where
  "consumeBaseNonce s =
    (let advance = js_advance (ns_bitmap s) 1; b = ns_base s + advance in
     if max_u64 < b then None
     else Some \<lparr>ns_base = b, ns_bitmap = (if js_window \<le> advance then 0 else drop_bit (nat advance) (ns_bitmap s))\<rparr>)"

definition consumeNonce :: "nonce_state \<Rightarrow> int \<Rightarrow> nonce_state option" where
  "consumeNonce s n =
    (if n < ns_base s then None
     else if max_u64 < n then None
     else
       let next_used = n + 1 in
       if max_u64 < next_used then None
       else
         let delta = n - ns_base s in
         if delta = 0 then consumeBaseNonce s
         else if js_window < delta then Some \<lparr>ns_base = next_used, ns_bitmap = 0\<rparr>
         else
           let mask = push_bit (nat (delta - 1)) 1 in
           if ns_bitmap s AND mask \<noteq> 0 then None
           else Some (s\<lparr>ns_bitmap := ns_bitmap s OR mask\<rparr>))"

definition consumedBitmapNonces :: "nonce_state \<Rightarrow> int \<Rightarrow> int list" where
  "consumedBitmapNonces s b =
    filter (\<lambda>n. b \<le> n)
      (map (\<lambda>offset. ns_base s + offset + 1)
        (filter (\<lambda>offset. ns_bitmap s AND push_bit (nat offset) 1 \<noteq> 0) [0 .. js_window - 1]))"

definition consume_or_keep :: "int \<Rightarrow> nonce_state \<Rightarrow> nonce_state" where
  "consume_or_keep n s = (case consumeNonce s n of Some s' \<Rightarrow> s' | None \<Rightarrow> s)"

definition mergeNonceStates :: "nonce_state \<Rightarrow> nonce_state \<Rightarrow> nonce_state" where
  "mergeNonceStates left right =
    (let merged = (if ns_base right < ns_base left then \<lparr>ns_base = ns_base left, ns_bitmap = 0\<rparr>
           else \<lparr>ns_base = ns_base right, ns_bitmap = 0\<rparr>);
         merged = fold consume_or_keep (consumedBitmapNonces left (ns_base merged)) merged
     in fold consume_or_keep (consumedBitmapNonces right (ns_base merged)) merged)"

subsection \<open>The wallet's window is the chain's\<close>

definition js_of :: "nonce \<Rightarrow> nonce_state" where
  "js_of s = \<lparr>ns_base = uint (base s), ns_bitmap = uint (bitmap s)\<rparr>"

lemma max_u64_eq: "max_u64 = 18446744073709551615"
  by (simp add: max_u64_def)

lemma uint_bound: "0 \<le> uint (x :: u64) \<and> uint x \<le> max_u64"
  using unsigned_less [of x, where 'a = int] by (simp add: max_u64_eq)

lemma int_mask: "(m :: int) AND push_bit k 1 = 0 \<longleftrightarrow> \<not> bit m k"
  by (simp add: and_exp_eq_0_iff_not_bit)

lemma word_mask: "(m :: u64) AND push_bit k 1 = 0 \<longleftrightarrow> \<not> bit m k"
  by (simp add: and_exp_eq_0_iff_not_bit)

lemma bit_uint: "bit (uint (m :: u64)) k \<longleftrightarrow> bit m k"
  by (auto simp: bit_uint_iff dest: bit_u64_less)

lemma js_advance_eq:
  "1 \<le> a \<Longrightarrow> a \<le> 65 \<Longrightarrow> js_advance (uint (m :: u64)) (int a) = int (advance_loop m a)"
proof (induction m a rule: advance_loop.induct)
  case (1 m a)
  have k: "nat (int a - 1) = a - 1" using 1 by linarith
  show ?case
  proof (cases "a \<le> 64 \<and> bit m (a - 1)")
    case True
    then have "js_advance (uint m) (int (a + 1)) = int (advance_loop m (a + 1))"
      using 1 by (simp add: and_exp_eq_0_iff_not_bit)
    with True show ?thesis
      by (subst js_advance.simps, subst advance_loop.simps)
        (simp add: int_mask k bit_uint and_exp_eq_0_iff_not_bit add.commute)
  next
    case False
    then show ?thesis
      by (subst js_advance.simps, subst advance_loop.simps)
        (auto simp: int_mask k bit_uint and_exp_eq_0_iff_not_bit)
  qed
qed

lemma consumeBaseNonce_eq:
  "consumeBaseNonce (js_of s) = map_option js_of (consume_current_nonce (base s) (bitmap s))"
proof -
  define a where "a = advance_loop (bitmap s) 1"
  have a: "1 \<le> a" "a \<le> 65" using advance_loop_props [of 1 "bitmap s"] by (auto simp: a_def)
  have adv: "js_advance (uint (bitmap s)) 1 = int a"
    using js_advance_eq [of 1 "bitmap s"] by (simp add: a_def)
  have ua: "unat (word_of_nat a :: u64) = a" using a by (simp add: unat_of_nat)
  have cap: "nonce_bitmap_capacity \<le> word_of_nat a \<longleftrightarrow> 64 \<le> a"
    by (simp add: nonce_bitmap_capacity_def word_le_nat_alt ua)
  have js: "consumeBaseNonce (js_of s) =
      (if max_u64 < uint (base s) + int a then None
       else Some \<lparr>ns_base = uint (base s) + int a, ns_bitmap = (if 64 \<le> a then 0 else drop_bit a (uint (bitmap s)))\<rparr>)"
    by (simp add: consumeBaseNonce_def js_of_def adv Let_def)
  have ch: "consume_current_nonce (base s) (bitmap s) =
      (case checked_add (base s) (word_of_nat a) of
         None \<Rightarrow> None | Some n \<Rightarrow> Some (nonce_new n (if 64 \<le> a then 0 else drop_bit a (bitmap s))))"
    by (simp add: consume_current_nonce_def a_def [symmetric] ua cap Let_def cong: option.case_cong del: One_nat_def)
  have d: "uint (drop_bit a (bitmap s)) = drop_bit a (uint (bitmap s))"
    by (rule bit_eqI) (simp add: bit_uint bit_drop_bit_eq)
  show ?thesis
  proof (cases "unat (base s) + a < 18446744073709551616")
    case True
    then have c: "checked_add (base s) (word_of_nat a) = Some (base s + word_of_nat a)"
      and "unat (base s + word_of_nat a) = unat (base s) + a"
      using checked_add_unat [of "base s" "word_of_nat a" "base s + word_of_nat a"]
      by (simp_all add: checked_add_def ua)
    then have u: "uint (base s + word_of_nat a) = uint (base s) + int a"
      by (simp only: uint_nat of_nat_add)
    have "\<not> max_u64 < uint (base s) + int a" using True unfolding uint_nat max_u64_eq by linarith
    then show ?thesis unfolding js ch c by (simp add: nonce_new_def js_of_def u d)
  next
    case False
    then have c: "checked_add (base s) (word_of_nat a) = None" by (simp add: checked_add_def ua)
    have "max_u64 < uint (base s) + int a" using False unfolding uint_nat max_u64_eq by linarith
    then show ?thesis unfolding js ch c by simp
  qed
qed

lemma uint_or_mask: "k < 64 \<Longrightarrow> uint ((m :: u64) OR push_bit k 1) = uint m OR push_bit k 1"
  by (rule bit_eqI) (auto simp: bit_or_iff bit_uint bit_exp_iff)

lemma consumeNonce_eq:
  "consumeNonce (js_of s) (uint n) = map_option js_of (next_nonce_state (base s) (bitmap s) n)"
proof -
  consider "unat n = 18446744073709551615" | "n < base s"
    | "\<not> n < base s" "unat n < 18446744073709551615"
    using u64_bound [of n] by linarith
  then show ?thesis
  proof cases
    case 1
    then show ?thesis
      by (auto simp: consumeNonce_def next_nonce_state_def checked_add_def max_u64_eq uint_nat
          simp del: of_nat_unat split: option.splits)
  next
    case 2
    then show ?thesis
      by (auto simp: consumeNonce_def next_nonce_state_def js_of_def word_less_def split: option.splits)
  next
    case 3
    then have le: "unat (base s) \<le> unat n" by (simp add: word_less_nat_alt)
    then have d: "unat (n - base s) = unat n - unat (base s)" by (simp add: unat_sub word_le_nat_alt)
    have ca: "checked_add n 1 = Some (n + 1)" and u: "uint (n + 1) = uint n + 1"
      using 3 checked_add_unat [of n 1 "n + 1"] by (simp_all add: checked_add_def uint_nat del: of_nat_unat)
    show ?thesis
    proof (cases "n = base s")
      case True
      have "consumeNonce (js_of s) (uint n) = consumeBaseNonce (js_of s)"
        using 3 True by (simp add: consumeNonce_def js_of_def max_u64_eq uint_nat Let_def del: of_nat_unat)
      with True ca show ?thesis by (simp add: consumeBaseNonce_eq next_nonce_state_def)
    next
      case False
      then have ne: "unat n \<noteq> unat (base s)" by (simp add: word_unat_eq_iff)
      then have nz: "n - base s \<noteq> 0" and d1: "unat (n - base s - 1) = unat n - unat (base s) - 1"
        using le d False by (simp_all add: unat_minus_one)
      have cap: "nonce_bitmap_capacity < n - base s \<longleftrightarrow> 64 < unat n - unat (base s)"
        using d by (simp add: nonce_bitmap_capacity_def word_less_nat_alt)
      define k where "k = unat n - unat (base s) - 1"
      have n: "unat n = unat (base s) + k + 1" using le ne by (simp add: k_def)
      have js: "consumeNonce (js_of s) (uint n) =
          (if 64 \<le> k then Some \<lparr>ns_base = uint n + 1, ns_bitmap = 0\<rparr>
           else if bit (bitmap s) k then None
           else Some \<lparr>ns_base = uint (base s), ns_bitmap = uint (bitmap s) OR push_bit k 1\<rparr>)"
        using 3 by (simp add: consumeNonce_def js_of_def max_u64_eq n uint_nat [of n]
            uint_nat [of "base s"] int_mask bit_uint Let_def del: of_nat_unat push_bit_of_1)
      show ?thesis
        using 3 nz cap n unfolding js next_nonce_state_def ca
        by (simp add: d1 js_of_def nonce_new_def u uint_or_mask k_def [symmetric] Let_def word_mask
            del: push_bit_of_1)
    qed
  qed
qed

lemma consume_or_keep_eq: "consume_or_keep (uint n) (js_of s) = js_of (snd (nonce_consume n s))"
  by (simp add: consume_or_keep_def consumeNonce_eq nonce_consume_def split: option.splits)

text \<open>C37: the wallet and the chain agree on nonces: on every window and every nonce, \<open>consumeNonce\<close> of the
  explorer, computed on unbounded integers, refuses exactly when the chain's \<open>next_nonce_state\<close>, computed on 64-bit
  words, refuses, and otherwise yields the same window; so after any sequence of nonces, refused ones included, the
  two windows are still equal.\<close>

theorem wallet_nonces_agree:
  "consumeNonce (js_of s) (uint n) = map_option js_of (next_nonce_state (base s) (bitmap s) n) \<and>
   fold consume_or_keep (map uint ns) (js_of s) = js_of (fold (\<lambda>n s. snd (nonce_consume n s)) ns s)"
proof -
  have "fold consume_or_keep (map uint ns) (js_of s) = js_of (fold (\<lambda>n s. snd (nonce_consume n s)) ns s)"
    by (induction ns arbitrary: s) (simp_all add: consume_or_keep_eq)
  then show ?thesis by (simp add: consumeNonce_eq)
qed

subsection \<open>Merging\<close>

definition window_nonces :: "nonce \<Rightarrow> nat set" where
  "window_nonces s = {unat (base s) + k + 1 | k. bit (bitmap s) k}"

lemma consumed_set_window: "consumed_set s = {..<unat (base s)} \<union> window_nonces s"
proof (intro set_eqI iffI)
  fix n
  assume "n \<in> consumed_set s"
  then show "n \<in> {..<unat (base s)} \<union> window_nonces s"
    by (auto simp: consumed_set_def nonce_consumed_def window_nonces_def intro!: exI [of _ "n - unat (base s) - 1"])
qed (auto simp: consumed_set_def nonce_consumed_def window_nonces_def dest: bit_u64_less)

lemma window_nonces_bound: "n \<in> window_nonces s \<Longrightarrow> n \<le> unat (base s) + 64"
  by (auto simp: window_nonces_def dest!: bit_u64_less)

lemma window_nonces_inv: "nonce_inv s \<Longrightarrow> n \<in> window_nonces s \<Longrightarrow> n < 18446744073709551615"
  unfolding window_nonces_def nonce_inv_def using bit_u64_less [of "bitmap s"] by force

lemma consumedBitmapNonces_eq:
  "\<exists>ns. consumedBitmapNonces (js_of s) (int b) = map int ns \<and> set ns = {n \<in> window_nonces s. b \<le> n}"
proof -
  define ks where "ks = filter (bit (bitmap s)) [0..<64]"
  have "[0 .. js_window - 1] = map int [0..<64]" by code_simp
  then have f: "filter (\<lambda>offset. uint (bitmap s) AND push_bit (nat offset) 1 \<noteq> 0) [0 .. js_window - 1] = map int ks"
    by (simp add: ks_def filter_map comp_def int_mask bit_uint del: push_bit_of_1)
  have ks: "set ks = {k. bit (bitmap s) k}" by (auto simp: ks_def dest: bit_u64_less)
  have e: "uint (base s) + int k + 1 = int (unat (base s) + k + 1)" for k by (simp add: uint_nat del: of_nat_unat)
  define ns where "ns = filter (\<lambda>n. b \<le> n) (map (\<lambda>k. unat (base s) + k + 1) ks)"
  have "consumedBitmapNonces (js_of s) (int b) = map int ns"
    unfolding consumedBitmapNonces_def js_of_def nonce_state.select_convs f ns_def map_map comp_def e
    by (simp add: filter_map comp_def del: of_nat_Suc of_nat_add)
  moreover have "set ns = {n \<in> window_nonces s. b \<le> n}" by (auto simp: ns_def ks window_nonces_def)
  ultimately show ?thesis by blast
qed

lemma base_mono:
  assumes "consumed_set s \<subseteq> consumed_set s'"
  shows "unat (base s) \<le> unat (base s')"
proof (rule ccontr)
  assume "\<not> ?thesis"
  then have "unat (base s') \<in> consumed_set s" by (simp add: consumed_set_def nonce_consumed_def)
  with assms have "unat (base s') \<in> consumed_set s'" by blast
  then show False by (simp add: consumed_set_def nonce_consumed_def)
qed

lemma absorb_nonces:
  assumes "nonce_inv s" "\<forall>n \<in> set ns. n < 18446744073709551615 \<and> n \<le> unat (base s) + 64"
  shows "\<exists>s'. fold consume_or_keep (map int ns) (js_of s) = js_of s' \<and> nonce_inv s' \<and>
    consumed_set s' = consumed_set s \<union> set ns"
  using assms
proof (induction ns arbitrary: s)
  case (Cons n ns)
  define w :: u64 where "w = word_of_nat n"
  define s1 where "s1 = snd (nonce_consume w s)"
  have w: "unat w = n" using Cons.prems by (simp add: w_def unat_of_nat)
  have s1: "nonce_inv s1" "consumed_set s1 = insert n (consumed_set s)"
    using nonce_consume_step(2,3) [OF Cons.prems(1), of w] Cons.prems(2)
    by (auto simp: s1_def spec_consume_def spec_accepts_def w first_free_consumed)
  then have "unat (base s) \<le> unat (base s1)" by (intro base_mono) auto
  with Cons.prems Cons.IH [OF s1(1)] obtain s' where
    "fold consume_or_keep (map int ns) (js_of s1) = js_of s'" "nonce_inv s'"
    "consumed_set s' = consumed_set s1 \<union> set ns"
    by fastforce
  moreover have "consume_or_keep (int n) (js_of s) = js_of s1"
    using consume_or_keep_eq [of w s] w by (simp add: s1_def uint_nat del: of_nat_unat)
  ultimately show ?case using s1 by auto
qed auto

lemma merge_union:
  assumes "nonce_inv l" "nonce_inv r"
  obtains m where "mergeNonceStates (js_of l) (js_of r) = js_of m" "nonce_inv m"
    "consumed_set m = consumed_set l \<union> consumed_set r"
proof -
  define s0 where "s0 = nonce_new (if base r < base l then base l else base r) 0"
  have b0: "unat (base s0) = max (unat (base l)) (unat (base r))"
    by (simp add: s0_def nonce_new_def word_less_nat_alt)
  have s0: "nonce_inv s0" "consumed_set s0 = {..<max (unat (base l)) (unat (base r))}"
    by (auto simp: consumed_set_window b0 window_nonces_def, simp_all add: s0_def nonce_inv_def nonce_new_def)
  obtain ls where ls: "consumedBitmapNonces (js_of l) (uint (base s0)) = map int ls"
    "set ls = {n \<in> window_nonces l. unat (base s0) \<le> n}"
    using consumedBitmapNonces_eq [of l "unat (base s0)"] by (auto simp: uint_nat simp del: of_nat_unat)
  have "\<forall>n \<in> set ls. n < 18446744073709551615 \<and> n \<le> unat (base s0) + 64"
    using window_nonces_inv [OF assms(1)] window_nonces_bound [of _ l] b0 ls(2) by fastforce
  from absorb_nonces [OF s0(1) this] obtain s1 where
    s1: "fold consume_or_keep (map int ls) (js_of s0) = js_of s1" "nonce_inv s1"
      "consumed_set s1 = consumed_set s0 \<union> set ls" by blast
  obtain rs where rs: "consumedBitmapNonces (js_of r) (uint (base s1)) = map int rs"
    "set rs = {n \<in> window_nonces r. unat (base s1) \<le> n}"
    using consumedBitmapNonces_eq [of r "unat (base s1)"] by (auto simp: uint_nat simp del: of_nat_unat)
  have "unat (base s0) \<le> unat (base s1)" using s1(3) by (intro base_mono) auto
  then have "\<forall>n \<in> set rs. n < 18446744073709551615 \<and> n \<le> unat (base s1) + 64"
    using window_nonces_inv [OF assms(2)] window_nonces_bound [of _ r] b0 rs(2) by fastforce
  from absorb_nonces [OF s1(2) this] obtain s2 where
    s2: "fold consume_or_keep (map int rs) (js_of s1) = js_of s2" "nonce_inv s2"
      "consumed_set s2 = consumed_set s1 \<union> set rs" by blast
  have "{..<unat (base s1)} \<subseteq> consumed_set s1" by (simp add: consumed_set_window)
  then have "consumed_set s2 = consumed_set l \<union> consumed_set r"
    unfolding s2(3) rs(2) s1(3) ls(2) s0(2) b0 consumed_set_window [of l] consumed_set_window [of r]
    by (auto simp: not_le)
  moreover have "mergeNonceStates (js_of l) (js_of r) = js_of s2"
  proof -
    have m0: "(if ns_base (js_of r) < ns_base (js_of l) then \<lparr>ns_base = ns_base (js_of l), ns_bitmap = 0\<rparr>
        else \<lparr>ns_base = ns_base (js_of r), ns_bitmap = 0\<rparr>) = js_of s0"
      by (simp add: js_of_def s0_def nonce_new_def word_less_def)
    have b: "ns_base (js_of x) = uint (base x)" for x by (simp add: js_of_def)
    show ?thesis unfolding mergeNonceStates_def m0 unfolding Let_def b ls s1(1) rs s2(1) ..
  qed
  ultimately show thesis using that s2(2) by blast
qed

text \<open>C38: what the wallet remembers and what it hears from the chain are merged without loss: \<open>mergeNonceStates\<close> of two
  windows that the chain can be in is again such a window, and it has consumed exactly what one of the two has; so
  the next nonce that the wallet offers is the first one free in both, and the chain accepts it.\<close>

theorem merged_nonce_is_free:
  assumes "nonce_inv l" "nonce_inv r"
  shows "\<exists>m. mergeNonceStates (js_of l) (js_of r) = js_of m \<and> nonce_inv m \<and>
    consumed_set m = consumed_set l \<union> consumed_set r \<and>
    nextAvailableNonce (js_of m) = int (first_free (consumed_set l \<union> consumed_set r)) \<and>
    (base m \<noteq> 18446744073709551615 \<longrightarrow> fst (nonce_consume (base m) l) \<and> fst (nonce_consume (base m) r))"
proof -
  obtain m where m: "mergeNonceStates (js_of l) (js_of r) = js_of m" "nonce_inv m"
    "consumed_set m = consumed_set l \<union> consumed_set r" by (rule merge_union [OF assms])
  have f: "first_free (consumed_set l \<union> consumed_set r) = unat (base m)"
    using first_free_consumed [of m] by (simp add: m(3))
  have "unat (base m) \<notin> consumed_set m" by (simp add: consumed_set_def nonce_consumed_def)
  then have n: "unat (base m) \<notin> consumed_set l" "unat (base m) \<notin> consumed_set r" unfolding m(3) by simp_all
  have "fst (nonce_consume (base m) x)"
    if "base m \<noteq> 18446744073709551615" "nonce_inv x" "unat (base m) \<notin> consumed_set x" for x
  proof -
    have "unat (base m) \<noteq> 18446744073709551615" using that(1) by (simp add: word_unat_eq_iff)
    then show ?thesis using that u64_bound [of "base m"] by (simp add: nonce_consume_step(1) spec_accepts_def)
  qed
  with m n f assms show ?thesis
    by (intro exI [of _ m]) (simp add: nextAvailableNonce_def js_of_def uint_nat del: of_nat_unat)
qed

theorem merged_nonce_is_free_witness:
  "\<exists>m. mergeNonceStates (js_of nonce_default) (js_of (nonce_new 5 1)) = js_of m \<and>
    consumed_set m = consumed_set nonce_default \<union> consumed_set (nonce_new 5 1)"
proof -
  have "nonce_inv (nonce_new 5 1)" by (simp add: nonce_inv_def nonce_new_def bit_1_iff)
  from merged_nonce_is_free [OF nonce_inv_default this] show ?thesis by blast
qed

subsection \<open>Nonces over JSON, mempool.ts and App.tsx\<close>

text \<open>A JSON number becomes the nearest double: 53 significant bits, ties to even. Only natural numbers below
  \<open>2 ^ 64\<close> occur here.\<close>

fun bit_length :: "nat \<Rightarrow> nat" where
  "bit_length n = (if n = 0 then 0 else Suc (bit_length (n div 2)))"

declare bit_length.simps [simp del]

definition js_number :: "nat \<Rightarrow> nat" where
  "js_number n =
    (let ulp = 2 ^ (bit_length n - 53); q = n div ulp; r = n mod ulp in
     if ulp < 2 * r \<or> ulp = 2 * r \<and> odd q then (q + 1) * ulp else q * ulp)"

record account_view =
  av_balance :: nat
  av_base :: nat
  av_bitmap :: nat

text \<open>What \<open>response.json()\<close> yields for the account that the endpoint serializes.\<close>

definition fetched_account :: "account \<Rightarrow> account_view" where
  "fetched_account a =
    \<lparr>av_balance = js_number (unat (balance a)), av_base = js_number (unat (base (acct_nonce a))),
     av_bitmap = js_number (unat (bitmap (acct_nonce a)))\<rparr>"

definition accountNonceState :: "account_view option \<Rightarrow> nonce_state" where
  "accountNonceState a =
    (case a of
       None \<Rightarrow> emptyNonceState
     | Some a \<Rightarrow> \<lparr>ns_base = int (av_base a), ns_bitmap = int (av_bitmap a)\<rparr>)"

lemma bit_length_le: "n < 2 ^ k \<Longrightarrow> bit_length n \<le> k"
proof (induction k arbitrary: n)
  case (Suc k)
  then have "n div 2 < 2 ^ k" by (simp add: less_mult_imp_div_less mult.commute)
  with Suc.IH show ?case by (subst bit_length.simps) simp
qed (simp add: bit_length.simps)

lemma js_number_exact: "n < 2 ^ 53 \<Longrightarrow> js_number n = n"
  using bit_length_le [of n 53] by (simp add: js_number_def)

lemma fetched_window_exact:
  "unat (base (acct_nonce a)) < 2 ^ 53 \<Longrightarrow> unat (bitmap (acct_nonce a)) < 2 ^ 53 \<Longrightarrow>
    accountNonceState (Some (fetched_account a)) = js_of (acct_nonce a)"
  by (simp add: accountNonceState_def fetched_account_def js_number_exact js_of_def uint_nat del: of_nat_unat)

lemma nonce_new_fields: "base (nonce_new b m) = b" "bitmap (nonce_new b m) = m"
  by (simp_all add: nonce_new_def)

lemma js_of_inj: "js_of s = js_of s' \<longleftrightarrow> s = s'"
  by (cases s; cases s') (simp add: js_of_def word_eq_iff_unsigned [where 'a = int])

lemma js_accepts: "consumeNonce (js_of s) (uint n) = Some (js_of s') \<Longrightarrow> nonce_consume n s = (True, s')"
  unfolding consumeNonce_eq by (auto simp: nonce_consume_def js_of_inj)

lemma lost_step_1: "nonce_consume 1 (nonce_new 0 0) = (True, nonce_new 0 1)"
proof (rule js_accepts)
  have "consumeNonce \<lparr>ns_base = 0, ns_bitmap = 0\<rparr> 1 = Some \<lparr>ns_base = 0, ns_bitmap = 1\<rparr>" by code_simp
  then show "consumeNonce (js_of (nonce_new 0 0)) (uint (1 :: u64)) = Some (js_of (nonce_new 0 1))"
    by (simp add: js_of_def nonce_new_fields)
qed

lemma lost_step_54: "nonce_consume 54 (nonce_new 0 1) = (True, nonce_new 0 9007199254740993)"
proof (rule js_accepts)
  have "consumeNonce \<lparr>ns_base = 0, ns_bitmap = 1\<rparr> 54 = Some \<lparr>ns_base = 0, ns_bitmap = 9007199254740993\<rparr>" by code_simp
  then show "consumeNonce (js_of (nonce_new 0 1)) (uint (54 :: u64)) = Some (js_of (nonce_new 0 9007199254740993))"
    by (simp add: js_of_def nonce_new_fields)
qed

lemma lost_step_0: "nonce_consume 0 (nonce_new 0 9007199254740993) = (True, nonce_new 2 2251799813685248)"
proof (rule js_accepts)
  have "consumeNonce \<lparr>ns_base = 0, ns_bitmap = 9007199254740993\<rparr> 0 = Some \<lparr>ns_base = 2, ns_bitmap = 2251799813685248\<rparr>" by code_simp
  then show "consumeNonce (js_of (nonce_new 0 9007199254740993)) (uint (0 :: u64)) = Some (js_of (nonce_new 2 2251799813685248))"
    by (simp add: js_of_def nonce_new_fields)
qed

lemma lost_refused: "fst (nonce_consume 1 (nonce_new 2 m)) = False"
  by (simp add: nonce_consume_def nonce_new_fields next_nonce_state_def split: option.splits)

lemma lost_bitmap: "js_number 9007199254740993 = 9007199254740992"
  by (simp add: js_number_def bit_length.simps Let_def)

lemma lost_merge:
  "mergeNonceStates emptyNonceState \<lparr>ns_base = 0, ns_bitmap = 9007199254740992\<rparr> =
    \<lparr>ns_base = 0, ns_bitmap = 9007199254740992\<rparr>"
  by code_simp

lemma lost_offer:
  "consumeNonce \<lparr>ns_base = 0, ns_bitmap = 9007199254740992\<rparr> 0 =
    Some \<lparr>ns_base = 1, ns_bitmap = 4503599627370496\<rparr>"
  by code_simp

text \<open>C39: the wallet can lose used nonces on the way: after the chain has accepted the nonces 1 and 54 of an account, the
  bitmap of the account needs 54 bits, and the explorer, which reads it as a JSON number, forgets nonce 1. It then
  offers nonce 0, which the chain accepts, and next nonce 1, which the chain refuses.\<close>

theorem json_window_loses_nonce:
  "\<exists>s w. s = snd (nonce_consume 54 (snd (nonce_consume 1 nonce_default))) \<and>
    fst (nonce_consume 1 nonce_default) \<and> fst (nonce_consume 54 (snd (nonce_consume 1 nonce_default))) \<and>
    mergeNonceStates emptyNonceState
      (accountNonceState (Some (fetched_account \<lparr>balance = 0, acct_nonce = s\<rparr>))) = w \<and>
    nextAvailableNonce w = 0 \<and> fst (nonce_consume 0 s) \<and>
    map_option nextAvailableNonce (consumeNonce w 0) = Some 1 \<and>
    \<not> fst (nonce_consume 1 (snd (nonce_consume 0 s)))"
proof -
  have d: "nonce_default = nonce_new 0 0" by (simp add: nonce_default_def nonce_new_def)
  have "js_number 0 = 0" by (rule js_number_exact) simp
  then have w: "accountNonceState (Some (fetched_account \<lparr>balance = 0, acct_nonce = nonce_new 0 9007199254740993\<rparr>)) =
      \<lparr>ns_base = 0, ns_bitmap = 9007199254740992\<rparr>"
    by (simp add: accountNonceState_def fetched_account_def nonce_new_fields lost_bitmap)
  show ?thesis
    unfolding d lost_step_1 snd_conv fst_conv lost_step_54
    by (rule exI [of _ "nonce_new 0 9007199254740993"])
      (simp add: w lost_merge lost_offer lost_step_0 lost_refused nextAvailableNonce_def)
qed

end
