(* ===== verification/Passkey.thy ===== *)
theory Passkey
  imports Wallet
begin

text \<open>
  How the explorer builds a transaction: the encoder \<open>src/explorer/src/codec.ts\<close> and the passkey signatures and
  stored profiles of \<open>src/explorer/src/wallet.ts\<close>. \<open>crypto.subtle\<close>, the authenticator behind
  \<open>navigator.credentials\<close> and the export of its public key are parameters; \<open>None\<close> is an exception. Shown: hex round
  trips, the account key and the DER signature are read as the chain reads them, and a batch that the wallet builds
  passes the checks of the mempool's endpoint.
\<close>

section \<open>Hex, codec.ts\<close>

definition hex_digit :: "nat \<Rightarrow> char" where
  "hex_digit n = ''0123456789abcdef'' ! n"

definition hex_value :: "char \<Rightarrow> nat option" where
  "hex_value ch =
    (let n = of_char ch in
     if 48 \<le> n \<and> n \<le> 57 then Some (n - 48)
     else if 97 \<le> n \<and> n \<le> 102 then Some (n - 87)
     else if 65 \<le> n \<and> n \<le> 70 then Some (n - 55)
     else None)"

definition is_js_space :: "char \<Rightarrow> bool" where
  "is_js_space ch \<longleftrightarrow> of_char ch \<in> {9, 10, 11, 12, 13, 32, 160 :: nat}"

definition js_trim :: "string \<Rightarrow> string" where
  "js_trim s = rev (dropWhile is_js_space (rev (dropWhile is_js_space s)))"

definition js_lower :: "string \<Rightarrow> string" where
  "js_lower = map (\<lambda>ch. let n = of_char ch in if 65 \<le> n \<and> n \<le> 90 then char_of (n + 32 :: nat) else ch)"

text \<open>The regular expressions \<open>/^0x/i\<close> and \<open>/^[0-9a-f]{n}$/\<close>.\<close>

definition strip_0x :: "string \<Rightarrow> string" where
  "strip_0x s = (case s of a # b # rest \<Rightarrow> if a = CHR ''0'' \<and> b \<in> {CHR ''x'', CHR ''X''} then rest else s | _ \<Rightarrow> s)"

definition is_lower_hex :: "char \<Rightarrow> bool" where
  "is_lower_hex ch \<longleftrightarrow> ch \<in> set ''0123456789abcdef''"

definition toHex :: "bytes \<Rightarrow> string" where
  "toHex bs = concat (map (\<lambda>b. [hex_digit (unat b div 16), hex_digit (unat b mod 16)]) bs)"

text \<open>\<open>Number.parseInt\<close> of two characters in base 16, stored in a byte: white space and a sign are skipped, the prefix
  \<open>0x\<close> is dropped, digits are read as far as they go, and no digit at all is \<open>NaN\<close>, which is stored as zero.\<close>

definition parse_pair :: "char \<Rightarrow> char \<Rightarrow> u8" where
  "parse_pair a b =
    (case (hex_value a, hex_value b) of
       (Some x, Some y) \<Rightarrow> word_of_nat (16 * x + y)
     | (Some x, None) \<Rightarrow> word_of_nat x
     | (None, Some y) \<Rightarrow>
         (if is_js_space a \<or> a = CHR ''+'' then word_of_nat y
          else if a = CHR ''-'' then - word_of_nat y else 0)
     | (None, None) \<Rightarrow> 0)"

fun fromHex :: "string \<Rightarrow> bytes" where
  "fromHex (a # b # rest) = parse_pair a b # fromHex rest"
| "fromHex _ = []"

definition parseAccountKeyHex :: "string \<Rightarrow> bytes option" where
  "parseAccountKeyHex v =
    (let normalized = js_lower (strip_0x (js_trim v)) in
     if \<not> (length normalized = 64 \<and> list_all is_lower_hex normalized) then None
     else Some (fromHex normalized))"

definition parseU64 :: "string \<Rightarrow> int option" where
  "parseU64 v =
    (case parse_nat (js_trim v) of
       None \<Rightarrow> None
     | Some n \<Rightarrow> if max_u64 < int n then None else Some (int n))"

section \<open>Encoding, codec.ts\<close>

record transaction_draft =
  td_sender_public_key :: bytes
  td_to_account_key :: bytes
  td_value :: int
  td_nonce :: int

record encoded_transaction =
  et_digest_hex :: string
  et_bytes :: bytes

fun be_of_int :: "nat \<Rightarrow> int \<Rightarrow> bytes" where
  "be_of_int 0 v = []"
| "be_of_int (Suc k) v = be_of_int k (drop_bit 8 v) @ [word_of_int (v AND 255)]"

definition encodeU64 :: "int \<Rightarrow> bytes option" where
  "encodeU64 v = (if v < 0 \<or> max_u64 < v then None else Some (be_of_int 8 v))"

fun usize_digits :: "nat \<Rightarrow> bytes" where
  "usize_digits n =
    (if 128 \<le> n then (word_of_nat (n mod 128) OR 128) # usize_digits (n div 128) else [word_of_nat n])"

declare usize_digits.simps [simp del]

definition encodeUsize :: "nat \<Rightarrow> bytes option" where
  "encodeUsize n = (if 4294967295 < n then None else Some (usize_digits n))"

definition encodeTransactionBody :: "transaction_draft \<Rightarrow> bytes option" where
  "encodeTransactionBody draft =
    (if length (td_sender_public_key draft) \<noteq> 34 then None
     else if length (td_to_account_key draft) \<noteq> 32 then None
     else
       case (encodeU64 (td_value draft), encodeU64 (td_nonce draft)) of
         (Some v, Some n) \<Rightarrow> Some (td_sender_public_key draft @ td_to_account_key draft @ v @ n)
       | _ \<Rightarrow> None)"

definition encodeSignedTransaction ::
    "(bytes \<Rightarrow> bytes) \<Rightarrow> transaction_draft \<Rightarrow> (bytes \<Rightarrow> bytes option) \<Rightarrow> encoded_transaction option" where
  "encodeSignedTransaction subtle_sha256 draft sign =
    (if td_value draft = 0 then None
     else
       case encodeTransactionBody draft of
         None \<Rightarrow> None
       | Some body \<Rightarrow>
           let dig = subtle_sha256 body in
           map_option (\<lambda>sg. \<lparr>et_digest_hex = toHex dig, et_bytes = body @ sg\<rparr>) (sign dig))"

definition encodeTransactionBatch :: "bytes list \<Rightarrow> bytes option" where
  "encodeTransactionBatch ts = map_option (\<lambda>n. n @ concat ts) (encodeUsize (length ts))"

definition accountKeyFromPublicKey :: "(bytes \<Rightarrow> bytes) \<Rightarrow> bytes \<Rightarrow> bytes option" where
  "accountKeyFromPublicKey subtle_sha256 pk =
    (if length pk \<noteq> 34 then None
     else if hd pk = 0 then Some (take 32 (drop 1 pk))
     else Some (subtle_sha256 pk))"

section \<open>Passkey signatures, wallet.ts\<close>

definition p256_order :: int where
  "p256_order = 0xffffffff00000000ffffffffffffffffbce6faada7179e84f3b9cac2fc632551"

definition compressP256PublicKey :: "bytes \<Rightarrow> bytes" where
  "compressP256PublicKey raw = (if even (unat (raw ! 64)) then 2 else 3) # take 32 (drop 1 raw)"

definition transactionPublicKey :: "bytes \<Rightarrow> bytes option" where
  "transactionPublicKey raw =
    (if length raw \<noteq> 65 \<or> hd raw \<noteq> 4 then None else Some (1 # compressP256PublicKey raw))"

definition encodeTransactionSignature :: "bytes \<Rightarrow> bytes \<Rightarrow> bytes \<Rightarrow> bytes option" where
  "encodeTransactionSignature raw auth json =
    (if length raw \<noteq> 64 then None
     else if 256 < length auth then None
     else if 512 < length json then None
     else Some (1 # raw @ u16_to_be (word_of_nat (length auth)) @ auth @ u16_to_be (word_of_nat (length json)) @ json))"

text \<open>Reading past the end yields \<open>undefined\<close>, which is not the tag 2; when only the length is missing the offset
  becomes \<open>NaN\<close>, and the caller throws at its next read or at its last check.\<close>

definition readDerInteger :: "bytes \<Rightarrow> nat \<Rightarrow> (bytes \<times> nat) option" where
  "readDerInteger signature offset =
    (if length signature \<le> offset + 1 \<or> signature ! offset \<noteq> 2 then None
     else
       let start = offset + 2; fin = start + unat (signature ! (offset + 1)) in
       if length signature < fin then None
       else
         let v = dropWhile (\<lambda>b. b = 0) (take (fin - start) (drop start signature)) in
         if 32 < length v then None else Some (v, fin))"

definition parseDerSignature :: "bytes \<Rightarrow> bytes option" where
  "parseDerSignature signature =
    (if length signature < 8 \<or> hd signature \<noteq> 48 then None
     else
       case (if signature ! 1 AND 128 \<noteq> 0 then (if signature ! 1 AND 127 \<noteq> 1 then None else Some 3) else Some 2) of
         None \<Rightarrow> None
       | Some offset \<Rightarrow>
           (case readDerInteger signature offset of
              None \<Rightarrow> None
            | Some (r, next_offset) \<Rightarrow>
                (case readDerInteger signature next_offset of
                   None \<Rightarrow> None
                 | Some (s, fin) \<Rightarrow>
                     if fin \<noteq> length signature then None
                     else Some (replicate (32 - length r) 0 @ r @ replicate (32 - length s) 0 @ s))))"

definition readBigEndian :: "bytes \<Rightarrow> int" where
  "readBigEndian bs = foldl (\<lambda>v b. push_bit 8 v OR uint b) 0 bs"

definition normalizeP256Signature :: "bytes \<Rightarrow> bytes" where
  "normalizeP256Signature signature =
    (let s = readBigEndian (drop 32 signature) in
     if s \<le> p256_order div 2 then signature
     else take 32 signature @ be_of_int 32 (p256_order - s))"

text \<open>What the authenticator returns for a challenge, given the credentials it may use.\<close>

record assertion =
  pa_credential_id :: string
  pa_signature :: bytes
  pa_authenticator_data :: bytes
  pa_client_data_json :: bytes

type_synonym authenticator = "string list \<Rightarrow> bytes \<Rightarrow> assertion option"

record wallet_profile =
  wp_public_key_hex :: string
  wp_credential_id :: string
  wp_created_at :: int

definition signWithPasskey :: "authenticator \<Rightarrow> wallet_profile \<Rightarrow> bytes \<Rightarrow> bytes option" where
  "signWithPasskey get profile challenge =
    (case get [wp_credential_id profile] challenge of
       None \<Rightarrow> None
     | Some a \<Rightarrow>
         if pa_credential_id a \<noteq> wp_credential_id profile then None
         else case parseDerSignature (pa_signature a) of
           None \<Rightarrow> None
         | Some raw \<Rightarrow>
             encodeTransactionSignature (normalizeP256Signature raw) (pa_authenticator_data a) (pa_client_data_json a))"

section \<open>Stored wallets, wallet.ts\<close>

text \<open>The two entries of the local storage: the profiles, with whatever else was stored under their key dropped when
  they are read, and the session.\<close>

record wallet_storage =
  ws_profiles :: "wallet_profile list"
  ws_session :: "string option"

definition isWalletProfile :: "wallet_profile \<Rightarrow> bool" where
  "isWalletProfile p \<longleftrightarrow>
    length (wp_public_key_hex p) = 68 \<and> list_all (\<lambda>ch. hex_value ch \<noteq> None) (wp_public_key_hex p)"

definition readProfiles :: "wallet_storage \<Rightarrow> wallet_profile list" where
  "readProfiles st = filter isWalletProfile (ws_profiles st)"

definition clearSession :: "wallet_storage \<Rightarrow> wallet_storage" where
  "clearSession st = st\<lparr>ws_session := None\<rparr>"

definition restoreWalletSession :: "wallet_storage \<Rightarrow> wallet_storage \<times> wallet_profile option" where
  "restoreWalletSession st =
    (case ws_session st of
       None \<Rightarrow> (st, None)
     | Some k \<Rightarrow>
         (case find (\<lambda>p. wp_public_key_hex p = k) (readProfiles st) of
            None \<Rightarrow> (clearSession st, None)
          | Some p \<Rightarrow> (st, Some p)))"

text \<open>\<open>created\<close> is the new passkey: its identifier and the raw public key exported from it.\<close>

definition createWallet ::
    "(string \<times> bytes) option \<Rightarrow> int \<Rightarrow> wallet_storage \<Rightarrow> wallet_storage \<times> wallet_profile option" where
  "createWallet created now st =
    (case created of
       None \<Rightarrow> (st, None)
     | Some (credential_id, raw) \<Rightarrow>
         (case transactionPublicKey raw of
            None \<Rightarrow> (st, None)
          | Some pk \<Rightarrow>
              let profile = \<lparr>wp_public_key_hex = toHex pk, wp_credential_id = credential_id, wp_created_at = now\<rparr> in
              (\<lparr>ws_profiles = profile # filter (\<lambda>p. wp_public_key_hex p \<noteq> toHex pk) (readProfiles st),
                ws_session = Some (toHex pk)\<rparr>, Some profile)))"

definition signInWithPasskey ::
    "authenticator \<Rightarrow> bytes \<Rightarrow> wallet_storage \<Rightarrow> wallet_storage \<times> wallet_profile option" where
  "signInWithPasskey get challenge st =
    (let profiles = readProfiles st in
     if profiles = [] then (st, None)
     else case get (map wp_credential_id profiles) challenge of
       None \<Rightarrow> (st, None)
     | Some a \<Rightarrow>
         (case find (\<lambda>p. wp_credential_id p = pa_credential_id a) profiles of
            None \<Rightarrow> (st, None)
          | Some p \<Rightarrow> (st\<lparr>ws_session := Some (wp_public_key_hex p)\<rparr>, Some p)))"

section \<open>Hex round trips\<close>

lemma hex_value_digit: "n < 16 \<Longrightarrow> hex_value (hex_digit n) = Some n"
proof -
  have "\<forall>n \<in> set [0..<16]. hex_value (hex_digit n) = Some n" by code_simp
  then show "n < 16 \<Longrightarrow> ?thesis" by simp
qed

lemma hex_digit_lower: "n < 16 \<Longrightarrow> is_lower_hex (hex_digit n)"
  unfolding is_lower_hex_def hex_digit_def by (rule nth_mem) simp

lemma from_to_hex [simp]: "fromHex (toHex bs) = bs"
proof (induction bs)
  case (Cons b bs)
  have "unat b < 256" using unsigned_less [of b] by simp
  then have "unat b div 16 < 16" by (simp add: less_mult_imp_div_less)
  then have "parse_pair (hex_digit (unat b div 16)) (hex_digit (unat b mod 16)) = b"
    by (simp add: parse_pair_def hex_value_digit mult.commute [of 16])
  with Cons show ?case by (simp add: toHex_def)
qed (simp add: toHex_def)

lemma length_toHex [simp]: "length (toHex bs) = 2 * length bs"
  by (induction bs) (simp_all add: toHex_def)

lemma toHex_digits: "list_all (\<lambda>ch. \<exists>n < 16. ch = hex_digit n) (toHex bs)"
proof (induction bs)
  case (Cons b bs)
  have "unat b < 256" using unsigned_less [of b] by simp
  then have "unat b div 16 < 16" by (simp add: less_mult_imp_div_less)
  then have "\<exists>n < 16. hex_digit (unat b div 16) = hex_digit n" "\<exists>n < 16. hex_digit (unat b mod 16) = hex_digit n"
    by (blast, intro exI [of _ "unat b mod 16"], simp)
  with Cons show ?case by (simp add: toHex_def)
qed (simp add: toHex_def)

lemma hex_digit_plain:
  assumes "n < 16"
  shows "\<not> is_js_space (hex_digit n)" "js_lower [hex_digit n] = [hex_digit n]" "hex_digit n \<noteq> CHR ''x''"
    "hex_digit n \<noteq> CHR ''X''"
proof -
  have "\<forall>n \<in> set [0..<16]. \<not> is_js_space (hex_digit n) \<and> js_lower [hex_digit n] = [hex_digit n] \<and>
    hex_digit n \<noteq> CHR ''x'' \<and> hex_digit n \<noteq> CHR ''X''" by code_simp
  then show "\<not> is_js_space (hex_digit n)" "js_lower [hex_digit n] = [hex_digit n]" "hex_digit n \<noteq> CHR ''x''"
    "hex_digit n \<noteq> CHR ''X''" using assms by simp_all
qed

lemma plain_trim: "list_all (\<lambda>ch. \<not> is_js_space ch) s \<Longrightarrow> js_trim s = s"
proof -
  assume a: "list_all (\<lambda>ch. \<not> is_js_space ch) s"
  have "dropWhile is_js_space t = t" if "list_all (\<lambda>ch. \<not> is_js_space ch) t" for t using that by (cases t) auto
  with a show ?thesis by (simp add: js_trim_def)
qed

lemma parse_account_key_hex:
  assumes "length k = 32"
  shows "parseAccountKeyHex (toHex k) = Some k"
proof -
  have d: "\<exists>n < 16. ch = hex_digit n" if "ch \<in> set (toHex k)" for ch
    using toHex_digits [of k] that by (auto simp: list_all_iff)
  have "js_trim (toHex k) = toHex k" using d hex_digit_plain(1) by (intro plain_trim) (auto simp: list_all_iff)
  moreover have "strip_0x (toHex k) = toHex k"
    using d hex_digit_plain(3,4) by (fastforce simp: strip_0x_def split: list.splits)
  moreover have "js_lower (toHex k) = toHex k"
    unfolding js_lower_def using d hex_digit_plain(2) by (intro map_idI) (auto simp: js_lower_def)
  moreover have "list_all is_lower_hex (toHex k)" using d hex_digit_lower by (auto simp: list_all_iff)
  ultimately show ?thesis using assms by (simp add: parseAccountKeyHex_def Let_def)
qed

section \<open>Stored wallets\<close>

lemma hex_profile: "length pk = 34 \<Longrightarrow> isWalletProfile \<lparr>wp_public_key_hex = toHex pk, wp_credential_id = i, wp_created_at = now\<rparr>"
  using toHex_digits [of pk] hex_value_digit by (auto simp: isWalletProfile_def list_all_iff)

text \<open>A wallet that was just created is the one that the next visit restores, it replaces an older profile of the same
  key, and profiles stay unique by key.\<close>

lemma created_wallet_restores:
  assumes "createWallet created now st = (st', Some p)"
  shows "restoreWalletSession st' = (st', Some p)"
    and "distinct (map wp_public_key_hex (readProfiles st)) \<Longrightarrow> distinct (map wp_public_key_hex (readProfiles st'))"
proof -
  obtain i raw pk where pk: "transactionPublicKey raw = Some pk"
    and p: "p = \<lparr>wp_public_key_hex = toHex pk, wp_credential_id = i, wp_created_at = now\<rparr>"
    and st': "ws_profiles st' = p # filter (\<lambda>q. wp_public_key_hex q \<noteq> toHex pk) (readProfiles st)"
      "ws_session st' = Some (toHex pk)"
    using assms by (auto simp: createWallet_def Let_def split: option.splits)
  have "length pk = 34"
    using pk by (auto simp: transactionPublicKey_def compressP256PublicKey_def split: if_splits)
  then have "isWalletProfile p" unfolding p by (rule hex_profile)
  then have r: "readProfiles st' = p # filter (\<lambda>q. wp_public_key_hex q \<noteq> toHex pk) (readProfiles st)"
    unfolding readProfiles_def [of st'] st' by (auto simp: readProfiles_def intro!: filter_cong)
  then show "restoreWalletSession st' = (st', Some p)" by (simp add: restoreWalletSession_def st' p)
  show "distinct (map wp_public_key_hex (readProfiles st'))" if "distinct (map wp_public_key_hex (readProfiles st))"
    using that by (auto simp: r p distinct_map_filter)
qed

section \<open>The chain's encoding\<close>

lemma be_of_int_nat: "be_of_int k (int n) = nat_to_be k n"
proof (induction k arbitrary: n)
  case (Suc k)
  have "drop_bit 8 (int n) = int (n div 256)" by (simp add: drop_bit_eq_div zdiv_int)
  moreover have "(word_of_int (int n AND 255) :: u8) = word_of_nat n"
  proof -
    have "int n AND 255 = take_bit 8 (int n)" by (simp add: take_bit_eq_mask mask_eq_exp_minus_1)
    moreover have "(word_of_int (take_bit 8 (int n)) :: u8) = word_of_int (int n)" unfolding word_of_int_eq_iff by simp
    ultimately show ?thesis by simp
  qed
  ultimately show ?case using Suc by simp
qed simp

lemma encodeU64_uint: "encodeU64 (uint x) = Some (u64_to_be x)"
  using uint_bound [of x] by (simp add: encodeU64_def u64_to_be_def uint_nat be_of_int_nat del: of_nat_unat)

lemma small_and_128: "m < 128 \<Longrightarrow> (word_of_nat m AND 128 :: u8) = 0"
proof -
  assume "m < 128"
  then have "unat (word_of_nat m :: u8) = m" "\<not> bit m 7" by (simp_all add: unat_of_nat bit_iff_odd)
  then have "\<not> bit (word_of_nat m :: u8) 7" by (metis bit_unsigned_iff possible_bit_nat)
  then show ?thesis using and_exp_eq_0_iff_not_bit [of "word_of_nat m :: u8" 7] by simp
qed

lemma usize_digits_eq: "n < 128 * 128 ^ k \<Longrightarrow> usize_digits n = varint_digits k n"
proof (induction k arbitrary: n)
  case 0
  then show ?case by (subst usize_digits.simps) simp
next
  case (Suc k)
  have "n div 128 < 128 * 128 ^ k" using Suc.prems by (intro less_mult_imp_div_less) (simp only: power_Suc ac_simps)
  note IH = Suc.IH [OF this]
  have "(word_of_nat (n mod 128) OR 128 :: u8) = word_of_nat (128 + n mod 128)"
  proof -
    define m where "m = n mod 128"
    have "m < 128" by (simp add: m_def)
    from small_and_128 [OF this] have "(word_of_nat m OR 128 :: u8) = word_of_nat m + 128" by (simp add: disjunctive_add_eq_or)
    then show ?thesis by (simp add: m_def add.commute)
  qed
  with IH show ?case by (subst usize_digits.simps) simp
qed

lemma encodeUsize_eq: "n < 2 ^ 32 \<Longrightarrow> encodeUsize n = Some (varint_digits 4 n)"
  using usize_digits_eq [of n 4] by (simp add: encodeUsize_def del: varint_digits.simps)

text \<open>Both sides derive the same account from a public key of a known scheme.\<close>

lemma account_key_agrees:
  assumes "length pk = 34" "hd pk = ed25519_scheme \<or> hd pk = secp256r1_scheme"
  shows "accountKeyFromPublicKey sha pk = account_key_from_public_key_bytes sha pk"
  using assms by (auto simp: accountKeyFromPublicKey_def account_key_from_public_key_bytes_def public_key_size_def
      account_key_size_def ed25519_scheme_def)

section \<open>DER signatures\<close>

text \<open>The encoding that an authenticator returns: minimal big-endian integers, with a zero in front when the first bit
  is set, in a sequence.\<close>

definition be_min :: "nat \<Rightarrow> bytes" where
  "be_min n = dropWhile (\<lambda>b. b = 0) (nat_to_be 32 n)"

definition der_body :: "nat \<Rightarrow> bytes" where
  "der_body n = (if be_min n = [] \<or> 128 \<le> hd (be_min n) then 0 # be_min n else be_min n)"

definition der_integer :: "nat \<Rightarrow> bytes" where
  "der_integer n = 2 # word_of_nat (length (der_body n)) # der_body n"

definition der_signature :: "nat \<Rightarrow> nat \<Rightarrow> bytes" where
  "der_signature r s = 48 # word_of_nat (length (der_integer r @ der_integer s)) # der_integer r @ der_integer s"

lemma length_be_min: "length (be_min n) \<le> 32"
  using length_dropWhile_le [of "\<lambda>b. b = 0" "nat_to_be 32 n"] unfolding be_min_def length_nat_to_be .

lemma be_min_idem: "dropWhile (\<lambda>b. b = 0) (be_min n) = be_min n"
  by (simp add: be_min_def)

lemma der_body_drop: "dropWhile (\<lambda>b. b = 0) (der_body n) = be_min n"
  by (simp add: der_body_def be_min_idem)

lemma length_der_body: "1 \<le> length (der_body n) \<and> length (der_body n) \<le> 33"
  using length_be_min [of n] by (auto simp: der_body_def Suc_le_eq)

lemma pad_zeros:
  "length xs = k \<Longrightarrow> replicate (k - length (dropWhile (\<lambda>b. b = 0) xs)) 0 @ dropWhile (\<lambda>b. b = 0) xs = (xs :: bytes)"
proof -
  assume l: "length xs = k"
  have "takeWhile (\<lambda>b. b = 0) xs = replicate (length (takeWhile (\<lambda>b. b = 0) xs)) 0"
    by (rule replicate_eqI) (auto dest: set_takeWhileD)
  moreover have "length (takeWhile (\<lambda>b. b = 0) xs) = k - length (dropWhile (\<lambda>b. b = 0) xs)"
    using length_append [of "takeWhile (\<lambda>b. b = 0) xs" "dropWhile (\<lambda>b. b = 0) xs"] l
    unfolding takeWhile_dropWhile_id by linarith
  ultimately show ?thesis by (metis takeWhile_dropWhile_id)
qed

lemma pad_be_min: "replicate (32 - length (be_min n)) 0 @ be_min n = nat_to_be 32 n"
  unfolding be_min_def by (rule pad_zeros) (rule length_nat_to_be)

lemma read_der_integer:
  assumes "offset = length pre" "fin = length pre + length (der_integer n)"
  shows "readDerInteger (pre @ der_integer n @ post) offset = Some (be_min n, fin)"
proof -
  let ?b = "der_body n"
  have u: "unat (word_of_nat (length ?b) :: u8) = length ?b" using length_der_body [of n] by (simp add: unat_of_nat)
  have n: "(pre @ der_integer n @ post) ! length pre = 2"
    "(pre @ der_integer n @ post) ! (length pre + 1) = word_of_nat (length ?b)"
    by (simp_all add: der_integer_def nth_append)
  have d: "drop (length pre + 2) (pre @ der_integer n @ post) = ?b @ post" by (simp add: der_integer_def)
  show ?thesis
    unfolding readDerInteger_def assms n d Let_def u
    using length_be_min [of n] by (simp add: der_integer_def der_body_drop)
qed

lemma parse_der_signature: "parseDerSignature (der_signature r s) = Some (nat_to_be 32 r @ nat_to_be 32 s)"
proof -
  define l where "l = length (der_integer r @ der_integer s)"
  have l: "6 \<le> l" "l \<le> 70"
    using length_der_body [of r] length_der_body [of s] by (auto simp: l_def der_integer_def)
  have ll: "length (der_integer r) + length (der_integer s) = l" by (simp add: l_def)
  have sg: "der_signature r s = [48, word_of_nat l] @ der_integer r @ der_integer s"
    by (simp add: der_signature_def l_def)
  have "(word_of_nat l AND 128 :: u8) = 0" using l by (intro small_and_128) simp
  moreover have "readDerInteger (der_signature r s) 2 = Some (be_min r, 2 + length (der_integer r))"
    unfolding sg by (rule read_der_integer) simp_all
  moreover have "readDerInteger (([48, word_of_nat l] @ der_integer r) @ der_integer s @ []) (2 + length (der_integer r)) =
      Some (be_min s, 2 + l)"
    by (rule read_der_integer) (simp_all add: l_def)
  ultimately show ?thesis
    using l pad_be_min [of r] pad_be_min [of s]
    by (simp add: parseDerSignature_def sg ll)
qed

lemma readBigEndian_eq: "readBigEndian bs = int (be_to_nat bs)"
proof (induction bs rule: rev_induct)
  case (snoc b bs)
  have "(push_bit 8 v :: int) AND uint b = 0" for v
  proof (rule bit_eqI)
    fix n
    show "bit ((push_bit 8 v :: int) AND uint b) n \<longleftrightarrow> bit (0 :: int) n"
      by (auto simp: bit_and_iff bit_push_bit_iff bit_uint_iff)
  qed
  then have "push_bit 8 v OR uint b = v * 256 + uint b" for v
    by (simp add: disjunctive_add_eq_or [symmetric] push_bit_eq_mult)
  with snoc show ?case by (simp add: readBigEndian_def be_to_nat_snoc)
qed (simp add: readBigEndian_def be_to_nat_def)

definition low_s :: "nat \<Rightarrow> nat" where
  "low_s s = (if int s \<le> p256_order div 2 then s else nat (p256_order - int s))"

lemma low_s_bounds: "0 < s \<Longrightarrow> int s < p256_order \<Longrightarrow> 0 < low_s s \<and> int (low_s s) \<le> p256_order div 2"
  unfolding low_s_def p256_order_def by auto

lemma normalize_signature:
  assumes "int s < p256_order"
  shows "normalizeP256Signature (nat_to_be 32 r @ nat_to_be 32 s) = nat_to_be 32 r @ nat_to_be 32 (low_s s)"
proof -
  have "s < 256 ^ 32" using assms unfolding p256_order_def by simp
  then have r: "readBigEndian (nat_to_be 32 s) = int s" by (simp add: readBigEndian_eq be_to_nat_nat_to_be)
  have "be_of_int 32 (p256_order - int s) = nat_to_be 32 (nat (p256_order - int s))"
    using assms be_of_int_nat [of 32 "nat (p256_order - int s)"] by simp
  with r show ?thesis by (simp add: normalizeP256Signature_def low_s_def Let_def)
qed

section \<open>What the wallet relies on\<close>

text \<open>\<open>ecdsa\<close> is signature validity: negating \<open>s\<close> keeps it, and the chain's library reads and accepts a valid pair
  in the low half. The authenticator answers a challenge for the credential with a valid signature over its data, with
  the user verified and the challenge in the client data. The chain's length prefix is a base-128 number.\<close>

definition p256_law :: "'x crypto_scheme \<Rightarrow> (bytes \<Rightarrow> bytes \<Rightarrow> nat \<Rightarrow> nat \<Rightarrow> bool) \<Rightarrow> bool" where
  "p256_law c ecdsa \<longleftrightarrow>
    (\<forall>k m r s. ecdsa k m r s \<longrightarrow> 0 < s \<longrightarrow> int s < p256_order \<longrightarrow> ecdsa k m r (nat (p256_order - int s))) \<and>
    (\<forall>k m r s. p256_key c k \<longrightarrow> ecdsa k m r s \<longrightarrow> 0 < s \<longrightarrow> int s \<le> p256_order div 2 \<longrightarrow>
      r1_sig_read c (nat_to_be 32 r @ nat_to_be 32 s) = Ok (nat_to_be 32 r @ nat_to_be 32 s, []) \<and>
      p256_sig c (nat_to_be 32 r @ nat_to_be 32 s) \<and> p256_verify c k m (nat_to_be 32 r @ nat_to_be 32 s))"

definition assertion_ok :: "'x crypto_scheme \<Rightarrow> (bytes \<Rightarrow> bytes \<Rightarrow> nat \<Rightarrow> nat \<Rightarrow> bool) \<Rightarrow> bytes \<Rightarrow> bytes \<Rightarrow> assertion \<Rightarrow> bool" where
  "assertion_ok c ecdsa key challenge a \<longleftrightarrow>
    37 \<le> length (pa_authenticator_data a) \<and> length (pa_authenticator_data a) \<le> 256 \<and>
    pa_authenticator_data a ! 32 AND webauthn_user_verified_flag \<noteq> 0 \<and> length (pa_client_data_json a) \<le> 512 \<and>
    (\<exists>fields. json_str c (pa_client_data_json a) = Some fields \<and> fields ''type'' = Some ''webauthn.get'' \<and>
      fields ''challenge'' = Some (base64_url_no_pad challenge)) \<and>
    (\<exists>r s. pa_signature a = der_signature r s \<and> 0 < s \<and> int s < p256_order \<and>
      ecdsa key (pa_authenticator_data a @ sha256 c (pa_client_data_json a)) r s)"

definition passkey_ok ::
    "'x crypto_scheme \<Rightarrow> (bytes \<Rightarrow> bytes \<Rightarrow> nat \<Rightarrow> nat \<Rightarrow> bool) \<Rightarrow> bytes \<Rightarrow> string \<Rightarrow> authenticator \<Rightarrow> bool" where
  "passkey_ok c ecdsa key credential_id get \<longleftrightarrow>
    r1_pk_read c key = Ok (key, []) \<and> p256_key c key \<and>
    (\<forall>challenge. length challenge = 32 \<longrightarrow>
      (\<exists>a. get [credential_id] challenge = Some a \<and> pa_credential_id a = credential_id \<and>
        assertion_ok c ecdsa key challenge a))"

definition base128_lengths :: "'x codec_scheme \<Rightarrow> bool" where
  "base128_lengths c \<longleftrightarrow> (\<forall>n < 2 ^ 32. write_len c n = varint_digits 4 n)"

lemma passkey_signature:
  assumes "p256_law c ecdsa" "passkey_ok c ecdsa key (wp_credential_id profile) get" "crypto_ok c" "length challenge = 32"
  obtains sg where "signWithPasskey get profile challenge = Some (sig_write sg)" "sig_wf c sg"
    "signature_valid c ns challenge (pk_secp256r1 key) sg"
proof -
  obtain a where a: "get [wp_credential_id profile] challenge = Some a" "pa_credential_id a = wp_credential_id profile"
    and ok: "assertion_ok c ecdsa key challenge a"
    using assms(2,4) unfolding passkey_ok_def by blast
  obtain r s where rs: "pa_signature a = der_signature r s" "0 < s" "int s < p256_order"
    "ecdsa key (pa_authenticator_data a @ sha256 c (pa_client_data_json a)) r s"
    using ok unfolding assertion_ok_def by blast
  define raw where "raw = nat_to_be 32 r @ nat_to_be 32 (low_s s)"
  define sg where "sg = SigSecp256r1 raw (pa_authenticator_data a) (pa_client_data_json a)
    (webauthn_encoded c raw (pa_authenticator_data a) (pa_client_data_json a))"
  have "ecdsa key (pa_authenticator_data a @ sha256 c (pa_client_data_json a)) r (low_s s)"
    using assms(1) rs unfolding p256_law_def low_s_def by simp
  moreover have "p256_key c key" using assms(2) by (simp add: passkey_ok_def)
  ultimately have raw: "r1_sig_read c raw = Ok (raw, [])" "p256_sig c raw"
    "p256_verify c key (pa_authenticator_data a @ sha256 c (pa_client_data_json a)) raw"
    using assms(1) low_s_bounds [OF rs(2,3)] unfolding p256_law_def raw_def by blast+
  have "parseDerSignature (pa_signature a) = Some (nat_to_be 32 r @ nat_to_be 32 s)"
    unfolding rs(1) by (rule parse_der_signature)
  moreover have "length raw = 64" by (simp add: raw_def)
  ultimately have "signWithPasskey get profile challenge = Some (sig_write sg)"
    using ok a assms(3) normalize_signature [OF rs(3), of r]
    by (simp add: signWithPasskey_def raw_def [symmetric] encodeTransactionSignature_def sg_def sig_write_def
        webauthn_encoded_def secp256r1_scheme_def assertion_ok_def write_u16_eq)
  moreover have "sig_wf c sg"
    using ok raw(1) by (simp add: sig_wf_def sg_def assertion_ok_def webauthn_authenticator_data_bytes_def
        webauthn_client_data_json_bytes_def)
  moreover have "signature_valid c ns challenge (pk_secp256r1 key) sg"
    using ok raw(2,3) \<open>p256_key c key\<close>
    by (auto simp: signature_valid_def pk_secp256r1_def sg_def verify_webauthn_assertion_def assertion_ok_def
        verify_raw_secp256r1_def)
  ultimately show thesis using that by blast
qed

lemma encode_draft:
  assumes "length pk = 34" "length to_key = 32" "v \<noteq> 0" "codec_ok c" "sign (sha (transaction_write c t)) = Some sg"
    and "t = \<lparr>tx_sender = pk, tx_to = to_key, tx_value = v, tx_nonce = n\<rparr>"
  shows "encodeSignedTransaction sha \<lparr>td_sender_public_key = pk, td_to_account_key = to_key, td_value = uint v,
      td_nonce = uint n\<rparr> sign =
    Some \<lparr>et_digest_hex = toHex (sha (transaction_write c t)), et_bytes = transaction_write c t @ sg\<rparr>"
proof -
  have "transaction_write c t = pk @ to_key @ u64_to_be v @ u64_to_be n"
    using assms(4,6) by (simp add: transaction_write_def account_key_write_def write_u64_eq)
  with assms show ?thesis
    by (simp add: encodeSignedTransaction_def encodeTransactionBody_def encodeU64_uint Let_def uint_0_iff)
qed

lemma transactionPublicKey_eq:
  assumes "transactionPublicKey raw = Some pk"
  shows "pk = pk_write (pk_secp256r1 (compressP256PublicKey raw))" "length pk = 34"
  using assms by (auto simp: transactionPublicKey_def pk_write_def pk_secp256r1_def secp256r1_scheme_def
      compressP256PublicKey_def split: if_splits)

section \<open>What the wallet sends is accepted\<close>

lemma webauthn_batch_verifies:
  assumes "tx_env_ok c" "http_lib_ok c lib" "transaction_wf tx" "r1_pk_read c key = Ok (key, [])"
    and "tx_sender tx = pk_write (pk_secp256r1 key)" "sig_wf c sg"
    and "signature_valid c (as_namespace st) (hash c (transaction_write c tx)) (pk_secp256r1 key) sg"
    and "transaction_size + signature_max_size \<le> max_batch_bytes st"
    and t: "t = signed_transaction_new_unchecked (transaction_seal c tx) sg"
  shows "verify_body c lib st rng False (write_len c 1 @ signed_transaction_write c t) =
    Ok \<lparr>vb_transactions = [t], vb_digests = [message_digest t], vb_total_bytes = total_bytes_for [t]\<rparr>"
proof -
  have cr: "crypto_ok c" and co: "codec_ok c" using assms(1) by simp_all
  have sel: "st_value t = tx" "message_digest t = hash c (transaction_write c tx)" "st_signature t = sg"
    by (simp_all add: t signed_transaction_new_unchecked_def transaction_seal_def sealed_new_unchecked_def
        message_digest_def transaction_hash_slow_def)
  have wf: "signed_transaction_wf c t"
    using assms(3,6) by (simp add: signed_transaction_wf_def sel transaction_hash_slow_def)
  have "pk_wf c (pk_secp256r1 key)" using assms(4) by (rule pk_wf_constructors)
  then have "pk_read c (tx_sender tx) = Ok (pk_secp256r1 key, [])"
    using pk_read_write [OF cr, of _ "[]"] assms(5) by simp
  then have "transaction_sender c tx = Some (pk_secp256r1 key)"
    using assms(1) unfolding transaction_sender_def tx_env_ok_def by simp
  then have valid: "lazy_valid c (as_namespace st) (lazy_new t)"
    using assms(7) by (simp add: lazy_valid_def lazy_get_def lazy_new_def sel)
  note size = signed_transaction_size [OF assms(1) wf, unfolded lazy_max_encoded_size_def]
  have "length (write_len c 1 @ signed_transaction_write c t) \<le> usize_max"
    using length_write_len [OF co, of 1] size(1,3)
    by (simp add: transaction_size_def signature_max_size_def usize_max_def public_key_size_def account_key_size_def
        signature_bytes_def webauthn_authenticator_data_bytes_def webauthn_client_data_json_bytes_def)
  then show ?thesis
    using verify_body_complete [OF assms(1,2), of "[t]" st "write_len c 1 @ signed_transaction_write c t" rng]
      wf valid size(3) assms(8) by (simp add: total_bytes_for_def)
qed

text \<open>C40: the wallet and the mempool speak the same format end to end. A wallet that was created from a P-256 passkey
  encodes any transfer of a non-zero value and has its digest signed by the authenticator; the batch it then posts is
  decoded by the mempool's endpoint to exactly this transfer, from the account of the passkey, the WebAuthn signature
  is accepted, and the digest that the wallet shows is the digest by which the chain knows the transaction.\<close>

theorem wallet_batch_accepted:
  assumes "tx_env_ok c" "http_lib_ok c lib" "base128_lengths c" "hash c = subtle_sha256"
    and "\<forall>bs. length (subtle_sha256 bs) = 32"
    and "transactionPublicKey raw = Some pk" "wp_public_key_hex profile = toHex pk"
    and "p256_law c ecdsa" "passkey_ok c ecdsa (compressP256PublicKey raw) (wp_credential_id profile) get"
    and "length to_key = 32" "v \<noteq> 0" "transaction_size + signature_max_size \<le> max_batch_bytes st"
  shows "\<exists>e body t.
    encodeSignedTransaction subtle_sha256
      \<lparr>td_sender_public_key = fromHex (wp_public_key_hex profile), td_to_account_key = to_key,
       td_value = uint (v :: u64), td_nonce = uint (n :: u64)\<rparr> (signWithPasskey get profile) = Some e \<and>
    encodeTransactionBatch [et_bytes e] = Some body \<and>
    verify_body c lib st rng False body =
      Ok \<lparr>vb_transactions = [t], vb_digests = [message_digest t], vb_total_bytes = total_bytes_for [t]\<rparr> \<and>
    st_value t = \<lparr>tx_sender = pk, tx_to = to_key, tx_value = v, tx_nonce = n\<rparr> \<and>
    et_digest_hex e = toHex (message_digest t)"
proof -
  let ?key = "compressP256PublicKey raw"
  define tx where "tx = \<lparr>tx_sender = pk, tx_to = to_key, tx_value = v, tx_nonce = n\<rparr>"
  note pk = transactionPublicKey_eq [OF assms(6)]
  have cr: "crypto_ok c" and co: "codec_ok c" using assms(1) by simp_all
  have "length (hash c (transaction_write c tx)) = 32" using assms(4,5) by simp
  from passkey_signature [OF assms(8,9) cr this, where ns = "as_namespace st"]
  obtain sg where sg: "signWithPasskey get profile (hash c (transaction_write c tx)) = Some (sig_write sg)"
    "sig_wf c sg" "signature_valid c (as_namespace st) (hash c (transaction_write c tx)) (pk_secp256r1 ?key) sg"
    by blast
  define t where "t = signed_transaction_new_unchecked (transaction_seal c tx) sg"
  have t: "st_value t = tx" "message_digest t = hash c (transaction_write c tx)"
    "signed_transaction_write c t = transaction_write c tx @ sig_write sg"
    by (simp_all add: t_def signed_transaction_new_unchecked_def transaction_seal_def sealed_new_unchecked_def
        message_digest_def transaction_hash_slow_def signed_transaction_write_def sealed_write_def)
  have "transaction_wf tx" "tx_sender tx = pk_write (pk_secp256r1 ?key)" "r1_pk_read c ?key = Ok (?key, [])"
    using pk assms(9,10,11) by (simp_all add: transaction_wf_def tx_def public_key_size_def account_key_wf_def
        account_key_size_def passkey_ok_def)
  then have ok: "verify_body c lib st rng False (write_len c 1 @ signed_transaction_write c t) =
      Ok \<lparr>vb_transactions = [t], vb_digests = [message_digest t], vb_total_bytes = total_bytes_for [t]\<rparr>"
    using webauthn_batch_verifies [OF assms(1,2) _ _ _ sg(2,3) assms(12) t_def] by blast
  have e: "encodeSignedTransaction subtle_sha256
      \<lparr>td_sender_public_key = fromHex (wp_public_key_hex profile), td_to_account_key = to_key,
       td_value = uint v, td_nonce = uint n\<rparr> (signWithPasskey get profile) =
    Some \<lparr>et_digest_hex = toHex (message_digest t), et_bytes = signed_transaction_write c t\<rparr>"
    using encode_draft [OF pk(2) assms(10,11) co _ tx_def, of "signWithPasskey get profile" subtle_sha256 "sig_write sg"] sg(1)
    by (simp add: assms(7) t assms(4))
  have "encodeTransactionBatch [signed_transaction_write c t] = Some (write_len c 1 @ signed_transaction_write c t)"
    using assms(3) encodeUsize_eq [of 1] by (simp add: encodeTransactionBatch_def base128_lengths_def)
  with e ok t(1) show ?thesis unfolding tx_def by auto
qed

text \<open>An authenticator in the example environment: its client data is the encoded challenge itself.\<close>

definition demo_authenticator :: authenticator where
  "demo_authenticator allowed challenge =
    Some \<lparr>pa_credential_id = hd allowed, pa_signature = der_signature 5 7, pa_authenticator_data = replicate 37 4,
      pa_client_data_json = map (\<lambda>ch. word_of_nat (of_char ch)) (base64_url_no_pad challenge)\<rparr>"

lemma length_base64: "length (base64_url_no_pad bs) \<le> 2 * length bs"
  by (induction bs rule: base64_url_no_pad.induct) auto

lemma demo_passkey:
  assumes "length key = 33"
  shows "p256_law demo_env (\<lambda>_ _ _ _. True)" "passkey_ok demo_env (\<lambda>_ _ _ _. True) key cred demo_authenticator"
proof -
  have env: "p256_key demo_env k" "p256_sig demo_env x" "p256_verify demo_env k m x"
    "json_str demo_env j = Some (\<lambda>k. if k = ''type'' then Some ''webauthn.get''
        else if k = ''challenge'' then Some (map (\<lambda>b. char_of (unat b)) j) else None)" for k x m j
    by (simp_all add: demo_env_def crypto.extend_def tx_env.fields_def demo_crypto_def)
  show "p256_law demo_env (\<lambda>_ _ _ _. True)" by (simp add: p256_law_def env take_bytes_def)
  have "map (\<lambda>b :: u8. char_of (unat b)) (map (\<lambda>ch. word_of_nat (of_char ch)) s) = s" for s
    by (induction s) (simp_all add: unat_of_nat)
  moreover have "length (base64_url_no_pad challenge) \<le> 512" if "length challenge = 32" for challenge :: bytes
    using length_base64 [of challenge] that by simp
  moreover have "(4 :: u8) AND webauthn_user_verified_flag \<noteq> 0" by (simp add: webauthn_user_verified_flag_def)
  moreover have "\<exists>r s. der_signature 5 7 = der_signature r s \<and> 0 < s \<and> int s < p256_order"
    by (rule exI [of _ 5], rule exI [of _ 7]) (simp add: p256_order_def)
  ultimately show "passkey_ok demo_env (\<lambda>_ _ _ _. True) key cred demo_authenticator"
    using assms by (simp add: passkey_ok_def assertion_ok_def env demo_authenticator_def take_bytes_def)
qed

theorem wallet_batch_accepted_witness:
  "\<exists>e body t.
    encodeSignedTransaction (hash demo_env)
      \<lparr>td_sender_public_key = 1 # 2 # replicate 32 6, td_to_account_key = replicate 32 9,
       td_value = 50, td_nonce = 3\<rparr>
      (signWithPasskey demo_authenticator
        \<lparr>wp_public_key_hex = toHex (1 # 2 # replicate 32 6), wp_credential_id = ''k'', wp_created_at = 0\<rparr>) = Some e \<and>
    encodeTransactionBatch [et_bytes e] = Some body \<and>
    verify_body demo_env demo_lib (demo_app\<lparr>max_batch_bytes := 2000\<rparr>) 0 False body =
      Ok \<lparr>vb_transactions = [t], vb_digests = [message_digest t], vb_total_bytes = total_bytes_for [t]\<rparr>"
proof -
  let ?raw = "4 # replicate 64 6 :: bytes"
  let ?p = "\<lparr>wp_public_key_hex = toHex (1 # 2 # replicate 32 6), wp_credential_id = ''k'', wp_created_at = 0\<rparr>"
  have c: "compressP256PublicKey ?raw = 2 # replicate 32 6"
    by (simp add: compressP256PublicKey_def nth_Cons')
  have pk: "transactionPublicKey ?raw = Some (1 # 2 # replicate 32 6)" by (simp add: transactionPublicKey_def c)
  have "base128_lengths demo_env" by (simp add: base128_lengths_def be_codec_def)
  moreover have "\<forall>bs. length (hash demo_env bs) = 32" by (auto simp: min_def)
  moreover have "passkey_ok demo_env (\<lambda>_ _ _ _. True) (compressP256PublicKey ?raw) (wp_credential_id ?p) demo_authenticator"
    unfolding c by (rule demo_passkey) simp
  moreover have "transaction_size + signature_max_size \<le> max_batch_bytes (demo_app\<lparr>max_batch_bytes := 2000\<rparr>)"
    by (simp add: transaction_size_def signature_max_size_def public_key_size_def account_key_size_def
        signature_bytes_def webauthn_authenticator_data_bytes_def webauthn_client_data_json_bytes_def)
  ultimately show ?thesis
    using wallet_batch_accepted [OF tx_env_ok_demo http_lib_ok_demo _ refl _ pk, where profile = ?p
        and ecdsa = "\<lambda>_ _ _ _. True" and get = demo_authenticator and to_key = "replicate 32 9" and v = 50 and n = 3
        and st = "demo_app\<lparr>max_batch_bytes := 2000\<rparr>" and rng = 0] demo_passkey(1) [of "2 # replicate 32 6"]
    by fastforce
qed

end
