(* ===== verification/Spec2Isabelle.thy ===== *)
theory Spec2Isabelle
  imports Consensus Committer Clusters Engine Passkey
begin

text \<open>
  Constantinople is a payments chain. A validator runs an engine (\<open>src/crates/engine\<close>) that drives a consensus
  application (\<open>src/crates/application\<close>) over two authenticated databases, account state and transaction history;
  a mempool (\<open>src/crates/mempool\<close>) that takes batches of signed transactions over HTTP and hands the application its
  block bodies; and, on a secondary, a relayer or an index publisher (\<open>src/crates/indexer\<close>) that copies finalized
  blocks and certificates into a Store. The data of all parts is in \<open>src/crates/primitives\<close>. Beside the validator
  there are a load generator, a deployment generator, the services over the Store and a browser explorer with a wallet.

  \<^bold>\<open>Theories, their sources and what they show\<close>

  Shared vocabulary
  \<^item> \<open>Prelude\<close>: machine integers, byte strings, \<open>Result\<close>, checked arithmetic, hash maps. \<open>Strings\<close>: bytes, decimals
    and splitting of strings. \<open>Machines\<close>: the locales of step functions (\<open>machine\<close>, \<open>simulation\<close>, \<open>filtering_run\<close>,
    \<open>conserving_run\<close>), interpreted on the nonce window, on the executor and on the mempool actor. \<open>Codec\<close>: the wire
    format and the locales of codecs (\<open>wire_codec\<close>, \<open>fixed_codec\<close>, \<open>canonical_codec\<close>), interpreted on keys, nonces,
    accounts, signatures, transactions and headers.

  Data, \<open>src/crates/primitives/src\<close>
  \<^item> \<open>Account\<close> (\<open>account.rs\<close>): keys, accounts, and the nonce window as a base and a 64-bit map; the window refines a
    set of used nonces.
  \<^item> \<open>Auth\<close> (\<open>auth.rs\<close>): ed25519 and WebAuthn secp256r1 keys and signatures, and the batch verifier; what an accepted
    assertion binds. \<open>Transaction\<close> (\<open>sealed.rs\<close>, \<open>transaction.rs\<close>, \<open>signed.rs\<close>): sealed, signed and lazily decoded
    transactions; chunked verification accepts exactly the valid bodies. \<open>Block\<close> (\<open>block.rs\<close>): round trip of blocks.

  Application and engine
  \<^item> \<open>Executor\<close> (\<open>executor.rs\<close>): transfers on an overlay of accounts; conservation of the sum of balances, no replay,
    refinement of a ledger, and equality of the fast path with the general one.
  \<^item> \<open>Consensus\<close> (\<open>consensus/\<close>): propose, verify, apply and finalize; a proposal verifies, a verified block is sound
    and conserves, applying agrees with verifying, and when pruning happens.
  \<^item> \<open>Engine\<close> (\<open>src/crates/engine/src/engine.rs\<close>): the floor from which an engine starts; after a restart the first
    pruning reaches the floor itself.

  Mempool and relayer
  \<^item> \<open>Mempool\<close> (\<open>webserver/actor.rs\<close>): the actor as one step per message; its invariant, bounds of the pool, what
    clients are told, and how the pool drains. \<open>Http\<close> (\<open>http.rs\<close>, \<open>mailbox.rs\<close>): the endpoints. \<open>Client\<close>
    (\<open>client.rs\<close>): the HTTP client.
  \<^item> \<open>Relayer\<close> (\<open>src/bin/validator/src/relayer.rs\<close>): forwarding to leaders by view; answers are truthful and come
    after a bounded number of views.

  Index
  \<^item> \<open>Indexer\<close> (\<open>sql_schema.rs\<close>, \<open>publisher/sql.rs\<close>, \<open>publisher/block.rs\<close>): rows and queue entries. \<open>Uploads\<close>
    (\<open>run.rs\<close>, \<open>publisher/qmdb.rs\<close>): the durable queue under crashes and its admission. \<open>Committer\<close>
    (\<open>publisher/qmdb.rs\<close>): commits and watermarks; acknowledged entries are durable. \<open>Certificates\<close>
    (\<open>publisher/certificate.rs\<close>): pairing of finalizations with blocks. \<open>Reader\<close> (\<open>client.rs\<close>): what was written is
    read back, and a digest is never answered with something else.

  Programs around the chain
  \<^item> \<open>Spammer\<close> (\<open>src/bin/spammer/src\<close>): every presigned transaction executes. \<open>Config\<close>
    (\<open>src/bin/validator/src/config.rs\<close>): decoding and loading a configuration. \<open>Deploy\<close> (\<open>src/bin/deploy/src\<close>): the
    generator. \<open>Services\<close> (\<open>src/crates/indexer/src/main.rs\<close>, \<open>bin/\<close>): the settings of the index services.
    \<open>Clusters\<close> composes the last three: generated clusters load, start in their roles and reach each other.
  \<^item> \<open>Wallet\<close> and \<open>Passkey\<close> (\<open>src/explorer/src\<close>: \<open>nonce.ts\<close>, \<open>codec.ts\<close>, \<open>wallet.ts\<close>, parts of \<open>App.tsx\<close> and
    \<open>mempool.ts\<close>): the explorer's nonce window equals the chain's, except where JSON numbers round it, and a
    transfer that it signs with a passkey passes the mempool's endpoint.
  \<^item> this theory: a node, in which HTTP handlers and consensus post to the mempool in any interleaving; what the pool
    hands to the application verifies and respects the size limit of a proposal.

  \<^bold>\<open>How state and operations correspond\<close>

  A struct is a record, an enum a datatype, a handler a function from the state to the state and a list of effects,
  an error or a panic a value of \<open>result\<close> or \<open>option\<close>. Integers are words of their width; \<open>usize\<close> is \<open>nat\<close> with its
  bound written out; JavaScript's \<open>bigint\<close> is \<open>int\<close>. Concurrency is an explicit sequence of messages or steps, over
  which the theorems quantify. Library code is a field of an environment record (\<open>codec\<close>, \<open>crypto\<close>, \<open>tx_env\<close>,
  \<open>block_env\<close>, \<open>qmdb\<close>, \<open>http_lib\<close>, \<open>config_lib\<close>, \<open>deploy_lib\<close>) or an argument; what the code relies on is a named
  predicate (\<open>codec_ok\<close>, \<open>crypto_ok\<close>, \<open>tx_env_ok\<close>, \<open>block_env_ok\<close>, \<open>qmdb_reads\<close>, \<open>http_lib_ok\<close>, \<open>p256_law\<close>,
  \<open>passkey_ok\<close> and so on), and the \<open>demo_\<close> definitions instantiate each of them in the witnesses.

  \<^bold>\<open>Loops and bounds\<close>

  No definition uses fuel. The loops of the nonce windows and of the pinned submission have a measure; loops over a
  collection recurse on it; loops that wait for the outside (retried commits, polled views, answers of a server)
  recurse on the sequence of what they observe, and that they end is a theorem about that sequence.

  \<^bold>\<open>Not modelled\<close>

  The actors of the consensus, marshal, stateful, resolver and networking libraries and how the engine and
  \<open>run.rs\<close> spawn and connect them; time, sleeping, metrics, logging and tracing; command line declarations, YAML and
  file access; the databases, the Store, its SQL and QMDB servers and their tuning options; cryptographic primitives;
  type aliases, re-exports, mocks, tests and benchmarks. Of the explorer, the user interface, the proof queries
  (\<open>qmdb.ts\<close>), the block stream (\<open>indexer.ts\<close>, \<open>blockSequence.ts\<close>) and the submission history are left out.
\<close>

section \<open>A validator node\<close>

text \<open>The mempool of a node with its mailbox: HTTP handlers and consensus post messages, in any
  interleaving, and the actor takes them in order. \<open>processed\<close> is a ghost list of what the actor
  has taken.\<close>

record node =
  inbox :: "message list"
  node_actor :: actor
  node_effects :: "effect list"
  processed :: "message list"

definition node_new :: node where
  "node_new = \<lparr>inbox = [], node_actor = actor_new, node_effects = [], processed = []\<rparr>"

inductive node_step ::
    "'x tx_env_scheme \<Rightarrow> http_lib \<Rightarrow> app_state \<Rightarrow> (digest \<Rightarrow> string) \<Rightarrow> (batch_id list \<Rightarrow> batch_id list)
      \<Rightarrow> pool_config \<Rightarrow> node \<Rightarrow> node \<Rightarrow> bool"
  for c lib st sh it cfg where
  post: "served c lib st m \<Longrightarrow> node_step c lib st sh it cfg n (n\<lparr>inbox := inbox n @ [m]\<rparr>)"
| work: "inbox n = m # ms \<Longrightarrow> handle c sh it cfg m (node_actor n) = (s', e) \<Longrightarrow>
    node_step c lib st sh it cfg n
      (n\<lparr>inbox := ms, node_actor := s', node_effects := node_effects n @ e, processed := processed n @ [m]\<rparr>)"

inductive node_reachable ::
    "'x tx_env_scheme \<Rightarrow> http_lib \<Rightarrow> app_state \<Rightarrow> (digest \<Rightarrow> string) \<Rightarrow> (batch_id list \<Rightarrow> batch_id list)
      \<Rightarrow> pool_config \<Rightarrow> node \<Rightarrow> bool"
  for c lib st sh it cfg where
  start: "node_reachable c lib st sh it cfg node_new"
| step: "node_reachable c lib st sh it cfg n \<Longrightarrow> node_step c lib st sh it cfg n n' \<Longrightarrow>
    node_reachable c lib st sh it cfg n'"

lemma node_run:
  assumes "node_reachable c lib st sh it cfg n"
  shows "node_actor n = actor_run c sh it cfg (processed n)"
    and "list_all (served c lib st) (processed n @ inbox n)"
proof -
  have "node_actor n = actor_run c sh it cfg (processed n) \<and> list_all (served c lib st) (processed n @ inbox n)"
    using assms
  proof induction
    case start
    show ?case by (simp add: node_new_def actor_run_def)
  next
    case (step n n')
    from step.hyps(2) show ?case
    proof cases
      case (post m)
      with step.IH show ?thesis by simp
    next
      case (work m ms s' e)
      with step.IH show ?thesis by (simp add: actor_run_def)
    qed
  qed
  then show "node_actor n = actor_run c sh it cfg (processed n)"
    "list_all (served c lib st) (processed n @ inbox n)" by simp_all
qed

text \<open>Whatever the interleaving, the actor's invariants hold and the pool holds valid transactions.\<close>

lemma node_invariants:
  assumes "tx_env_ok c" "http_lib_ok c lib" "hash_order it" "node_reachable c lib st sh it cfg n"
  shows "actor_inv sh cfg (node_actor n)"
    and "pool_all (\<lambda>t. lazy_valid c (as_namespace st) (lazy_new t)) (max_batch_bytes st) (node_actor n)"
proof -
  note run = node_run [OF assms(4)]
  have "list_all message_ok (processed n)"
    "list_all (submits (\<lambda>t. lazy_valid c (as_namespace st) (lazy_new t)) (max_batch_bytes st)) (processed n)"
    using run(2) by (auto simp: list_all_iff dest: served_ok [OF assms(1,2)])
  then show "actor_inv sh cfg (node_actor n)"
    "pool_all (\<lambda>t. lazy_valid c (as_namespace st) (lazy_new t)) (max_batch_bytes st) (node_actor n)"
    unfolding run(1) using assms(3) by (simp_all add: actor_run_inv actor_run_pool_all)
qed

section \<open>Properties that span components\<close>

lemma node_proposal:
  assumes "tx_env_ok c" "http_lib_ok c lib" "hash_order it" "node_reachable c lib st sh it cfg n"
    and "handle c sh it cfg (mailbox_propose h w) (node_actor n) = (s', [SendBatch w txs])"
  shows "list_all (\<lambda>t. lazy_valid c (as_namespace st) (lazy_new t)) txs"
    and "max_batch_bytes st \<le> max_propose_bytes cfg \<Longrightarrow>
      \<exists>taken. txs = concat (map pe_transactions taken) \<and> pool (node_actor n) = taken @ pool s' \<and>
        sum_list (map pe_total_bytes taken) \<le> max_propose_bytes cfg"
proof -
  note inv = node_invariants [OF assms(1-4)]
  have "handle_propose cfg (h_height h + 1) w (node_actor n) = (s', [SendBatch w txs])"
    using assms(5) by (simp add: mailbox_propose_def)
  from handle_propose_props(2) [OF inv(1) this] obtain taken where
    t: "pool (node_actor n) = taken @ pool s'" "txs = concat (map pe_transactions taken)"
      "sum_list (map pe_total_bytes taken) \<le> max_propose_bytes cfg \<or> length taken = 1" by auto
  have all: "list_all (\<lambda>t. lazy_valid c (as_namespace st) (lazy_new t)) (pe_transactions e)"
    "pe_total_bytes e \<le> max_batch_bytes st" if "e \<in> set taken" for e
    using inv(2) t(1) that by (auto simp: pool_all_def)
  show "list_all (\<lambda>t. lazy_valid c (as_namespace st) (lazy_new t)) txs"
    using all(1) by (auto simp: t(2) list_all_iff)
  assume "max_batch_bytes st \<le> max_propose_bytes cfg"
  then have "sum_list (map pe_total_bytes taken) \<le> max_propose_bytes cfg"
    using t(3) all(2) by (cases taken) (auto intro: le_trans)
  with t show "\<exists>taken. txs = concat (map pe_transactions taken) \<and> pool (node_actor n) = taken @ pool s' \<and>
      sum_list (map pe_total_bytes taken) \<le> max_propose_bytes cfg" by blast
qed

text \<open>A concrete node: one transfer posted to the blocking endpoint and taken by the actor.\<close>

lemma http_lib_ok_demo_block: "http_lib_ok demo_block_env demo_lib"
proof -
  have "read_len demo_block_env = read_len demo_env"
    by (simp add: demo_block_env_def tx_env.extend_def block_env.fields_def)
  then show ?thesis
    by (auto simp: http_lib_ok_def demo_lib_def bind_res_Ok_iff dest: read_many_length split: if_splits)
qed

definition demo_posted :: bytes where
  "demo_posted = write_len demo_block_env (length [demo_signed 7 8 50 0]) @
    concat (map (signed_transaction_write demo_block_env) [demo_signed 7 8 50 0])"

lemma demo_posted_verified:
  "verify_body demo_block_env demo_lib demo_app 0 False demo_posted =
    Ok \<lparr>vb_transactions = [demo_signed 7 8 50 0], vb_digests = [message_digest (demo_signed 7 8 50 0)],
      vb_total_bytes = 147\<rparr>"
proof -
  note ok = block_env_tx [OF block_env_ok_demo] and wf = demo_signed_wf_block [of 50 7 8 0, simplified]
  have "codec_ok demo_block_env" using ok by (simp add: tx_env_ok_def crypto_ok_def)
  then have "length (write_len demo_block_env (length [demo_signed 7 8 50 0])) \<le> 5"
    unfolding codec_ok_def len_law_def by simp
  moreover have "length (signed_transaction_write demo_block_env (demo_signed 7 8 50 0)) = 147"
    using signed_transaction_size(1) [OF ok wf] demo_total by (simp add: total_bytes_for_def)
  ultimately have "length demo_posted \<le> usize_max" by (simp add: demo_posted_def usize_max_def)
  moreover have "total_bytes_for [demo_signed 7 8 50 0] \<le> max_batch_bytes demo_app"
    by (simp add: demo_total demo_app_def)
  ultimately show ?thesis
    using verify_body_complete [OF ok http_lib_ok_demo_block _ _ _ _ _ demo_posted_def, of demo_app 0]
    by (simp add: wf demo_body_valid demo_total)
qed

definition demo_message :: message where
  "demo_message = Submit (digest_to_string demo_lib (hash demo_block_env demo_posted))
    [message_digest (demo_signed 7 8 50 0)] [demo_signed 7 8 50 0] 147 (Some 1) None"

definition demo_node :: node where
  "demo_node = (case handle demo_block_env demo_show (\<lambda>bs. bs) demo_cfg demo_message actor_new of
    (s, e) \<Rightarrow> \<lparr>inbox = [], node_actor = s, node_effects = e, processed = [demo_message]\<rparr>)"

lemma demo_node_reachable:
  "node_reachable demo_block_env demo_lib demo_app demo_show (\<lambda>bs. bs) demo_cfg demo_node"
proof -
  let ?R = "node_reachable demo_block_env demo_lib demo_app demo_show (\<lambda>bs. bs) demo_cfg"
  have "served demo_block_env demo_lib demo_app demo_message"
    unfolding demo_message_def served.simps
    by (rule exI [of _ 0], rule exI [of _ False], rule exI [of _ demo_posted], rule exI [of _ 1],
        rule exI [of _ Sent], rule exI [of _ None],
        rule exI [of _ None], rule exI [of _ "(INTERNAL_SERVER_ERROR_500, EmptyBody)"])
      (simp add: submit_batch_def demo_posted_verified try_submit_def Let_def)
  from node_reachable.step [OF node_reachable.start node_step.post [OF this]]
  have "?R (node_new\<lparr>inbox := [demo_message]\<rparr>)" by (simp add: node_new_def)
  moreover obtain s e where "handle demo_block_env demo_show (\<lambda>bs. bs) demo_cfg demo_message actor_new = (s, e)"
    by (metis prod.exhaust)
  ultimately show ?thesis
    using node_reachable.step [OF _ node_step.work, of demo_block_env demo_lib demo_app demo_show "\<lambda>bs. bs"
        demo_cfg "node_new\<lparr>inbox := [demo_message]\<rparr>" demo_message "[]" s e]
    by (simp add: demo_node_def node_new_def)
qed

lemma demo_node_pool:
  "pool (node_actor demo_node) = [\<lparr>pe_transactions = [demo_signed 7 8 50 0], pe_total_bytes = 147\<rparr>]"
  by (simp add: demo_node_def demo_message_def handle_submit_def actor_new_def remember_status_def
      demo_total demo_cfg_def max_status_entries_def watch_batch_def push_waiter_def)

lemma demo_node_propose:
  "\<exists>s'. handle demo_block_env demo_show (\<lambda>bs. bs) demo_cfg (mailbox_propose h w) (node_actor demo_node) =
    (s', [SendBatch w [demo_signed 7 8 50 0]])"
  by (simp add: mailbox_propose_def handle_propose_def demo_node_pool)

text \<open>C14: From HTTP to consensus: for every interleaving of HTTP submissions, proposals and reports, the
  block that consensus builds from what the mempool hands out for a parent is accepted by
  every validator that verifies it on that parent, with the databases the proposer computed.\<close>

theorem pooled_proposal_verifies:
  assumes "block_env_ok c" "http_lib_ok c lib" "hash_order it" "node_reachable c lib st sh it cfg n"
    and "handle c sh it cfg (mailbox_propose (b_header (sealed_inner parent)) w) (node_actor n) =
      (s', [SendBatch w txs])"
    and "qmdb_reads db view" "propose_child c db rt ctx parent (sb, tb) txs = Ok (blk, mk)"
    and "is_valid_child_timestamp (h_timestamp (b_header (sealed_inner parent))) (now_ms rt)"
    and "\<not> signature_task_closed rt'" "length txs * 2 \<le> usize_max"
  shows "verify_child c db rt' (as_namespace st) blk parent (sb, tb) = Ok mk"
  by (rule proposal_verifies_aux [OF assms(1,6,7,8) _ assms(9,10)])
    (rule node_proposal(1) [OF block_env_tx [OF assms(1)] assms(2-5)])

theorem pooled_proposal_verifies_witness:
  "\<exists>blk mk. demo_proposal = Ok (blk, mk) \<and>
    verify_child demo_block_env demo_db demo_runtime [] blk demo_parent ([], (4, [], 0)) = Ok mk"
proof -
  obtain blk mk where p: "demo_proposal = Ok (blk, mk)" by (rule demo_proposal_Ok)
  obtain s' where h: "handle demo_block_env demo_show (\<lambda>bs. bs) demo_cfg
      (mailbox_propose (b_header (sealed_inner demo_parent)) 8) (node_actor demo_node) =
      (s', [SendBatch 8 [demo_signed 7 8 50 0]])" using demo_node_propose by blast
  have "verify_child demo_block_env demo_db demo_runtime (as_namespace demo_app) blk demo_parent
      ([], (4, [], 0)) = Ok mk"
    by (rule pooled_proposal_verifies [OF block_env_ok_demo http_lib_ok_demo_block hash_order_id
          demo_node_reachable h qmdb_reads_demo p [unfolded demo_proposal_def]])
      (simp_all add: is_valid_child_timestamp_def demo_parent_def block_seal_def block_new_def
        sealed_new_unchecked_def demo_header_def demo_runtime_def max_block_timestamp_ms_def usize_max_def)
  with p show ?thesis unfolding demo_app_def app_state.simps by blast
qed

text \<open>C15: Proposals respect the configured limit: when the endpoints accept batches of at most
  \<open>max_propose_bytes\<close>, as the actor configures them, what any proposal takes from the pool stays
  within \<open>max_propose_bytes\<close>.\<close>

theorem proposals_within_limit:
  assumes "tx_env_ok c" "http_lib_ok c lib" "hash_order it" "node_reachable c lib st sh it cfg n"
    and "handle c sh it cfg (mailbox_propose h w) (node_actor n) = (s', [SendBatch w txs])"
    and "max_batch_bytes st \<le> max_propose_bytes cfg"
  shows "\<exists>taken. txs = concat (map pe_transactions taken) \<and> pool (node_actor n) = taken @ pool s' \<and>
    sum_list (map pe_total_bytes taken) \<le> max_propose_bytes cfg"
  by (rule node_proposal(2) [OF assms])

theorem proposals_within_limit_witness:
  "\<exists>s' taken. [demo_signed 7 8 50 0] = concat (map pe_transactions taken) \<and>
    pool (node_actor demo_node) = taken @ pool (s' :: actor) \<and>
    sum_list (map pe_total_bytes taken) \<le> max_propose_bytes demo_cfg"
proof -
  obtain s' where h: "handle demo_block_env demo_show (\<lambda>bs. bs) demo_cfg (mailbox_propose (demo_header 4 1000) 8)
      (node_actor demo_node) = (s', [SendBatch 8 [demo_signed 7 8 50 0]])" using demo_node_propose by blast
  show ?thesis
    by (rule exI, rule proposals_within_limit [OF block_env_tx [OF block_env_ok_demo] http_lib_ok_demo_block
          hash_order_id demo_node_reachable h]) (simp add: demo_app_def demo_cfg_def)
qed

end
